(* ===== verification/Prelude.thy ===== *)
theory Prelude
  imports Main "HOL-Library.Word" "HOL-Library.AList" "HOL-Library.Multiset"
begin

section \<open>Shared types, Go maps and generic lemmas\<close>

text \<open>
  What every component of the model uses: the machine types of the Go code, Go maps as
  association lists with the order in which a \<open>range\<close> loop meets the entries, the result
  type of a fallible function, and a few lemmas on lists and folds.

  Conventions of the whole development:
  \<^item> a Go \<open>string\<close> or \<open>[]byte\<close> is an Isabelle \<open>string\<close>, one \<open>char\<close> per byte;
  \<^item> a \<open>uint64\<close> counter is a \<open>64 word\<close>, an \<open>int64\<close> or \<open>time.Duration\<close> an \<open>int\<close>
    with the wrap-around written out where a multiplication can leave the range;
  \<^item> a Go map is a list of pairs with distinct keys (\<open>gm_wf\<close>); \<open>nil\<close> and the empty map
    are both \<open>[]\<close> unless the code compares with \<open>nil\<close>, and then the field is an \<open>option\<close>;
  \<^item> code outside the repository (mihomo, yaml, the operating system) is an argument of the
    definitions that call it.
\<close>

type_synonym u64 = "64 word"
type_synonym bytes = string
type_synonym ('k, 'v) gomap = "('k \<times> 'v) list"

text \<open>Collections that the component theories extend and their proofs use.\<close>

named_theorems model_defs "unfolding rules of the non-recursive operations"
named_theorems inv_intros "operations that preserve an invariant"

subsection \<open>Go maps\<close>

definition gm_wf :: "('k, 'v) gomap \<Rightarrow> bool" where
  "gm_wf m \<longleftrightarrow> distinct (map fst m)"

text \<open>\<open>maps.Equal\<close>: the lengths agree and every entry of the first map is in the second.\<close>

definition maps_equal :: "('k, 'v) gomap \<Rightarrow> ('k, 'v) gomap \<Rightarrow> bool" where
  "maps_equal m n \<longleftrightarrow> length m = length n \<and> list_all (\<lambda>(k, v). map_of n k = Some v) m"

lemma gm_wf_Nil [simp, intro]: "gm_wf []"
  by (simp add: gm_wf_def)

lemma gm_wf_update [simp, intro]: "gm_wf m \<Longrightarrow> gm_wf (AList.update k v m)"
  by (simp add: gm_wf_def distinct_update)

lemma gm_wf_delete [simp, intro]: "gm_wf m \<Longrightarrow> gm_wf (AList.delete k m)"
  by (simp add: gm_wf_def distinct_delete)

lemma gm_wf_filter [simp, intro]: "gm_wf m \<Longrightarrow> gm_wf (filter P m)"
  by (simp add: gm_wf_def distinct_map_filter)

lemma maps_equal_refl [simp]: "gm_wf m \<Longrightarrow> maps_equal m m"
  by (auto simp: maps_equal_def gm_wf_def list_all_iff)

text \<open>On well-formed maps \<open>maps.Equal\<close> is equality of the maps as partial functions.\<close>

lemma gm_wf_card: "gm_wf m \<Longrightarrow> card (set m) = length m"
  unfolding gm_wf_def by (metis distinct_card distinct_map)

lemma maps_equal_set:
  assumes "gm_wf m" and "gm_wf n"
  shows "maps_equal m n \<longleftrightarrow> set m = set n"
proof
  assume eq: "maps_equal m n"
  then have "set m \<subseteq> set n"
    by (auto simp: maps_equal_def list_all_iff dest: map_of_SomeD)
  moreover have "card (set m) = card (set n)"
    using eq assms by (simp add: maps_equal_def gm_wf_card)
  ultimately show "set m = set n"
    by (simp add: card_subset_eq)
next
  assume eq: "set m = set n"
  then have "length m = length n"
    using assms by (metis gm_wf_card)
  with eq assms(2) show "maps_equal m n"
    by (auto simp: maps_equal_def list_all_iff gm_wf_def)
qed

lemma maps_equal_iff:
  assumes "gm_wf m" and "gm_wf n"
  shows "maps_equal m n \<longleftrightarrow> map_of m = map_of n"
  using assms map_of_inject_set [of m n] by (simp add: maps_equal_set gm_wf_def)

subsection \<open>Results of fallible functions\<close>

type_synonym ('e, 'a) result = "'e + 'a"

fun is_ok :: "('e, 'a) result \<Rightarrow> bool" where
  "is_ok (Inl _) = False"
| "is_ok (Inr _) = True"

lemma is_ok_iff: "is_ok r \<longleftrightarrow> (\<exists>x. r = Inr x)"
  by (cases r) auto

subsection \<open>Searching a list\<close>

lemma find_SomeD: "find P xs = Some x \<Longrightarrow> x \<in> set xs" "find P xs = Some x \<Longrightarrow> P x"
  by (auto simp: find_Some_iff)

lemma find_NoneD: "find P xs = None \<Longrightarrow> x \<in> set xs \<Longrightarrow> \<not> P x"
  by (auto simp: find_None_iff)

subsection \<open>Folds that keep an invariant\<close>

lemma fold_invariant:
  assumes "I s" and "\<And>x s. x \<in> set xs \<Longrightarrow> I s \<Longrightarrow> I (f x s)"
  shows "I (fold f xs s)"
  using assms by (induction xs arbitrary: s) auto

end
