(* ===== verification/GoStrings.thy ===== *)
theory GoStrings
  imports Prelude
begin

section \<open>The operations of Go's \<open>strings\<close> and \<open>strconv\<close> packages that the core calls\<close>

text \<open>
  Go strings are byte sequences, so a \<open>char\<close> here is one byte. The case mappings and
  \<open>TrimSpace\<close> read UTF-8 in Go; the definitions follow them as far as the core can see a
  difference: \<open>to_upper\<close> and \<open>to_lower\<close> treat the non-ASCII letters whose image is an ASCII
  letter (U+0131 and U+017F upwards, U+0130 and U+212A downwards) and leave every other non-ASCII
  byte alone, since the core compares their results with ASCII text only.
\<close>

subsection \<open>Searching and splitting\<close>

definition has_prefix :: "string \<Rightarrow> string \<Rightarrow> bool" where
  "has_prefix p s \<longleftrightarrow> take (length p) s = p"

fun str_index :: "string \<Rightarrow> string \<Rightarrow> nat option" where
  "str_index sub [] = (if sub = [] then Some 0 else None)"
| "str_index sub (c # s) =
     (if has_prefix sub (c # s) then Some 0 else map_option Suc (str_index sub s))"

definition str_contains :: "string \<Rightarrow> string \<Rightarrow> bool" where
  "str_contains s sub \<longleftrightarrow> str_index sub s \<noteq> None"

text \<open>\<open>strings.Cut\<close> at a one-byte separator: the parts around its first occurrence.\<close>

fun cut_at :: "char \<Rightarrow> string \<Rightarrow> string \<times> string \<times> bool" where
  "cut_at sep [] = ([], [], False)"
| "cut_at sep (c # s) =
     (if c = sep then ([], s, True)
      else (case cut_at sep s of (a, b, found) \<Rightarrow> (c # a, b, found)))"

text \<open>\<open>strings.Split\<close> at a one-byte separator and \<open>strings.Join\<close>.\<close>

fun split_on :: "char \<Rightarrow> string \<Rightarrow> string list" where
  "split_on sep [] = [[]]"
| "split_on sep (c # s) =
     (if c = sep then [] # split_on sep s
      else (case split_on sep s of [] \<Rightarrow> [[c]] | w # ws \<Rightarrow> (c # w) # ws))"

fun str_join :: "string \<Rightarrow> string list \<Rightarrow> string" where
  "str_join sep [] = []"
| "str_join sep [w] = w"
| "str_join sep (w # v # ws) = w @ sep @ str_join sep (v # ws)"

lemma has_prefix_Nil [simp]: "has_prefix [] s"
  by (simp add: has_prefix_def)

lemma has_prefix_Cons [simp]:
  "has_prefix (a # p) [] = False" "has_prefix (a # p) (b # s) = (a = b \<and> has_prefix p s)"
  by (auto simp: has_prefix_def)

lemma has_prefix_append: "has_prefix p (p @ s)"
  by (simp add: has_prefix_def)

lemma has_prefix_iff: "has_prefix p s \<longleftrightarrow> (\<exists>t. s = p @ t)"
  unfolding has_prefix_def by (metis append_eq_conv_conj append_take_drop_id)

lemma str_index_Some:
  "str_index sub s = Some i \<Longrightarrow> i + length sub \<le> length s \<and> take (length sub) (drop i s) = sub"
proof (induction s arbitrary: i)
  case Nil
  then show ?case by (auto split: if_splits)
next
  case (Cons c s)
  show ?case
  proof (cases "has_prefix sub (c # s)")
    case True
    with Cons.prems have "i = 0" by simp
    moreover from True obtain t where "c # s = sub @ t"
      by (auto simp: has_prefix_iff)
    then have "length sub \<le> length (c # s)" and "take (length sub) (c # s) = sub"
      by simp_all
    ultimately show ?thesis by simp
  next
    case False
    with Cons show ?thesis by auto
  qed
qed

lemma str_index_append: "\<exists>i. str_index sub (a @ sub @ b) = Some i"
proof (induction a)
  case Nil
  then show ?case using has_prefix_append [of sub b] by (cases "sub @ b") auto
next
  case (Cons c a)
  then show ?case by auto
qed

text \<open>\<open>strings.Contains\<close> finds exactly the texts with an occurrence.\<close>

lemma str_contains_iff: "str_contains s sub \<longleftrightarrow> (\<exists>a b. s = a @ sub @ b)"
proof
  assume "str_contains s sub"
  then obtain i where "str_index sub s = Some i"
    by (auto simp: str_contains_def)
  from str_index_Some [OF this] have "s = take i s @ sub @ drop (length sub) (drop i s)"
    by (metis append_take_drop_id)
  then show "\<exists>a b. s = a @ sub @ b" by blast
next
  assume "\<exists>a b. s = a @ sub @ b"
  then show "str_contains s sub"
    using str_index_append by (auto simp: str_contains_def)
qed

lemma split_on_not_Nil [simp]: "split_on sep s \<noteq> []"
  by (induction s) (auto split: list.splits)

lemma str_join_Cons: "ws \<noteq> [] \<Longrightarrow> str_join sep (w # ws) = w @ sep @ str_join sep ws"
  by (cases ws) auto

lemma str_join_split: "str_join [sep] (split_on sep s) = s"
proof (induction s)
  case Nil
  then show ?case by simp
next
  case (Cons c s)
  then show ?case
    by (cases "split_on sep s"; cases "tl (split_on sep s)") (auto simp: str_join_Cons)
qed

lemma split_on_pieces: "w \<in> set (split_on sep s) \<Longrightarrow> sep \<notin> set w"
proof (induction s arbitrary: w)
  case Nil
  then show ?case by simp
next
  case (Cons c s)
  then show ?case
    by (cases "split_on sep s") (auto split: if_splits)
qed

lemma cut_at_found: "cut_at sep s = (a, b, True) \<Longrightarrow> s = a @ sep # b \<and> sep \<notin> set a"
  by (induction s arbitrary: a b) (auto split: if_splits prod.splits)

lemma cut_at_missing: "cut_at sep s = (a, b, False) \<Longrightarrow> a = s \<and> b = [] \<and> sep \<notin> set s"
  by (induction s arbitrary: a b) (auto split: if_splits prod.splits)

subsection \<open>White space and case\<close>

text \<open>The encodings of the runes with \<open>unicode.IsSpace\<close>.\<close>

definition space_runes :: "string list" where
  "space_runes =
     [[CHR 0x20], [CHR 0x09], [CHR 0x0A], [CHR 0x0B], [CHR 0x0C], [CHR 0x0D],
      [CHR 0xC2, CHR 0x85], [CHR 0xC2, CHR 0xA0], [CHR 0xE1, CHR 0x9A, CHR 0x80],
      [CHR 0xE2, CHR 0x80, CHR 0x80], [CHR 0xE2, CHR 0x80, CHR 0x81],
      [CHR 0xE2, CHR 0x80, CHR 0x82], [CHR 0xE2, CHR 0x80, CHR 0x83],
      [CHR 0xE2, CHR 0x80, CHR 0x84], [CHR 0xE2, CHR 0x80, CHR 0x85],
      [CHR 0xE2, CHR 0x80, CHR 0x86], [CHR 0xE2, CHR 0x80, CHR 0x87],
      [CHR 0xE2, CHR 0x80, CHR 0x88], [CHR 0xE2, CHR 0x80, CHR 0x89],
      [CHR 0xE2, CHR 0x80, CHR 0x8A], [CHR 0xE2, CHR 0x80, CHR 0xA8],
      [CHR 0xE2, CHR 0x80, CHR 0xA9], [CHR 0xE2, CHR 0x80, CHR 0xAF],
      [CHR 0xE2, CHR 0x81, CHR 0x9F], [CHR 0xE3, CHR 0x80, CHR 0x80]]"

text \<open>Drop words of the list from the front as long as one fits.\<close>

fun drop_words :: "string list \<Rightarrow> nat \<Rightarrow> string \<Rightarrow> string" where
  "drop_words ws 0 s = s"
| "drop_words ws (Suc n) s =
     (case find (\<lambda>w. has_prefix w s) ws of
        None \<Rightarrow> s
      | Some w \<Rightarrow> drop_words ws n (drop (length w) s))"

text \<open>\<open>strings.TrimSpace\<close>; at most as many runes are dropped as there are bytes.\<close>

definition trim_space :: "string \<Rightarrow> string" where
  "trim_space s =
     (let t = drop_words space_runes (length s) s
      in rev (drop_words (map rev space_runes) (length t) (rev t)))"

definition code :: "char \<Rightarrow> nat" where
  "code c = of_char c"

definition upper_byte :: "char \<Rightarrow> char" where
  "upper_byte c = (if 97 \<le> code c \<and> code c \<le> 122 then char_of (code c - 32) else c)"

definition lower_byte :: "char \<Rightarrow> char" where
  "lower_byte c = (if 65 \<le> code c \<and> code c \<le> 90 then char_of (code c + 32) else c)"

fun to_upper :: "string \<Rightarrow> string" where
  "to_upper [] = []"
| "to_upper [c] = [upper_byte c]"
| "to_upper (c # d # s) =
     (if c = CHR 0xC4 \<and> d = CHR 0xB1 then CHR ''I'' # to_upper s
      else if c = CHR 0xC5 \<and> d = CHR 0xBF then CHR ''S'' # to_upper s
      else upper_byte c # to_upper (d # s))"

fun to_lower :: "string \<Rightarrow> string" where
  "to_lower [] = []"
| "to_lower (c # s) =
     (if has_prefix [CHR 0xC4, CHR 0xB0] (c # s) then CHR ''i'' # to_lower (drop 1 s)
      else if has_prefix [CHR 0xE2, CHR 0x84, CHR 0xAA] (c # s) then CHR ''k'' # to_lower (drop 2 s)
      else lower_byte c # to_lower s)"

text \<open>\<open>strings.EqualFold\<close> with a text whose letters have no non-ASCII case variants.\<close>

definition equal_fold_ascii :: "string \<Rightarrow> string \<Rightarrow> bool" where
  "equal_fold_ascii s t \<longleftrightarrow> map upper_byte s = map upper_byte t"

lemma space_runes_nonempty: "w \<in> set space_runes \<Longrightarrow> w \<noteq> []"
  by (auto simp: space_runes_def)

lemma drop_words_suffix: "\<exists>t. s = t @ drop_words ws n s"
proof (induction ws n s rule: drop_words.induct)
  case (1 ws s)
  then show ?case by simp
next
  case (2 ws n s)
  show ?case
  proof (cases "find (\<lambda>w. has_prefix w s) ws")
    case None
    then show ?thesis by simp
  next
    case (Some w)
    with 2 obtain t where "drop (length w) s = t @ drop_words ws n (drop (length w) s)"
      by blast
    then have "s = (take (length w) s @ t) @ drop_words ws n (drop (length w) s)"
      by (metis append.assoc append_take_drop_id)
    with Some show ?thesis
      by (simp del: append_assoc) (rule exI)
  qed
qed

lemma length_drop_words: "length (drop_words ws n s) \<le> length s"
  using drop_words_suffix [of s ws n] by (metis length_append le_add2)

lemma set_trim_space: "set (trim_space s) \<subseteq> set s"
proof -
  let ?t = "drop_words space_runes (length s) s"
  let ?u = "drop_words (map rev space_runes) (length ?t) (rev ?t)"
  from drop_words_suffix [of s space_runes "length s"] have "set ?t \<subseteq> set s"
    by (metis set_append Un_upper2)
  moreover from drop_words_suffix [of "rev ?t" "map rev space_runes" "length ?t"]
  have "set ?u \<subseteq> set (rev ?t)"
    by (metis set_append Un_upper2)
  ultimately show ?thesis by (simp add: trim_space_def Let_def)
qed

subsection \<open>Numbers and quoting\<close>

fun dec_digits :: "nat \<Rightarrow> string" where
  "dec_digits n =
     (if n < 10 then [char_of (48 + n)] else dec_digits (n div 10) @ [char_of (48 + n mod 10)])"

declare dec_digits.simps [simp del]

text \<open>\<open>strconv.FormatInt\<close> in base ten.\<close>

definition format_int :: "int \<Rightarrow> string" where
  "format_int i = (if i < 0 then CHR ''-'' # dec_digits (nat (- i)) else dec_digits (nat i))"

text \<open>
  The verb \<open>%q\<close> (\<open>strconv.Quote\<close>) on the bytes of ASCII. A byte of a multi-byte rune is
  copied, which is what Go does with a printable rune.
\<close>

definition hex_digit :: "nat \<Rightarrow> char" where
  "hex_digit n = (if n < 10 then char_of (48 + n) else char_of (87 + n))"

definition quote_byte :: "char \<Rightarrow> string" where
  "quote_byte c =
     (if c = CHR 0x22 then [CHR 0x5C, CHR 0x22]
      else if c = CHR 0x5C then [CHR 0x5C, CHR 0x5C]
      else if code c = 7 then [CHR 0x5C, CHR ''a'']
      else if code c = 8 then [CHR 0x5C, CHR ''b'']
      else if code c = 12 then [CHR 0x5C, CHR ''f'']
      else if code c = 10 then [CHR 0x5C, CHR ''n'']
      else if code c = 13 then [CHR 0x5C, CHR ''r'']
      else if code c = 9 then [CHR 0x5C, CHR ''t'']
      else if code c = 11 then [CHR 0x5C, CHR ''v'']
      else if code c < 32 \<or> code c = 127
        then [CHR 0x5C, CHR ''x'', hex_digit (code c div 16), hex_digit (code c mod 16)]
      else [c])"

definition go_quote :: "string \<Rightarrow> string" where
  "go_quote s = CHR 0x22 # concat (map quote_byte s) @ [CHR 0x22]"

end
