(* ===== verification/Adapters.thy ===== *)
theory Adapters
  imports GoStrings
begin

section \<open>What the core reads of mihomo's proxies\<close>

text \<open>
  mihomo's proxies and groups are code outside the repository. The core only reads them through
  the interfaces \<open>constant.Proxy\<close> and \<open>pickableGroup\<close>; a \<open>proxy\<close> here is the snapshot of what
  those methods answer, and a \<open>proxyEnv\<close> holds the calls that take an argument.
\<close>

datatype adapterType = Selector | URLTest | Fallback | Relay | LoadBalance | OtherAdapter string

record proxy =
  px_name :: string
  px_type :: adapterType
  px_type_name :: string       \<comment> \<open>\<open>Type().String()\<close>\<close>
  px_addr :: string
  px_now :: "string option"    \<comment> \<open>\<open>Now()\<close> of a proxy that is a \<open>pickableGroup\<close>\<close>
  px_provider :: string        \<comment> \<open>\<open>ProxyInfo().ProviderName\<close>\<close>

type_synonym proxies = "(string, proxy) gomap"

text \<open>
  \<open>'m\<close> is the type of a connection's metadata: \<open>probeMetadata\<close> is \<open>None\<close> where
  \<open>SetRemoteAddress\<close> fails, \<open>resolveRoute\<close> is \<open>None\<close> where \<open>tunnel.ResolveRoute\<close> fails, and
  \<open>unwrap\<close> is the hop a group hands the connection to.
\<close>

record 'm proxyEnv =
  allProxies :: proxies
  probeMetadata :: "string \<Rightarrow> 'm option"
  resolveRoute :: "'m \<Rightarrow> proxy option"
  unwrap :: "proxy \<Rightarrow> 'm option \<Rightarrow> proxy option"

definition lookupProxy :: "proxies \<Rightarrow> string \<Rightarrow> proxy option" where
  "lookupProxy ps name = map_of ps name"

definition isProxyGroupType :: "adapterType \<Rightarrow> bool" where
  "isProxyGroupType t = (case t of OtherAdapter _ \<Rightarrow> False | _ \<Rightarrow> True)"

text \<open>The exit a connection leaves through, as the host compares it.\<close>

definition exitName :: "proxy \<Rightarrow> string" where
  "exitName p = go_quote (px_name p) @ '' '' @ px_type_name p @ '' '' @ px_addr p"

subsection \<open>Following a proxy to its exit\<close>

text \<open>
  The loop of \<open>exitThrough\<close> ends only if the chain of groups does, so its result is an option:
  \<open>None\<close> is a loop that never leaves.
\<close>

partial_function (option) exitThrough ::
  "'m proxyEnv \<Rightarrow> proxy option \<Rightarrow> 'm option \<Rightarrow> string option" where
  "exitThrough env p metadata =
     (case p of
        None \<Rightarrow> Some []
      | Some q \<Rightarrow>
          (if px_type q = LoadBalance then Some (exitName q)
           else (case unwrap env q metadata of
                   None \<Rightarrow> Some (exitName q)
                 | Some next \<Rightarrow> exitThrough env (Some next) metadata)))"

definition resolveExit :: "'m proxyEnv \<Rightarrow> string \<Rightarrow> string \<Rightarrow> string option" where
  "resolveExit env host proxyName =
     (let metadata = probeMetadata env host in
      if proxyName \<noteq> [] then exitThrough env (lookupProxy (allProxies env) proxyName) metadata
      else (case metadata of
              None \<Rightarrow> Some []
            | Some m \<Rightarrow>
                (case resolveRoute env m of
                   None \<Rightarrow> Some []
                 | Some p \<Rightarrow> exitThrough env (Some p) metadata)))"

text \<open>The outermost load balancer among the names, read from the end of the chain.\<close>

fun lastBalancer :: "proxies \<Rightarrow> string list \<Rightarrow> proxy option" where
  "lastBalancer ps [] = None"
| "lastBalancer ps (name # names) =
     (case lookupProxy ps name of
        Some p \<Rightarrow> if px_type p = LoadBalance then Some p else lastBalancer ps names
      | None \<Rightarrow> lastBalancer ps names)"

fun exitOfChains :: "proxies \<Rightarrow> string list \<Rightarrow> string" where
  "exitOfChains ps [] = []"
| "exitOfChains ps (leaf # groups) =
     (case lastBalancer ps (rev groups) of
        Some p \<Rightarrow> exitName p
      | None \<Rightarrow> (case lookupProxy ps leaf of Some p \<Rightarrow> exitName p | None \<Rightarrow> []))"

text \<open>\<open>walks env m p ps\<close>: \<open>ps\<close> are the hops from \<open>p\<close> down to the one that dials.\<close>

inductive walks :: "'m proxyEnv \<Rightarrow> 'm option \<Rightarrow> proxy \<Rightarrow> proxy list \<Rightarrow> bool"
  for env :: "'m proxyEnv" and metadata :: "'m option" where
  walk_leaf: "unwrap env p metadata = None \<Longrightarrow> walks env metadata p [p]"
| walk_step: "unwrap env p metadata = Some q \<Longrightarrow> walks env metadata q ps \<Longrightarrow>
     walks env metadata p (p # ps)"

inductive_cases walks_leafE: "walks env metadata p [q]"

lemma walks_hd: "walks env metadata p ps \<Longrightarrow> \<exists>qs. ps = p # qs"
  by (auto elim: walks.cases)

lemma exitThrough_simps:
  "exitThrough env None metadata = Some []"
  "exitThrough env (Some q) metadata =
     (if px_type q = LoadBalance then Some (exitName q)
      else (case unwrap env q metadata of
              None \<Rightarrow> Some (exitName q)
            | Some next \<Rightarrow> exitThrough env (Some next) metadata))"
  by (subst exitThrough.simps, simp)+

lemma exitThrough_returns:
  assumes "\<And>p q. unwrap env p metadata = Some q \<Longrightarrow> rank q < (rank p :: nat)"
  shows "\<exists>e. exitThrough env p metadata = Some e"
proof (cases p)
  case None
  then show ?thesis by (simp add: exitThrough_simps)
next
  case (Some q)
  have "\<exists>e. exitThrough env (Some q) metadata = Some e"
  proof (induction "rank q" arbitrary: q rule: less_induct)
    case less
    then show ?case
      by (subst exitThrough_simps(2)) (auto split: option.split dest: assms)
  qed
  with Some show ?thesis by simp
qed

lemma resolveExit_returns:
  assumes "\<And>m p q. unwrap env p m = Some q \<Longrightarrow> rank q < (rank p :: nat)"
  shows "\<exists>e. resolveExit env host name = Some e"
  unfolding resolveExit_def Let_def
  using exitThrough_returns [OF assms] by (auto split: option.split)

lemma lastBalancer_append:
  "lastBalancer ps (xs @ ys) =
     (case lastBalancer ps xs of Some p \<Rightarrow> Some p | None \<Rightarrow> lastBalancer ps ys)"
  by (induction xs) (auto split: option.split)

text \<open>
  A walk read backwards gives the same exit as the loop over the hops: the load balancer the
  loop stops at is the last one of the chain.
\<close>

lemma walk_exit:
  assumes "walks env metadata p ps"
    and "\<And>q. q \<in> set ps \<Longrightarrow> lookupProxy all (px_name q) = Some q"
  shows "exitThrough env (Some p) metadata = Some (exitOfChains all (map px_name (rev ps)))"
  using assms
proof (induction rule: walks.induct)
  case (walk_leaf p)
  then show ?case by (simp add: exitThrough_simps)
next
  case (walk_step p q ps)
  from walk_step.prems have p: "lookupProxy all (px_name p) = Some p" by simp
  obtain leaf groups where ps: "rev ps = leaf # groups"
    using walks_hd [OF walk_step.hyps(2)] by (cases "rev ps") auto
  have rest: "rev (groups @ [p]) = p # rev groups" by simp
  show ?case
  proof (cases "px_type p = LoadBalance")
    case True
    with p ps show ?thesis by (simp add: exitThrough_simps(2))
  next
    case False
    with walk_step ps have
      "exitThrough env (Some p) metadata = Some (exitOfChains all (map px_name (leaf # groups)))"
      by (simp add: exitThrough_simps(2))
    with False p ps show ?thesis by (simp add: rev_map)
  qed
qed

end
