(* ===== verification/Route.thy ===== *)
theory Route
  imports Adapters
begin

section \<open>The route tracker (\<open>core/route.go\<close>)\<close>

text \<open>
  The tracker stamps every answer of the core with an epoch and a version, tells the host when
  the route moves, and polls while the host watches. State: \<open>routeTracker\<close>, with the polling
  goroutines still alive as the ghost field \<open>livePolls\<close>. Every operation that the code runs under
  one lock is one definition; \<open>route_step\<close> is the interleaving of these critical sections.
\<close>

subsection \<open>Changes, snapshots and the tracker\<close>

datatype routeChange = RouteUnchanged | RouteMoved | RouteReset

fun iota :: "routeChange \<Rightarrow> nat" where
  "iota RouteUnchanged = 0"
| "iota RouteMoved = 1"
| "iota RouteReset = 2"

lemma iota_inject [simp]: "iota a = iota b \<longleftrightarrow> a = b"
  by (cases a; cases b) auto

instantiation routeChange :: linorder
begin

definition less_eq_routeChange :: "routeChange \<Rightarrow> routeChange \<Rightarrow> bool" where
  "less_eq_routeChange a b \<longleftrightarrow> iota a \<le> iota b"

definition less_routeChange :: "routeChange \<Rightarrow> routeChange \<Rightarrow> bool" where
  "less_routeChange a b \<longleftrightarrow> iota a < iota b"

instance
  by standard (auto simp: less_eq_routeChange_def less_routeChange_def)

end

lemma max_routeMoved:
  "max c RouteMoved = (if c = RouteReset then RouteReset else RouteMoved)"
  by (cases c) (auto simp: max_def less_eq_routeChange_def)

record 's tunnelView =
  tv_proxies :: proxies
  tv_providers :: "(string, 32 word) gomap"   \<comment> \<open>provider name to \<open>Version()\<close>\<close>
  tv_ruleProviders :: "(string, 's) gomap"    \<comment> \<open>rule provider name to \<open>Strategy()\<close>\<close>

record RouteState =
  CoreEpoch :: u64
  RouteVersion :: u64

record 's routeTracker =
  epoch :: u64
  version :: u64
  picks :: "(string, string) gomap"
  providerVersions :: "(string, 32 word) gomap option"
  ruleSets :: "(string, 's) gomap option"
  watched :: bool
  watchSeq :: u64
  stopPoll :: "nat option"    \<comment> \<open>the poll whose cancel function is kept\<close>
  livePolls :: "nat list"     \<comment> \<open>the polls not cancelled\<close>
  nextPoll :: nat

definition initTracker :: "'s routeTracker" where
  "initTracker = \<lparr>epoch = 0, version = 0, picks = [], providerVersions = None, ruleSets = None,
     watched = False, watchSeq = 0, stopPoll = None, livePolls = [], nextPoll = 0\<rparr>"

definition routeState :: "'s routeTracker \<Rightarrow> RouteState" where
  "routeState s = \<lparr>CoreEpoch = epoch s, RouteVersion = version s\<rparr>"

definition routeStamp :: "'s routeTracker \<Rightarrow> u64 \<times> u64" where
  "routeStamp s = (epoch s, version s)"

subsection \<open>Reading the tunnel and moving the route\<close>

definition readPicks :: "'s tunnelView \<Rightarrow> (string, string) gomap \<times> (string, 32 word) gomap" where
  "readPicks tv =
     (List.map_filter (\<lambda>(name, p). map_option (Pair name) (px_now p)) (tv_proxies tv),
      tv_providers tv)"

definition readRuleSets :: "'s tunnelView \<Rightarrow> (string, 's) gomap" where
  "readRuleSets tv = tv_ruleProviders tv"

text \<open>The test of \<open>refreshRouteLocked\<close>: something the tracker remembers reads differently.\<close>

definition tunnelMoved :: "'s tunnelView \<Rightarrow> 's routeTracker \<Rightarrow> bool" where
  "tunnelMoved tv s =
     (case readPicks tv of (ps, vs) \<Rightarrow>
        (case providerVersions s of None \<Rightarrow> False | Some old \<Rightarrow> \<not> maps_equal vs old) \<or>
        (case ruleSets s of None \<Rightarrow> False | Some old \<Rightarrow> \<not> maps_equal (readRuleSets tv) old) \<or>
        \<not> maps_equal ps (picks s))"

definition refreshRouteLocked ::
  "'s tunnelView \<Rightarrow> routeChange \<Rightarrow> 's routeTracker \<Rightarrow> 's routeTracker \<times> RouteState option" where
  "refreshRouteLocked tv change s =
     (let (ps, vs) = readPicks tv;
          change = (if tunnelMoved tv s then max change RouteMoved else change);
          s = s\<lparr>providerVersions := Some vs, ruleSets := Some (readRuleSets tv), picks := ps\<rparr>;
          s = (if change = RouteReset then s\<lparr>epoch := epoch s + 1\<rparr> else s)
      in if change = RouteUnchanged then (s, None)
         else (let s = s\<lparr>version := version s + 1\<rparr>
               in if \<not> watched s then (s, None) else (s, Some (routeState s))))"

definition changeRoute ::
  "'s tunnelView \<Rightarrow> routeChange \<Rightarrow> 's routeTracker \<Rightarrow> 's routeTracker \<times> RouteState option" where
  "changeRoute tv change s = refreshRouteLocked tv change s"

definition refreshRoute ::
  "'s tunnelView \<Rightarrow> 's routeTracker \<Rightarrow> 's routeTracker \<times> RouteState option" where
  "refreshRoute tv s = changeRoute tv RouteUnchanged s"

definition bumpRouteEpoch ::
  "'s tunnelView \<Rightarrow> 's routeTracker \<Rightarrow> 's routeTracker \<times> RouteState option" where
  "bumpRouteEpoch tv s = changeRoute tv RouteReset s"

subsection \<open>Watching\<close>

definition stopRoutePollLocked :: "'s routeTracker \<Rightarrow> 's routeTracker" where
  "stopRoutePollLocked s =
     (case stopPoll s of
        None \<Rightarrow> s
      | Some c \<Rightarrow> s\<lparr>livePolls := removeAll c (livePolls s), stopPoll := None\<rparr>)"

text \<open>The second critical section of \<open>handleWatchRoute\<close>.\<close>

definition watchRouteLocked :: "bool \<Rightarrow> u64 \<Rightarrow> 's routeTracker \<Rightarrow> 's routeTracker" where
  "watchRouteLocked watch seq s =
     (if seq < watchSeq s then s
      else
        (let s = s\<lparr>watchSeq := seq, watched := watch\<rparr>;
             s = (if watch \<and> stopPoll s = None
                  then s\<lparr>stopPoll := Some (nextPoll s), livePolls := nextPoll s # livePolls s,
                         nextPoll := Suc (nextPoll s)\<rparr>
                  else s)
         in if watch then s else stopRoutePollLocked s))"

definition handleWatchRoute ::
  "'s tunnelView \<Rightarrow> bool \<Rightarrow> u64 \<Rightarrow> 's routeTracker \<Rightarrow>
     's routeTracker \<times> RouteState option \<times> RouteState" where
  "handleWatchRoute tv watch seq s =
     (let (s, published) = refreshRoute tv s;
          s = watchRouteLocked watch seq s
      in (s, published, routeState s))"

text \<open>\<open>methodCallSeq.Add(1)\<close> is passed in as the counter and out as the counter incremented.\<close>

definition stopRouteWatch :: "u64 \<Rightarrow> 's routeTracker \<Rightarrow> 's routeTracker \<times> u64" where
  "stopRouteWatch callSeq s =
     (let callSeq = callSeq + 1;
          s = s\<lparr>watchSeq := max (watchSeq s) callSeq, watched := False\<rparr>
      in (stopRoutePollLocked s, callSeq))"

text \<open>One tick of \<open>pollRoute\<close>; a cancelled poll has returned.\<close>

definition pollTick ::
  "nat \<Rightarrow> bool \<Rightarrow> 's tunnelView \<Rightarrow> 's routeTracker \<Rightarrow> 's routeTracker \<times> RouteState option" where
  "pollTick poll running tv s =
     (if poll \<in> set (livePolls s) \<and> running then refreshRoute tv s else (s, None))"

lemmas route_op_defs = refreshRouteLocked_def changeRoute_def refreshRoute_def bumpRouteEpoch_def

subsection \<open>Checking the routes of earlier answers\<close>

record RouteHit =
  hitHost :: string
  hitProxy :: string
  hitExit :: string

record RouteCheck =
  rc_epoch :: u64
  rc_version :: u64
  rc_held :: "bool list"

type_synonym exitMemo = "(string \<times> string, string) gomap"

text \<open>The inner loop over one route; \<open>None\<close> where resolving an exit does not return.\<close>

fun checkHits ::
  "'m proxyEnv \<Rightarrow> exitMemo \<Rightarrow> RouteHit list \<Rightarrow> (bool \<times> exitMemo) option" where
  "checkHits env exits [] = Some (True, exits)"
| "checkHits env exits (hit # hits) =
     (let key = (hitHost hit, hitProxy hit) in
      case (case map_of exits key of
              Some exit \<Rightarrow> Some (exit, exits)
            | None \<Rightarrow> map_option (\<lambda>exit. (exit, AList.update key exit exits))
                        (resolveExit env (hitHost hit) (hitProxy hit))) of
        None \<Rightarrow> None
      | Some (exit, exits) \<Rightarrow>
          if exit \<noteq> hitExit hit then Some (False, exits) else checkHits env exits hits)"

fun checkAll ::
  "'m proxyEnv \<Rightarrow> exitMemo \<Rightarrow> RouteHit list list \<Rightarrow> bool list option" where
  "checkAll env exits [] = Some []"
| "checkAll env exits (route # routes) =
     (case checkHits env exits route of
        None \<Rightarrow> None
      | Some (held, exits) \<Rightarrow>
          map_option ((#) (route \<noteq> [] \<and> held)) (checkAll env exits routes))"

definition handleCheckRoutes ::
  "'m proxyEnv \<Rightarrow> 's routeTracker \<Rightarrow> RouteHit list list \<Rightarrow> RouteCheck option" where
  "handleCheckRoutes env s routes =
     (let (e, v) = routeStamp s in
      map_option (\<lambda>held. \<lparr>rc_epoch = e, rc_version = v, rc_held = held\<rparr>)
        (checkAll env [] routes))"

text \<open>What the memo and the early exit compute: each route is held on its own.\<close>

definition routeHeld :: "'m proxyEnv \<Rightarrow> RouteHit list \<Rightarrow> bool" where
  "routeHeld env route \<longleftrightarrow>
     route \<noteq> [] \<and>
     list_all (\<lambda>hit. resolveExit env (hitHost hit) (hitProxy hit) = Some (hitExit hit)) route"

definition memo_ok :: "'m proxyEnv \<Rightarrow> exitMemo \<Rightarrow> bool" where
  "memo_ok env exits \<longleftrightarrow>
     (\<forall>host name exit. map_of exits (host, name) = Some exit \<longrightarrow>
        resolveExit env host name = Some exit)"

lemma checkHits_correct:
  assumes "\<And>host name. resolveExit env host name \<noteq> None" and "memo_ok env exits"
  shows "\<exists>exits'. checkHits env exits route =
           Some (list_all (\<lambda>hit. resolveExit env (hitHost hit) (hitProxy hit) = Some (hitExit hit))
                   route, exits') \<and> memo_ok env exits'"
  using assms(2)
proof (induction route arbitrary: exits)
  case Nil
  then show ?case by simp
next
  case (Cons hit hits)
  obtain exit where exit: "resolveExit env (hitHost hit) (hitProxy hit) = Some exit"
    using assms(1) by blast
  let ?key = "(hitHost hit, hitProxy hit)"
  show ?case
  proof (cases "map_of exits ?key")
    case None
    from Cons.prems exit have "memo_ok env (AList.update ?key exit exits)"
      by (simp add: memo_ok_def update_conv')
    with Cons.IH exit None show ?thesis by (auto simp: Let_def)
  next
    case (Some e)
    with Cons.prems exit have "e = exit"
      unfolding memo_ok_def by fastforce
    with Cons exit Some show ?thesis by (auto simp: Let_def)
  qed
qed

lemma checkAll_correct:
  assumes "\<And>host name. resolveExit env host name \<noteq> None" and "memo_ok env exits"
  shows "checkAll env exits routes = Some (map (routeHeld env) routes)"
  using assms(2)
proof (induction routes arbitrary: exits)
  case Nil
  then show ?case by simp
next
  case (Cons route routes)
  from checkHits_correct [OF assms(1) Cons.prems, of route] Cons.IH show ?case
    by (auto simp: routeHeld_def)
qed

subsection \<open>What one critical section does\<close>

lemma refresh_frame [simp]:
  "watched (fst (refreshRouteLocked tv c s)) = watched s"
  "watchSeq (fst (refreshRouteLocked tv c s)) = watchSeq s"
  "stopPoll (fst (refreshRouteLocked tv c s)) = stopPoll s"
  "livePolls (fst (refreshRouteLocked tv c s)) = livePolls s"
  "nextPoll (fst (refreshRouteLocked tv c s)) = nextPoll s"
  by (simp_all add: refreshRouteLocked_def Let_def split: prod.split)

definition effectiveChange :: "'s tunnelView \<Rightarrow> routeChange \<Rightarrow> 's routeTracker \<Rightarrow> routeChange" where
  "effectiveChange tv c s = (if tunnelMoved tv s then max c RouteMoved else c)"

lemma refresh_stamp:
  "version (fst (refreshRouteLocked tv c s)) =
     version s + (if effectiveChange tv c s = RouteUnchanged then 0 else 1)"
  "epoch (fst (refreshRouteLocked tv c s)) =
     epoch s + (if effectiveChange tv c s = RouteReset then 1 else 0)"
  by (simp_all add: refreshRouteLocked_def effectiveChange_def Let_def split: prod.split)

lemma refresh_published:
  "snd (refreshRouteLocked tv c s) =
     (if effectiveChange tv c s \<noteq> RouteUnchanged \<and> watched s
      then Some (routeState (fst (refreshRouteLocked tv c s))) else None)"
  by (simp add: refreshRouteLocked_def effectiveChange_def Let_def split: prod.split)

lemma refresh_snapshot:
  "picks (fst (refreshRouteLocked tv c s)) = fst (readPicks tv)"
  "providerVersions (fst (refreshRouteLocked tv c s)) = Some (snd (readPicks tv))"
  "ruleSets (fst (refreshRouteLocked tv c s)) = Some (readRuleSets tv)"
  by (simp_all add: refreshRouteLocked_def Let_def split: prod.split)

lemma effectiveChange_reset: "effectiveChange tv c s = RouteReset \<longleftrightarrow> c = RouteReset"
  by (simp add: effectiveChange_def max_routeMoved)

text \<open>The tunnel's maps have distinct keys, and so have the maps read from them.\<close>

definition tv_wf :: "'s tunnelView \<Rightarrow> bool" where
  "tv_wf tv \<longleftrightarrow> gm_wf (tv_proxies tv) \<and> gm_wf (tv_providers tv) \<and> gm_wf (tv_ruleProviders tv)"

lemma map_filter_keys:
  "set (map fst (List.map_filter (\<lambda>(k, v). map_option (Pair k) (f v)) m)) \<subseteq> set (map fst m)"
  by (induction m) (auto simp: map_filter_simps split: option.splits)

lemma gm_wf_map_filter:
  "gm_wf m \<Longrightarrow> gm_wf (List.map_filter (\<lambda>(k, v). map_option (Pair k) (f v)) m)"
  unfolding gm_wf_def
proof (induction m)
  case Nil
  then show ?case by (simp add: map_filter_simps)
next
  case (Cons kv m)
  obtain k v where kv: "kv = (k, v)" by (cases kv)
  with Cons.prems map_filter_keys [of f m]
  have "k \<notin> set (map fst (List.map_filter (\<lambda>(k, v). map_option (Pair k) (f v)) m))"
    by auto
  with Cons kv show ?case
    by (cases "f v") (auto simp: map_filter_simps)
qed

lemma tv_wf_read:
  assumes "tv_wf tv"
  shows "gm_wf (fst (readPicks tv))" "gm_wf (snd (readPicks tv))" "gm_wf (readRuleSets tv)"
  using assms by (simp_all add: tv_wf_def readPicks_def readRuleSets_def gm_wf_map_filter)

lemma tunnelMoved_after_refresh:
  assumes "tv_wf tv"
  shows "\<not> tunnelMoved tv (fst (refreshRouteLocked tv c s))"
proof -
  obtain ps vs where read: "readPicks tv = (ps, vs)" by (cases "readPicks tv")
  with tv_wf_read [OF assms] have "gm_wf ps" "gm_wf vs" "gm_wf (readRuleSets tv)" by simp_all
  with read show ?thesis
    using refresh_snapshot [of tv c s] by (simp add: tunnelMoved_def)
qed

subsection \<open>The order of watch calls\<close>

lemma stopRoutePoll_simps [simp]:
  "watched (stopRoutePollLocked s) = watched s"
  "watchSeq (stopRoutePollLocked s) = watchSeq s"
  "version (stopRoutePollLocked s) = version s"
  "epoch (stopRoutePollLocked s) = epoch s"
  "stopPoll (stopRoutePollLocked s) = None"
  "nextPoll (stopRoutePollLocked s) = nextPoll s"
  by (simp_all add: stopRoutePollLocked_def split: option.split)

lemma watchRouteLocked_simps [simp]:
  "watched (watchRouteLocked b q s) = (if q < watchSeq s then watched s else b)"
  "watchSeq (watchRouteLocked b q s) = max (watchSeq s) q"
  "version (watchRouteLocked b q s) = version s"
  "epoch (watchRouteLocked b q s) = epoch s"
  by (auto simp: watchRouteLocked_def Let_def max_def)

text \<open>
  The poll invariant: the tracker keeps exactly the one live poll, and only while watched.
\<close>

definition poll_inv :: "'s routeTracker \<Rightarrow> bool" where
  "poll_inv s \<longleftrightarrow>
     livePolls s = (case stopPoll s of None \<Rightarrow> [] | Some c \<Rightarrow> [c]) \<and>
     (watched s \<longleftrightarrow> stopPoll s \<noteq> None) \<and>
     (\<forall>c \<in> set (livePolls s). c < nextPoll s)"

lemma poll_inv_init [inv_intros]: "poll_inv initTracker"
  by (simp add: poll_inv_def initTracker_def)

lemma poll_inv_refresh [inv_intros]:
  "poll_inv s \<Longrightarrow> poll_inv (fst (refreshRouteLocked tv c s))"
  by (simp add: poll_inv_def)

lemma livePolls_stop:
  "livePolls (stopRoutePollLocked s) =
     (case stopPoll s of None \<Rightarrow> livePolls s | Some c \<Rightarrow> removeAll c (livePolls s))"
  by (simp add: stopRoutePollLocked_def split: option.split)

lemma poll_inv_watch [inv_intros]: "poll_inv s \<Longrightarrow> poll_inv (watchRouteLocked b q s)"
  by (auto simp: poll_inv_def watchRouteLocked_def Let_def stopRoutePollLocked_def
      split: option.split option.splits)

lemma poll_inv_stop [inv_intros]: "poll_inv s \<Longrightarrow> poll_inv (fst (stopRouteWatch n s))"
  by (auto simp: poll_inv_def stopRouteWatch_def Let_def stopRoutePollLocked_def
      split: option.splits)

subsection \<open>The interleaving of the critical sections\<close>

text \<open>
  Calls are stamped in arrival order by \<open>dispatchMethodCall\<close> and run on goroutines of their own,
  so their critical sections interleave freely. \<open>pending\<close> holds the watch calls stamped and not
  yet run; \<open>newest\<close> and \<open>intent\<close> are ghosts: the stamp and the wish of the newest watch or stop.
  A stamp is only taken while the 64-bit counter has not wrapped.
\<close>

record 's routeWorld =
  tracker :: "'s routeTracker"
  callSeq :: u64
  pending :: "(bool \<times> u64) list"
  published :: "RouteState list"
  newest :: u64
  intent :: bool

definition initWorld :: "'s routeWorld" where
  "initWorld = \<lparr>tracker = initTracker, callSeq = 0, pending = [], published = [],
     newest = 0, intent = False\<rparr>"

definition publish :: "RouteState option \<Rightarrow> RouteState list \<Rightarrow> RouteState list" where
  "publish r sent = (case r of None \<Rightarrow> sent | Some st \<Rightarrow> sent @ [st])"

inductive route_step :: "'s routeWorld \<Rightarrow> 's routeWorld \<Rightarrow> bool" where
  dispatch_other: "callSeq w \<noteq> - 1 \<Longrightarrow> route_step w (w\<lparr>callSeq := callSeq w + 1\<rparr>)"
| dispatch_watch: "callSeq w \<noteq> - 1 \<Longrightarrow> route_step w (w\<lparr>callSeq := callSeq w + 1,
     pending := (b, callSeq w + 1) # pending w, newest := callSeq w + 1, intent := b\<rparr>)"
| run_change: "changeRoute tv c (tracker w) = (t, r) \<Longrightarrow>
     route_step w (w\<lparr>tracker := t, published := publish r (published w)\<rparr>)"
| run_watch: "(b, q) \<in> set (pending w) \<Longrightarrow>
     route_step w (w\<lparr>tracker := watchRouteLocked b q (tracker w),
       pending := removeAll (b, q) (pending w)\<rparr>)"
| run_stop: "callSeq w \<noteq> - 1 \<Longrightarrow> stopRouteWatch (callSeq w) (tracker w) = (t, n) \<Longrightarrow>
     route_step w (w\<lparr>tracker := t, callSeq := n, newest := n, intent := False\<rparr>)"
| run_tick: "pollTick c running tv (tracker w) = (t, r) \<Longrightarrow>
     route_step w (w\<lparr>tracker := t, published := publish r (published w)\<rparr>)"

inductive route_reachable :: "'s routeWorld \<Rightarrow> bool" where
  start: "route_reachable initWorld"
| step: "route_reachable w \<Longrightarrow> route_step w w' \<Longrightarrow> route_reachable w'"

definition watch_inv :: "'s routeWorld \<Rightarrow> bool" where
  "watch_inv w \<longleftrightarrow>
     newest w \<le> callSeq w \<and>
     poll_inv (tracker w) \<and>
     (\<forall>(b, q) \<in> set (pending w). q \<le> newest w \<and> (q = newest w \<longrightarrow> b = intent w)) \<and>
     (watchSeq (tracker w) = newest w \<and> watched (tracker w) = intent w \<or>
      watchSeq (tracker w) < newest w \<and> (intent w, newest w) \<in> set (pending w))"

lemma word_Suc_greater: "(n :: u64) \<noteq> - 1 \<Longrightarrow> n < n + 1"
  by (metis add.commute add_eq_0_iff2 lessI unatSuc word_less_nat_alt)

lemma watch_inv_cases:
  assumes "watch_inv w"
  obtains (settled) "watchSeq (tracker w) = newest w" "watched (tracker w) = intent w"
  | (waiting) "watchSeq (tracker w) < newest w" "(intent w, newest w) \<in> set (pending w)"
  using assms unfolding watch_inv_def by blast

lemma stopRouteWatch_frame:
  assumes "stopRouteWatch n s = (t, m)"
  shows "m = n + 1" "watchSeq t = max (watchSeq s) m" "watched t = False"
    "poll_inv s \<Longrightarrow> poll_inv t"
  using assms poll_inv_stop [of s n] by (auto simp: stopRouteWatch_def Let_def)

lemma pollTick_frame:
  "pollTick c running tv s = (t, r) \<Longrightarrow>
     watchSeq t = watchSeq s \<and> watched t = watched s \<and> (poll_inv s \<longrightarrow> poll_inv t)"
  by (auto simp: pollTick_def refreshRoute_def changeRoute_def poll_inv_refresh
      split: if_splits dest!: arg_cong [where f = fst] )

lemma changeRoute_frame:
  "changeRoute tv c s = (t, r) \<Longrightarrow>
     watchSeq t = watchSeq s \<and> watched t = watched s \<and> (poll_inv s \<longrightarrow> poll_inv t)"
  using poll_inv_refresh [of s tv c] refresh_frame [of tv c s]
  by (simp add: changeRoute_def)

lemma watch_inv_step:
  assumes "route_step w w'" and inv: "watch_inv w"
  shows "watch_inv w'"
  using assms(1)
proof cases
  case dispatch_other
  then have "newest w \<le> callSeq w + 1"
    using inv word_Suc_greater [of "callSeq w"] by (auto simp: watch_inv_def)
  with inv dispatch_other show ?thesis
    by (simp add: watch_inv_def)
next
  case (dispatch_watch b)
  then have "newest w < callSeq w + 1"
    using inv word_Suc_greater [of "callSeq w"] by (auto simp: watch_inv_def)
  moreover have "watchSeq (tracker w) \<le> newest w"
    using inv by (auto simp: watch_inv_def)
  ultimately have "watchSeq (tracker w) < callSeq w + 1"
    and "\<forall>(b, q) \<in> set (pending w). q < callSeq w + 1"
    using inv by (auto simp: watch_inv_def)
  then show ?thesis
    using inv dispatch_watch(1) by (auto simp: watch_inv_def)
next
  case (run_change tv c t r)
  with inv changeRoute_frame [OF run_change(2)] show ?thesis
    by (simp add: watch_inv_def)
next
  case (run_watch b q)
  with inv have q: "q \<le> newest w" "q = newest w \<longrightarrow> b = intent w"
    by (auto simp: watch_inv_def)
  have rest: "\<forall>(b, q) \<in> set (pending w'). q \<le> newest w \<and> (q = newest w \<longrightarrow> b = intent w)"
    using inv run_watch(1) by (simp add: watch_inv_def)
  have keep: "(intent w, newest w) \<in> set (pending w')"
    if "q \<noteq> newest w" "(intent w, newest w) \<in> set (pending w)"
    using that run_watch(1) by simp
  have "watchSeq (tracker w') = newest w \<and> watched (tracker w') = intent w \<or>
      watchSeq (tracker w') < newest w \<and> (intent w, newest w) \<in> set (pending w')"
    using inv
  proof (cases rule: watch_inv_cases)
    case settled
    with q run_watch(1) show ?thesis
      by (cases "q = newest w") simp_all
  next
    case waiting
    with q keep run_watch(1) show ?thesis
      by (cases "q = newest w") auto
  qed
  with inv rest run_watch(1) show ?thesis
    by (simp add: watch_inv_def poll_inv_watch)
next
  case (run_stop t n)
  note t = stopRouteWatch_frame [OF run_stop(3)]
  have less: "newest w < n"
    using inv run_stop(2) t(1) word_Suc_greater [of "callSeq w"] by (auto simp: watch_inv_def)
  moreover have "watchSeq (tracker w) \<le> newest w"
    using inv by (auto simp: watch_inv_def)
  ultimately have "watchSeq (tracker w) \<le> n"
    by (meson le_less_trans less_imp_le)
  then have "watchSeq t = n"
    using t(2) by (simp add: max_absorb2)
  with inv run_stop(1) t less show ?thesis
    by (auto simp: watch_inv_def)
next
  case (run_tick c running tv t r)
  with inv pollTick_frame [OF run_tick(2)] show ?thesis
    by (simp add: watch_inv_def)
qed

lemma reachable_watch_inv: "route_reachable w \<Longrightarrow> watch_inv w"
proof (induction rule: route_reachable.induct)
  case start
  show ?case by (simp add: watch_inv_def initWorld_def poll_inv_init) (simp add: initTracker_def)
next
  case (step w w')
  then show ?case by (blast intro: watch_inv_step)
qed

subsection \<open>What the tracker promises\<close>

text \<open>
  \<^bold>\<open>C1.\<close> Watch and unwatch calls are stamped as they arrive and run in any order between route
  changes, poll ticks and stops. Once none is pending the tracker obeys the newest of them, whatever
  the order they ran in, and exactly one poll is alive if it watches and none otherwise.
\<close>

theorem watch_latest_wins:
  assumes "route_reachable w" and "pending w = []"
  shows "watched (tracker w) = intent w \<and> watchSeq (tracker w) = newest w \<and>
    length (livePolls (tracker w)) = (if intent w then 1 else 0)"
proof -
  have inv: "watch_inv w"
    using assms(1) by (rule reachable_watch_inv)
  with assms(2) have "watched (tracker w) = intent w" "watchSeq (tracker w) = newest w"
    by (auto simp: watch_inv_def)
  moreover have "poll_inv (tracker w)"
    using inv by (simp add: watch_inv_def)
  ultimately show ?thesis
    by (auto simp: poll_inv_def split: option.splits)
qed

text \<open>A watch stamped 1 runs after the unwatch stamped 2, and is ignored.\<close>

definition crossedCalls :: "nat \<Rightarrow> unit routeWorld" where
  "crossedCalls n =
     (let w1 = initWorld\<lparr>callSeq := 1, pending := [(True, 1)], newest := 1, intent := True\<rparr>;
          w2 = w1\<lparr>callSeq := 2, pending := [(False, 2), (True, 1)], newest := 2, intent := False\<rparr>;
          w3 = w2\<lparr>tracker := watchRouteLocked False 2 (tracker w2), pending := [(True, 1)]\<rparr>;
          w4 = w3\<lparr>tracker := watchRouteLocked True 1 (tracker w3), pending := []\<rparr>
      in [initWorld, w1, w2, w3, w4] ! n)"

lemma crossedCalls_step: "n < 4 \<Longrightarrow> route_step (crossedCalls n) (crossedCalls (Suc n))"
  using dispatch_watch [of "crossedCalls 0" True] dispatch_watch [of "crossedCalls 1" False]
    run_watch [of False 2 "crossedCalls 2"] run_watch [of True 1 "crossedCalls 3"]
  by (auto simp: crossedCalls_def initWorld_def Let_def numeral_eq_Suc less_Suc_eq)

lemma crossedCalls_reachable: "n \<le> 4 \<Longrightarrow> route_reachable (crossedCalls n)"
proof (induction n)
  case 0
  then show ?case using route_reachable.start by (simp add: crossedCalls_def Let_def)
next
  case (Suc n)
  then show ?case using crossedCalls_step [of n] route_reachable.step by simp
qed

lemma watch_latest_wins_witness:
  "\<not> watched (tracker (crossedCalls 4)) \<and> livePolls (tracker (crossedCalls 4)) = []"
proof -
  have "pending (crossedCalls 4) = []" "intent (crossedCalls 4) = False"
    by (simp_all add: crossedCalls_def Let_def)
  with watch_latest_wins [OF crossedCalls_reachable [of 4]] show ?thesis by simp
qed

text \<open>
  Every change of the route moves the version by one, a reset moves the epoch as well, a
  refresh that finds nothing moved moves neither; and the host is sent the new stamp exactly when
  something moved and it watches.
\<close>

lemma changeRoute_stamps:
  "version (fst (changeRoute tv c s)) =
     version s + (if c = RouteUnchanged \<and> \<not> tunnelMoved tv s then 0 else 1) \<and>
   epoch (fst (changeRoute tv c s)) = epoch s + (if c = RouteReset then 1 else 0) \<and>
   snd (changeRoute tv c s) =
     (if c = RouteUnchanged \<and> \<not> tunnelMoved tv s then None
      else if watched s then Some (routeState (fst (changeRoute tv c s))) else None)"
proof -
  have "effectiveChange tv c s = RouteUnchanged \<longleftrightarrow> c = RouteUnchanged \<and> \<not> tunnelMoved tv s"
    by (auto simp: effectiveChange_def max_routeMoved)
  then show ?thesis
    unfolding changeRoute_def refresh_stamp refresh_published effectiveChange_reset by auto
qed

text \<open>
  \<^bold>\<open>C13.\<close> After any change a refresh moves the version exactly when the picks of the groups, the
  versions of the proxy providers or the strategies of the rule providers differ as maps from those
  of the last refresh: nothing is missed, and no order of a Go map raises a false alarm.
\<close>

theorem refresh_notices_moves:
  assumes "tv_wf tv" and "tv_wf tv'"
  shows "version (fst (refreshRoute tv' (fst (changeRoute tv c s)))) =
    version (fst (changeRoute tv c s)) +
      (if map_of (fst (readPicks tv)) = map_of (fst (readPicks tv')) \<and>
          map_of (tv_providers tv) = map_of (tv_providers tv') \<and>
          map_of (tv_ruleProviders tv) = map_of (tv_ruleProviders tv') then 0 else 1)"
proof -
  let ?s = "fst (refreshRouteLocked tv c s)"
  note wf = tv_wf_read [OF assms(1)] tv_wf_read [OF assms(2)]
  have read: "snd (readPicks t) = tv_providers t" "readRuleSets t = tv_ruleProviders t" for t
    by (simp_all add: readPicks_def readRuleSets_def)
  have "tunnelMoved tv' ?s \<longleftrightarrow>
      \<not> (maps_equal (fst (readPicks tv')) (fst (readPicks tv)) \<and>
         maps_equal (snd (readPicks tv')) (snd (readPicks tv)) \<and>
         maps_equal (readRuleSets tv') (readRuleSets tv))"
    using refresh_snapshot [of tv c s] by (auto simp: tunnelMoved_def split: prod.split)
  then have "tunnelMoved tv' ?s \<longleftrightarrow>
      \<not> (map_of (fst (readPicks tv)) = map_of (fst (readPicks tv')) \<and>
         map_of (tv_providers tv) = map_of (tv_providers tv') \<and>
         map_of (tv_ruleProviders tv) = map_of (tv_ruleProviders tv'))"
    using wf by (auto simp: maps_equal_iff read)
  then show ?thesis
    unfolding refreshRoute_def changeRoute_def
    using refresh_stamp(1) [of tv' RouteUnchanged ?s]
    by (simp add: effectiveChange_def max_routeMoved)
qed

definition sampleView :: "string \<Rightarrow> string \<Rightarrow> unit tunnelView" where
  "sampleView first now =
     \<lparr>tv_proxies = (if first = ''a'' then rev else id)
        [(''a'', \<lparr>px_name = ''a'', px_type = Selector, px_type_name = ''Selector'', px_addr = [],
           px_now = Some now, px_provider = []\<rparr>),
         (''b'', \<lparr>px_name = ''b'', px_type = Selector, px_type_name = ''Selector'', px_addr = [],
           px_now = Some ''x'', px_provider = []\<rparr>)],
      tv_providers = [(''p'', 1)], tv_ruleProviders = []\<rparr>"

lemma refresh_notices_moves_witness:
  "version (fst (refreshRoute (sampleView ''b'' ''x'')
      (fst (changeRoute (sampleView ''a'' ''x'') RouteReset initTracker)))) = 1 \<and>
   version (fst (refreshRoute (sampleView ''a'' ''y'')
      (fst (changeRoute (sampleView ''a'' ''x'') RouteReset initTracker)))) = 2"
proof -
  have wf: "tv_wf (sampleView f n)" for f n
    by (simp add: tv_wf_def sampleView_def gm_wf_def)
  have one: "version (fst (changeRoute (sampleView ''a'' ''x'') RouteReset initTracker)) = 1"
    by (simp add: changeRoute_def refresh_stamp effectiveChange_def max_routeMoved initTracker_def)
  have same: "map_of (fst (readPicks (sampleView ''a'' ''x''))) =
      map_of (fst (readPicks (sampleView ''b'' ''x'')))"
    by (auto simp: readPicks_def sampleView_def map_filter_simps fun_eq_iff)
  have other: "map_of (fst (readPicks (sampleView ''a'' ''x''))) ''a'' \<noteq>
      map_of (fst (readPicks (sampleView ''a'' ''y''))) ''a''"
    by (simp add: readPicks_def sampleView_def map_filter_simps)
  have rest: "tv_providers (sampleView f n) = [(''p'', 1)]" "tv_ruleProviders (sampleView f n) = []" for f n
    by (simp_all add: sampleView_def)
  from refresh_notices_moves [OF wf wf, of "''b''" "''x''" "''a''" "''x''" RouteReset initTracker]
    refresh_notices_moves [OF wf wf, of "''a''" "''y''" "''a''" "''x''" RouteReset initTracker]
  show ?thesis
    unfolding one using same other by (auto simp: rest)
qed

text \<open>
  \<^bold>\<open>C14.\<close> Where following a proxy to its exit ends, a check of routes ends too, is stamped with the
  epoch and version of its start, and answers for every route, in order, whether it is not empty and
  each of its hits still leaves by the exit given: the memo of exits and the early end of a route
  change nothing.
\<close>

theorem checkRoutes_correct:
  fixes rank :: "proxy \<Rightarrow> nat"
  assumes "\<And>m p q. unwrap env p m = Some q \<Longrightarrow> rank q < rank p"
  shows "handleCheckRoutes env s routes =
    Some \<lparr>rc_epoch = epoch s, rc_version = version s, rc_held = map (routeHeld env) routes\<rparr>"
proof -
  have "resolveExit env host name \<noteq> None" for host name
    using resolveExit_returns [of env rank host name] assms by auto
  then have "checkAll env [] routes = Some (map (routeHeld env) routes)"
    by (rule checkAll_correct) (simp add: memo_ok_def)
  then show ?thesis
    by (simp add: handleCheckRoutes_def routeStamp_def)
qed

definition node :: "string \<Rightarrow> adapterType \<Rightarrow> proxy" where
  "node n t = \<lparr>px_name = n, px_type = t, px_type_name = ''T'', px_addr = ''h:1'', px_now = None,
     px_provider = []\<rparr>"

definition twoHopEnv :: "unit proxyEnv" where
  "twoHopEnv = \<lparr>allProxies = [(''g'', node ''g'' Selector), (''lb'', node ''lb'' LoadBalance),
       (''n'', node ''n'' (OtherAdapter ''Vmess''))],
     probeMetadata = (\<lambda>_. Some ()), resolveRoute = (\<lambda>_. None),
     unwrap = (\<lambda>p _. if px_name p = ''g'' then Some (node ''lb'' LoadBalance)
       else if px_name p = ''lb'' then Some (node ''n'' (OtherAdapter ''Vmess'')) else None)\<rparr>"

lemma twoHop_unwrap:
  "unwrap twoHopEnv (node ''g'' Selector) m = Some (node ''lb'' LoadBalance)"
  "unwrap twoHopEnv (node ''lb'' LoadBalance) m = Some (node ''n'' (OtherAdapter ''Vmess''))"
  "unwrap twoHopEnv (node ''n'' t) m = None"
  by (simp_all add: twoHopEnv_def) (simp_all add: node_def)

lemma twoHop_exit: "resolveExit twoHopEnv ''x'' ''g'' = Some (exitName (node ''lb'' LoadBalance))"
  by (simp add: resolveExit_def twoHopEnv_def lookupProxy_def exitThrough_simps node_def)

lemma checkRoutes_correct_witness:
  "handleCheckRoutes twoHopEnv (initTracker :: unit routeTracker)
     [[], [\<lparr>hitHost = ''x'', hitProxy = ''g'', hitExit = exitName (node ''lb'' LoadBalance)\<rparr>],
      [\<lparr>hitHost = ''x'', hitProxy = ''g'', hitExit = ''gone''\<rparr>]] =
   Some \<lparr>rc_epoch = 0, rc_version = 0, rc_held = [False, True, False]\<rparr>"
proof -
  let ?rank = "\<lambda>p. if px_name p = ''g'' then 2 else if px_name p = ''lb'' then 1 else (0::nat)"
  have "unwrap twoHopEnv p m = Some q \<Longrightarrow> ?rank q < ?rank p" for m p q
    by (auto simp: twoHopEnv_def node_def split: if_splits)
  moreover have "exitName (node ''lb'' LoadBalance) \<noteq> ''gone''"
    by (simp add: exitName_def node_def go_quote_def)
  ultimately show ?thesis
    by (subst checkRoutes_correct [of _ ?rank])
      (simp_all add: initTracker_def routeHeld_def twoHop_exit)
qed

text \<open>
  The exit of a connection read from its chains is the one that following its outermost
  proxy finds: where every hop is listed under its name, both name the outermost load balancer, or
  the hop that dials when there is none. So a route the core resolved matches the connections it
  carries.
\<close>

lemma exit_of_chains_agrees:
  assumes "walks env metadata p ps"
    and "\<And>q. q \<in> set ps \<Longrightarrow> lookupProxy (allProxies env) (px_name q) = Some q"
  shows "exitThrough env (Some p) metadata =
    Some (exitOfChains (allProxies env) (map px_name (rev ps)))"
  using assms by (rule walk_exit)

end
