(* ===== verification/Channel.thy ===== *)
theory Channel
  imports Prelude
begin

section \<open>Buffered Go channels and the interface their users rely on\<close>

text \<open>
  A buffered channel is its buffer, oldest element first, and its capacity. \<open>chan_try_send\<close> and
  \<open>chan_try_recv\<close> are a \<open>select\<close> with a \<open>default\<close>: \<open>None\<close> where the operation would block.
  The locale \<open>bounded_fifo\<close> states what a user of such a queue may rely on; the message queues
  (a queue of events) and the slots (a counting semaphore) prove their facts inside it.
\<close>

record 'a chan =
  cbuf :: "'a list"
  ccap :: nat

definition make_chan :: "nat \<Rightarrow> 'a chan" where
  "make_chan n = \<lparr>cbuf = [], ccap = n\<rparr>"

definition chan_try_send :: "'a chan \<Rightarrow> 'a \<Rightarrow> 'a chan option" where
  "chan_try_send c x =
     (if length (cbuf c) < ccap c then Some (c\<lparr>cbuf := cbuf c @ [x]\<rparr>) else None)"

definition chan_try_recv :: "'a chan \<Rightarrow> ('a \<times> 'a chan) option" where
  "chan_try_recv c = (case cbuf c of [] \<Rightarrow> None | x # xs \<Rightarrow> Some (x, c\<lparr>cbuf := xs\<rparr>))"

definition chan_ok :: "'a chan \<Rightarrow> bool" where
  "chan_ok c \<longleftrightarrow> length (cbuf c) \<le> ccap c"

locale bounded_fifo =
  fixes contents :: "'q \<Rightarrow> 'a list"
    and capacity :: "'q \<Rightarrow> nat"
    and try_send :: "'q \<Rightarrow> 'a \<Rightarrow> 'q option"
    and try_recv :: "'q \<Rightarrow> ('a \<times> 'q) option"
    and ok :: "'q \<Rightarrow> bool"
  assumes ok_bound: "ok q \<Longrightarrow> length (contents q) \<le> capacity q"
    and send_full: "try_send q x = None \<longleftrightarrow> capacity q \<le> length (contents q)"
    and send_contents: "try_send q x = Some q' \<Longrightarrow> contents q' = contents q @ [x]"
    and send_keeps: "try_send q x = Some q' \<Longrightarrow> ok q \<Longrightarrow> capacity q' = capacity q \<and> ok q'"
    and recv_empty: "try_recv q = None \<longleftrightarrow> contents q = []"
    and recv_contents: "try_recv q = Some (y, q') \<Longrightarrow> contents q = y # contents q'"
    and recv_keeps: "try_recv q = Some (y, q') \<Longrightarrow> ok q \<Longrightarrow> capacity q' = capacity q \<and> ok q'"
begin

lemma send_after_recv:
  assumes "ok q" and "try_recv q = Some (y, q')"
  shows "\<exists>q''. try_send q' x = Some q'' \<and> contents q'' = tl (contents q) @ [x] \<and> ok q''
    \<and> capacity q'' = capacity q"
proof -
  have q': "contents q = y # contents q'" "capacity q' = capacity q" "ok q'"
    using assms recv_contents recv_keeps by blast+
  then have "length (contents q') < capacity q'"
    using ok_bound [OF assms(1)] by simp
  then obtain q'' where "try_send q' x = Some q''"
    using send_full [of q' x] by (cases "try_send q' x") auto
  with q' send_contents send_keeps show ?thesis by fastforce
qed

lemma recv_full:
  assumes "try_send q x = None" and "0 < capacity q"
  obtains y q' where "try_recv q = Some (y, q')"
  using assms send_full [of q x] recv_empty [of q] by fastforce

lemma sent_one_more:
  "try_send q x = Some q' \<Longrightarrow> length (contents q') = Suc (length (contents q))"
  by (simp add: send_contents)

lemma recv_one_less:
  "try_recv q = Some (y, q') \<Longrightarrow> length (contents q) = Suc (length (contents q'))"
  by (simp add: recv_contents)

end

interpretation ch: bounded_fifo cbuf ccap chan_try_send chan_try_recv chan_ok
  by unfold_locales
    (auto simp: chan_ok_def chan_try_send_def chan_try_recv_def split: if_splits list.splits)

end
