(* ===== verification/Slots.thy ===== *)
theory Slots
  imports Channel
begin

section \<open>Slots and timeouts (\<open>core/slots.go\<close>)\<close>

text \<open>
  A \<open>slots\<close> value is a \<open>chan struct\<close> used as a counting semaphore. A context is read through
  \<open>ctx.Err() != nil\<close> before the wait and \<open>ctx.Done()\<close> during it. The blocking \<open>select\<close> of
  \<open>acquire\<close> is resolved by what happens first: \<open>acquire\<close> takes the wait as the list of channel
  states it sees, ended by the context (\<open>AcquireCancelled\<close>).
\<close>

type_synonym slots = "unit chan"

datatype slotResult = Acquired slots | AcquireCancelled slots

text \<open>
  \<open>acquire err waits cancels s\<close>: \<open>err\<close> is \<open>ctx.Err() != nil\<close> on entry; \<open>waits\<close> are the slots
  as the other holders leave them while this one waits. With a free slot and a done context Go's
  \<open>select\<close> may take either case: \<open>takeSlot\<close> resolves the tie.
\<close>

fun acquireWait :: "(slots \<times> bool \<times> bool) list \<Rightarrow> slots \<Rightarrow> slotResult" where
  "acquireWait [] s = AcquireCancelled s"
| "acquireWait ((s, ctxDone, takeSlot) # rest) _ =
     (case chan_try_send s () of
        Some s' \<Rightarrow> if ctxDone \<and> \<not> takeSlot then AcquireCancelled s else Acquired s'
      | None \<Rightarrow> if ctxDone then AcquireCancelled s else acquireWait rest s)"

definition acquire :: "bool \<Rightarrow> (slots \<times> bool \<times> bool) list \<Rightarrow> slots \<Rightarrow> slotResult" where
  "acquire err waits s = (if err then AcquireCancelled s else acquireWait waits s)"

text \<open>
  \<open>acquireWithin\<close>: the context of the wait ends with the parent's or when the timeout has elapsed. Each wait comes
  with the time since the call and whether the parent's context is done by then.
\<close>

definition acquireWithin :: "bool \<Rightarrow> int \<Rightarrow> (int \<times> slots \<times> bool \<times> bool) list \<Rightarrow> slots \<Rightarrow> slotResult" where
  "acquireWithin parentErr timeout waits s =
     acquire (parentErr \<or> timeout \<le> 0)
       (map (\<lambda>(elapsed, w, parentDone, takeSlot). (w, parentDone \<or> timeout \<le> elapsed, takeSlot)) waits) s"

lemma acquireWait_ends: "done \<Longrightarrow> acquireWait (before @ (w, done, p) # after1) s = acquireWait (before @ (w, done, p) # after2) s"
  by (induction before s rule: acquireWait.induct) (auto split: option.split)

text \<open>What happens after the timeout does not matter: the wait is over.\<close>

lemma acquireWithin_ends:
  assumes "timeout \<le> elapsed"
  shows "acquireWithin parentErr timeout (before @ (elapsed, w, d, p) # later) s =
    acquireWithin parentErr timeout (before @ [(elapsed, w, d, p)]) s"
  using assms acquireWait_ends [of True] by (simp add: acquireWithin_def acquire_def)

text \<open>\<open>release\<close> receives one token; on an empty channel it would block for ever.\<close>

definition release :: "slots \<Rightarrow> slots option" where
  "release s = map_option snd (chan_try_recv s)"

definition held :: "slots \<Rightarrow> nat" where
  "held s = length (cbuf s)"

lemma acquireWait_bounded:
  assumes "acquireWait waits s = Acquired s'" and "\<forall>(w, _) \<in> set waits. chan_ok w"
  shows "chan_ok s' \<and> (\<exists>w d p. (w, d, p) \<in> set waits \<and> held s' = Suc (held w) \<and> ccap s' = ccap w)"
  using assms
proof (induction waits s rule: acquireWait.induct)
  case (1 s)
  then show ?case by simp
next
  case (2 w ctxDone takeSlot rest s)
  show ?case
  proof (cases "chan_try_send w ()")
    case None
    with 2 show ?thesis by (auto split: if_splits)
  next
    case (Some w')
    with 2(2,3) have "s' = w'" "chan_ok w" by (auto split: if_splits)
    with Some show ?thesis
      using ch.send_keeps [OF Some] ch.sent_one_more [OF Some] by (auto simp: held_def)
  qed
qed

lemma release_held:
  assumes "release s = Some s'"
  shows "held s = Suc (held s')" "ccap s' = ccap s"
  using assms ch.recv_one_less [of s] by (auto simp: release_def held_def chan_try_recv_def
      split: list.splits)

subsection \<open>Durations\<close>

text \<open>\<open>time.Duration\<close> is an \<open>int64\<close> of nanoseconds: the product wraps.\<close>

definition wrap64 :: "int \<Rightarrow> int" where
  "wrap64 i = (i + 2 ^ 63) mod 2 ^ 64 - 2 ^ 63"

definition millisecond :: int where "millisecond = 1000000"

definition timeoutFromMillis :: "int \<Rightarrow> int \<Rightarrow> int" where
  "timeoutFromMillis millis fallback =
     (if millis \<le> 0 then fallback else wrap64 (millis * millisecond))"

lemma wrap64_range: "- (2 ^ 63) \<le> wrap64 i" "wrap64 i < 2 ^ 63"
  by (simp_all add: wrap64_def)

lemma wrap64_id: "- (2 ^ 63) \<le> i \<Longrightarrow> i < 2 ^ 63 \<Longrightarrow> wrap64 i = i"
  by (simp add: wrap64_def)

subsection \<open>What slots and timeouts promise\<close>

text \<open>
  A slot is acquired only where fewer were held than there are, so the number held never
  passes the capacity; and what is acquired is given back by one release.
\<close>

lemma acquire_within_capacity:
  assumes "acquire err waits s = Acquired s'" and "\<forall>(w, _) \<in> set waits. chan_ok w"
  shows "0 < held s' \<and> held s' \<le> ccap s' \<and> (\<exists>w d p. (w, d, p) \<in> set waits \<and>
    held w < ccap w \<and> map_option held (release s') = Some (held w))"
proof -
  have "acquireWait waits s = Acquired s'"
    using assms(1) by (simp add: acquire_def split: if_splits)
  from acquireWait_bounded [OF this assms(2)] obtain w d p where
    w: "chan_ok s'" "(w, d, p) \<in> set waits" "held s' = Suc (held w)" "ccap s' = ccap w"
    by blast
  then obtain u us where "cbuf s' = u # us"
    by (cases "cbuf s'") (auto simp: held_def)
  with w show ?thesis
    by (fastforce simp: chan_ok_def held_def release_def chan_try_recv_def)
qed

text \<open>
  The timeout of a call is its milliseconds, exactly, for every positive count up to
  \<open>9223372036854\<close>, about 292 years; above that the multiplication wraps, and the first count past
  it is a timeout in the past.
\<close>

lemma timeoutFromMillis_exact:
  assumes "millis \<le> 9223372036854"
  shows "timeoutFromMillis millis fallback =
      (if 0 < millis then millis * 1000000 else fallback) \<and>
    timeoutFromMillis 9223372036855 fallback < 0"
  using assms by (auto simp: timeoutFromMillis_def millisecond_def wrap64_def)

end
