(* ===== verification/Message.thy ===== *)
theory Message
  imports Channel
begin

section \<open>Events for the host (\<open>core/message.go\<close>)\<close>

text \<open>
  Three bounded queues and one batcher goroutine. The first half models the senders
  (\<open>classOfMessage\<close>, \<open>sendMessage\<close>, \<open>enqueueState\<close>, \<open>enqueueLatest\<close>), the second half the
  batcher as a small-step machine: every \<open>select\<close> of its loop is a program point, so that
  arrivals between two selects are steps of their own.
\<close>

subsection \<open>Messages and their classes\<close>

datatype messageType =
    LogMessage | DelayMessage | RequestMessage | DnsMessage | LoadedMessage
  | GeoUpdateMessage | RouteChangedMessage | DialerLoopMessage | RequestTrafficMessage

record 'd message =
  msg_type :: messageType
  msg_data :: 'd

datatype messageClass = StateClass | PriorityClass | BulkClass | YieldingBulkClass

definition classOfMessage :: "'d message \<Rightarrow> messageClass" where
  "classOfMessage m =
     (case msg_type m of
        LoadedMessage \<Rightarrow> StateClass
      | GeoUpdateMessage \<Rightarrow> StateClass
      | RouteChangedMessage \<Rightarrow> StateClass
      | LogMessage \<Rightarrow> BulkClass
      | RequestMessage \<Rightarrow> BulkClass
      | DnsMessage \<Rightarrow> YieldingBulkClass
      | RequestTrafficMessage \<Rightarrow> YieldingBulkClass
      | _ \<Rightarrow> PriorityClass)"

definition messageBatchSize :: nat where "messageBatchSize = 32"
definition messageQueueSize :: nat where "messageQueueSize = 256"
definition messagePriorityBurst :: nat where "messagePriorityBurst = 8"
definition messageEvictAttempts :: nat where "messageEvictAttempts = 4"

subsection \<open>Sending\<close>

definition enqueueState :: "'a chan \<Rightarrow> 'a \<Rightarrow> 'a chan \<times> bool" where
  "enqueueState q m = (case chan_try_send q m of Some q' \<Rightarrow> (q', True) | None \<Rightarrow> (q, False))"

text \<open>
  \<open>enqueueLatest\<close> tries to send, and on a full queue drops the oldest entry and tries again.
  Other goroutines use the queue between two selects: \<open>env i\<close> is what they do to it before the
  \<open>i\<close>-th select of the call.
\<close>

fun enqueueAttempts :: "nat \<Rightarrow> (nat \<Rightarrow> 'a chan \<Rightarrow> 'a chan) \<Rightarrow> nat \<Rightarrow> 'a chan \<Rightarrow> 'a \<Rightarrow> 'a chan \<times> bool" where
  "enqueueAttempts 0 env i q m = (q, False)"
| "enqueueAttempts (Suc n) env i q m =
     (let q = env i q in
      case chan_try_send q m of
        Some q' \<Rightarrow> (q', True)
      | None \<Rightarrow>
          (let q = env (i + 1) q;
               q = (case chan_try_recv q of Some (_, q') \<Rightarrow> q' | None \<Rightarrow> q)
           in enqueueAttempts n env (i + 2) q m))"

definition enqueueLatest :: "(nat \<Rightarrow> 'a chan \<Rightarrow> 'a chan) \<Rightarrow> 'a chan \<Rightarrow> 'a \<Rightarrow> 'a chan \<times> bool" where
  "enqueueLatest env q m = enqueueAttempts messageEvictAttempts env 0 q m"

record 'd queues =
  stateQueue :: "'d message chan"
  priorityQueue :: "'d message chan"
  bulkQueue :: "'d message chan"

definition initQueues :: "'d queues" where
  "initQueues = \<lparr>stateQueue = make_chan messageQueueSize,
     priorityQueue = make_chan messageQueueSize, bulkQueue = make_chan messageQueueSize\<rparr>"

definition sendMessage ::
  "(nat \<Rightarrow> 'd message chan \<Rightarrow> 'd message chan) \<Rightarrow> bool \<Rightarrow> 'd message \<Rightarrow> 'd queues \<Rightarrow>
     'd queues \<times> bool" where
  "sendMessage env hasEventListener m qs =
     (if \<not> hasEventListener then (qs, False)
      else (case classOfMessage m of
              StateClass \<Rightarrow>
                (case enqueueState (stateQueue qs) m of (q, r) \<Rightarrow> (qs\<lparr>stateQueue := q\<rparr>, r))
            | BulkClass \<Rightarrow>
                (case enqueueLatest env (bulkQueue qs) m of (q, r) \<Rightarrow> (qs\<lparr>bulkQueue := q\<rparr>, r))
            | YieldingBulkClass \<Rightarrow>
                (case enqueueState (bulkQueue qs) m of (q, r) \<Rightarrow> (qs\<lparr>bulkQueue := q\<rparr>, r))
            | PriorityClass \<Rightarrow>
                (case enqueueLatest env (priorityQueue qs) m of
                   (q, r) \<Rightarrow> (qs\<lparr>priorityQueue := q\<rparr>, r))))"

lemma enqueueState_spec:
  "enqueueState q m =
     (if length (cbuf q) < ccap q then (q\<lparr>cbuf := cbuf q @ [m]\<rparr>, True) else (q, False))"
  by (simp add: enqueueState_def chan_try_send_def)

lemma enqueueAttempts_sent:
  assumes "enqueueAttempts n env i q m = (q', True)"
  shows "\<exists>r. chan_try_send r m = Some q'"
  using assms
  by (induction n env i q m rule: enqueueAttempts.induct)
    (auto simp: Let_def split: option.splits)

text \<open>Undisturbed, the second attempt succeeds and only the oldest entry is gone.\<close>

lemma enqueueLatest_alone:
  assumes "chan_ok q" and "0 < ccap q"
  shows "enqueueLatest (\<lambda>_ c. c) q m =
    (q\<lparr>cbuf := (if length (cbuf q) < ccap q then cbuf q else tl (cbuf q)) @ [m]\<rparr>, True)"
proof (cases "length (cbuf q) < ccap q")
  case True
  then show ?thesis
    by (simp add: enqueueLatest_def messageEvictAttempts_def eval_nat_numeral chan_try_send_def)
next
  case False
  with assms obtain x xs where "cbuf q = x # xs" "length xs < ccap q"
    by (cases "cbuf q") (auto simp: chan_ok_def)
  with False show ?thesis
    by (simp add: enqueueLatest_def messageEvictAttempts_def eval_nat_numeral chan_try_send_def
        chan_try_recv_def)
qed

text \<open>It fails only if the queue was found full at each of the four attempts.\<close>

lemma enqueueAttempts_fails:
  assumes "enqueueAttempts n env i q m = (q', False)" and "k < n"
  shows "\<exists>r. chan_try_send (env (i + 2 * k) r) m = None"
  using assms
proof (induction n arbitrary: i q k)
  case 0
  then show ?case by simp
next
  case (Suc n)
  from Suc.prems(1) have full: "chan_try_send (env i q) m = None"
    by (auto simp: Let_def split: option.splits)
  show ?case
  proof (cases k)
    case 0
    with full show ?thesis by auto
  next
    case (Suc j)
    with Suc.prems full obtain r where "enqueueAttempts n env (i + 2) r m = (q', False)"
      by (auto simp: Let_def split: option.splits)
    with Suc.IH [of "i + 2" r j] Suc.prems(2) Suc show ?thesis by simp
  qed
qed

subsection \<open>What sending promises\<close>

definition queues_ok :: "'d queues \<Rightarrow> bool" where
  "queues_ok qs \<longleftrightarrow>
     (\<forall>q \<in> {stateQueue qs, priorityQueue qs, bulkQueue qs}. chan_ok q \<and> ccap q = messageQueueSize)"

definition room :: "'a chan \<Rightarrow> bool" where
  "room q \<longleftrightarrow> length (cbuf q) < ccap q"

definition appended :: "'a \<Rightarrow> 'a chan \<Rightarrow> 'a chan" where
  "appended m q = q\<lparr>cbuf := cbuf q @ [m]\<rparr>"

definition withoutOldest :: "'a chan \<Rightarrow> 'a chan" where
  "withoutOldest q = q\<lparr>cbuf := tl (cbuf q)\<rparr>"

lemma enqueueLatest_room:
  assumes "chan_ok q" and "ccap q = messageQueueSize"
  shows "enqueueLatest (\<lambda>_ c. c) q m =
    (appended m (if room q then q else withoutOldest q), True)"
  using assms
  by (simp add: enqueueLatest_alone messageQueueSize_def appended_def withoutOldest_def room_def)

text \<open>
  Where no other goroutine touches the queues during the call: an event about the core's
  state, or a yielding one, is queued if there is room and refused otherwise, with nothing evicted;
  a bulk or a priority event is always queued, at the price of the oldest event of its own queue
  when that is full; and nothing is queued while nobody listens.
\<close>

lemma sendMessage_by_class:
  assumes "queues_ok qs"
  shows "sendMessage (\<lambda>_ c. c) listening m qs =
    (if \<not> listening then (qs, False)
     else case classOfMessage m of
       StateClass \<Rightarrow>
         (if room (stateQueue qs) then (qs\<lparr>stateQueue := appended m (stateQueue qs)\<rparr>, True)
          else (qs, False))
     | YieldingBulkClass \<Rightarrow>
         (if room (bulkQueue qs) then (qs\<lparr>bulkQueue := appended m (bulkQueue qs)\<rparr>, True)
          else (qs, False))
     | BulkClass \<Rightarrow>
         (qs\<lparr>bulkQueue := appended m
            (if room (bulkQueue qs) then bulkQueue qs else withoutOldest (bulkQueue qs))\<rparr>, True)
     | PriorityClass \<Rightarrow>
         (qs\<lparr>priorityQueue := appended m
            (if room (priorityQueue qs) then priorityQueue qs
             else withoutOldest (priorityQueue qs))\<rparr>, True))"
  using assms
  by (auto simp: sendMessage_def queues_ok_def enqueueLatest_room enqueueState_spec room_def
      appended_def split: messageClass.split)

definition fullQueues :: "nat queues" where
  "fullQueues = initQueues\<lparr>bulkQueue := \<lparr>cbuf =
     map (\<lambda>i. \<lparr>msg_type = RequestMessage, msg_data = i\<rparr>) [0..<256], ccap = messageQueueSize\<rparr>\<rparr>"

text \<open>
  Whatever the other goroutines do to the queues in between, a bulk or priority event is
  given up only after its queue was found full at each of the four attempts.
\<close>

lemma sendMessage_gives_up:
  assumes "sendMessage env True m qs = (qs', False)"
    and "classOfMessage m = BulkClass \<or> classOfMessage m = PriorityClass"
    and "k < messageEvictAttempts"
  shows "\<exists>q. \<not> room (env (2 * k) q)"
proof -
  obtain q q' where "enqueueAttempts messageEvictAttempts env 0 q m = (q', False)"
    using assms(1,2) by (auto simp: sendMessage_def enqueueLatest_def split: prod.splits)
  then have "\<exists>r. chan_try_send (env (0 + 2 * k) r) m = None"
    using assms(3) by (rule enqueueAttempts_fails)
  then show ?thesis
    by (auto simp: chan_try_send_def room_def split: if_splits)
qed

definition refilling :: "nat \<Rightarrow> nat message chan \<Rightarrow> nat message chan" where
  "refilling i q = \<lparr>cbuf = [\<lparr>msg_type = RequestMessage, msg_data = 0\<rparr>], ccap = 1\<rparr>"

end
