(* ===== verification/Batcher.thy ===== *)
theory Batcher
  imports Message
begin

section \<open>The message batcher (\<open>runMessageBatcher\<close> of \<open>core/message.go\<close>)\<close>

text \<open>
  The goroutine that empties the three queues into batches, as a small-step machine. A program
  point is one \<open>select\<close> of the loop; \<open>batcherStep\<close> executes one. The environment (senders, an
  eviction by \<open>enqueueLatest\<close>, the end of a queue) moves between any two of them. A queue whose
  channel variable the loop has set to \<open>nil\<close> is no longer \<open>listening\<close>. Ghosts: \<open>accepted\<close> is
  what was queued and not evicted, \<open>bulkWait\<close> the priority messages taken since the bulk queue was
  last empty or served.
\<close>

datatype source = StateQ | PriorityQ | BulkQ

datatype point = AtState | AtBurst | AtPriority | AtSelect | Returned

record 'a batcher =
  pc :: point
  waiting :: "source \<Rightarrow> 'a list"
  closed :: "source \<Rightarrow> bool"
  listening :: "source \<Rightarrow> bool"
  batch :: "(source \<times> 'a) list"
  deadline :: bool
  priorityBurst :: nat
  sent :: "(source \<times> 'a) list list"
  accepted :: "source \<Rightarrow> 'a list"
  bulkWait :: nat

definition initBatcher :: "'a batcher" where
  "initBatcher = \<lparr>pc = AtState, waiting = (\<lambda>_. []), closed = (\<lambda>_. False), listening = (\<lambda>_. True),
     batch = [], deadline = False, priorityBurst = 0, sent = [], accepted = (\<lambda>_. []),
     bulkWait = 0\<rparr>"

text \<open>A receive from the queue can proceed: a message is there, or the channel is closed.\<close>

definition ready :: "'a batcher \<Rightarrow> source \<Rightarrow> bool" where
  "ready s x \<longleftrightarrow> listening s x \<and> (waiting s x \<noteq> [] \<or> closed s x)"

definition flush :: "'a batcher \<Rightarrow> 'a batcher" where
  "flush s =
     (if batch s = [] then s
      else s\<lparr>deadline := False, batch := [], sent := sent s @ [batch s]\<rparr>)"

text \<open>
  \<open>take\<close> after the receive: a closed queue is dropped, a message joins the batch, the first of a
  batch arms the timer and a full batch is sent. The result says whether a message was taken.
\<close>

definition takeFrom :: "source \<Rightarrow> 'a batcher \<Rightarrow> 'a batcher \<times> bool" where
  "takeFrom x s =
     (case waiting s x of
        [] \<Rightarrow> (s\<lparr>listening := (listening s)(x := False)\<rparr>, False)
      | m # ms \<Rightarrow>
          (let s = s\<lparr>waiting := (waiting s)(x := ms)\<rparr>;
               s = (if batch s = [] then s\<lparr>deadline := True\<rparr> else s);
               s = s\<lparr>batch := batch s @ [(x, m)]\<rparr>
           in (if length (batch s) \<ge> messageBatchSize then flush s else s, True)))"

definition takePriority :: "'a batcher \<Rightarrow> 'a batcher" where
  "takePriority s =
     (case takeFrom PriorityQ s of
        (t, taken) \<Rightarrow>
          if taken
          then t\<lparr>priorityBurst := Suc (priorityBurst t),
                 bulkWait := (if waiting t BulkQ = [] then 0 else Suc (bulkWait t))\<rparr>
          else t)"

definition takeBulk :: "'a batcher \<Rightarrow> 'a batcher" where
  "takeBulk s = (fst (takeFrom BulkQ s))\<lparr>bulkWait := 0\<rparr>"

text \<open>
  One \<open>select\<close>. \<open>choice\<close> resolves the last, blocking one: the queue it receives from, or
  \<open>None\<close> for the deadline. \<open>None\<close> as a result: the select blocks, or the loop has returned.
\<close>

definition batcherStep :: "source option \<Rightarrow> 'a batcher \<Rightarrow> 'a batcher option" where
  "batcherStep choice s =
     (case pc s of
        AtState \<Rightarrow>
          if \<not> (listening s StateQ \<or> listening s PriorityQ \<or> listening s BulkQ)
          then Some ((flush s)\<lparr>pc := Returned\<rparr>)
          else if ready s StateQ then Some ((fst (takeFrom StateQ s))\<lparr>pc := AtState\<rparr>)
          else Some (s\<lparr>pc := AtBurst\<rparr>)
      | AtBurst \<Rightarrow>
          if priorityBurst s \<ge> messagePriorityBurst \<and> listening s BulkQ
          then (let s = s\<lparr>priorityBurst := 0\<rparr> in
                if ready s BulkQ then Some ((takeBulk s)\<lparr>pc := AtState\<rparr>)
                else Some (s\<lparr>pc := AtPriority\<rparr>))
          else Some (s\<lparr>pc := AtPriority\<rparr>)
      | AtPriority \<Rightarrow>
          if ready s PriorityQ then Some ((takePriority s)\<lparr>pc := AtState\<rparr>)
          else Some (s\<lparr>pc := AtSelect\<rparr>)
      | AtSelect \<Rightarrow>
          (case choice of
             None \<Rightarrow> if deadline s then Some ((flush s)\<lparr>pc := AtState\<rparr>) else None
           | Some x \<Rightarrow>
               if \<not> ready s x then None
               else (case x of
                       StateQ \<Rightarrow> Some ((fst (takeFrom StateQ s))\<lparr>pc := AtState\<rparr>)
                     | PriorityQ \<Rightarrow> Some ((takePriority s)\<lparr>pc := AtState\<rparr>)
                     | BulkQ \<Rightarrow> Some ((takeBulk s)\<lparr>pc := AtState, priorityBurst := 0\<rparr>)))
      | Returned \<Rightarrow> None)"

text \<open>The messages taken from a queue so far, in the order they were taken.\<close>

definition taken :: "'a batcher \<Rightarrow> source \<Rightarrow> 'a list" where
  "taken s x = map snd (filter (\<lambda>(y, _). y = x) (concat (sent s) @ batch s))"

inductive batcher_step :: "'a batcher \<Rightarrow> 'a batcher \<Rightarrow> bool" where
  run: "batcherStep choice s = Some s' \<Longrightarrow> batcher_step s s'"
| arrive: "\<not> closed s x \<Longrightarrow> length (waiting s x) < messageQueueSize \<Longrightarrow>
     batcher_step s (s\<lparr>waiting := (waiting s)(x := waiting s x @ [m]),
       accepted := (accepted s)(x := accepted s x @ [m])\<rparr>)"
| evict: "x \<noteq> StateQ \<Longrightarrow> waiting s x = m # ms \<Longrightarrow>
     batcher_step s (s\<lparr>waiting := (waiting s)(x := ms),
       accepted := (accepted s)(x := taken s x @ ms),
       bulkWait := (if x = BulkQ \<and> ms = [] then 0 else bulkWait s)\<rparr>)"
| close_queue: "batcher_step s (s\<lparr>closed := (closed s)(x := True)\<rparr>)"

inductive batcher_reachable :: "'a batcher \<Rightarrow> bool" where
  start: "batcher_reachable initBatcher"
| step: "batcher_reachable s \<Longrightarrow> batcher_step s s' \<Longrightarrow> batcher_reachable s'"

subsection \<open>What flush and take keep\<close>

definition batch_inv :: "'a batcher \<Rightarrow> bool" where
  "batch_inv s \<longleftrightarrow>
     length (batch s) < messageBatchSize \<and>
     (deadline s \<longleftrightarrow> batch s \<noteq> []) \<and>
     (\<forall>b \<in> set (sent s). b \<noteq> [] \<and> length b \<le> messageBatchSize)"

definition fifo_inv :: "'a batcher \<Rightarrow> bool" where
  "fifo_inv s \<longleftrightarrow>
     (\<forall>x. accepted s x = taken s x @ waiting s x \<and>
          length (waiting s x) \<le> messageQueueSize \<and>
          (\<not> listening s x \<longrightarrow> closed s x \<and> waiting s x = []))"

lemma flush_simps [simp]:
  "waiting (flush s) = waiting s" "closed (flush s) = closed s" "listening (flush s) = listening s"
  "accepted (flush s) = accepted s" "priorityBurst (flush s) = priorityBurst s"
  "bulkWait (flush s) = bulkWait s" "batch (flush s) = []" "taken (flush s) = taken s"
  by (auto simp: flush_def taken_def fun_eq_iff)

lemma flush_batch_inv:
  assumes "length (batch s) \<le> messageBatchSize" "deadline s \<longleftrightarrow> batch s \<noteq> []"
    "\<forall>b \<in> set (sent s). b \<noteq> [] \<and> length b \<le> messageBatchSize"
  shows "batch_inv (flush s)"
  using assms by (auto simp: flush_def batch_inv_def messageBatchSize_def)

lemma takeFrom_batch_inv: "batch_inv s \<Longrightarrow> batch_inv (fst (takeFrom x s))"
proof (cases "waiting s x")
  case Nil
  then show "batch_inv s \<Longrightarrow> ?thesis" by (simp add: takeFrom_def batch_inv_def)
next
  case (Cons m ms)
  assume inv: "batch_inv s"
  let ?t = "(if batch s = [] then s\<lparr>waiting := (waiting s)(x := ms), deadline := True\<rparr>
             else s\<lparr>waiting := (waiting s)(x := ms)\<rparr>)\<lparr>batch := batch s @ [(x, m)]\<rparr>"
  from inv have "batch_inv (flush ?t)"
    by (intro flush_batch_inv) (auto simp: batch_inv_def)
  moreover have "batch_inv ?t" if "length (batch s) + 1 < messageBatchSize"
    using inv that by (auto simp: batch_inv_def)
  ultimately show ?thesis
    using Cons by (auto simp: takeFrom_def Let_def)
qed

lemma taken_append [simp]:
  "taken (s\<lparr>batch := batch s @ [(x, m)]\<rparr>) y = taken s y @ (if y = x then [m] else [])"
  "taken (s\<lparr>waiting := w\<rparr>) = taken s" "taken (s\<lparr>deadline := d\<rparr>) = taken s"
  "taken (s\<lparr>listening := l\<rparr>) = taken s" "taken (s\<lparr>pc := p\<rparr>) = taken s"
  "taken (s\<lparr>priorityBurst := n\<rparr>) = taken s" "taken (s\<lparr>bulkWait := n\<rparr>) = taken s"
  "taken (s\<lparr>accepted := a\<rparr>) = taken s" "taken (s\<lparr>closed := c\<rparr>) = taken s"
  by (simp_all add: taken_def fun_eq_iff)

lemma takeFrom_Cons:
  assumes "waiting s x = m # ms"
  shows "\<exists>t. takeFrom x s = (t, True) \<and> waiting t = (waiting s)(x := ms) \<and>
    accepted t = accepted s \<and> closed t = closed s \<and> listening t = listening s \<and>
    priorityBurst t = priorityBurst s \<and> bulkWait t = bulkWait s \<and>
    (\<forall>y. taken t y = taken s y @ (if y = x then [m] else []))"
proof -
  let ?r = "if batch s = [] then s\<lparr>waiting := (waiting s)(x := ms), deadline := True\<rparr>
             else s\<lparr>waiting := (waiting s)(x := ms)\<rparr>"
  let ?t = "?r\<lparr>batch := batch ?r @ [(x, m)]\<rparr>"
  have "takeFrom x s = (if length (batch ?t) \<ge> messageBatchSize then flush ?t else ?t, True)"
    using assms by (auto simp: takeFrom_def Let_def)
  moreover have "taken ?t y = taken s y @ (if y = x then [m] else [])" for y
    by (simp only: taken_append) simp
  ultimately show ?thesis by simp
qed

lemma takeFrom_Nil:
  "waiting s x = [] \<Longrightarrow> takeFrom x s = (s\<lparr>listening := (listening s)(x := False)\<rparr>, False)"
  by (simp add: takeFrom_def)

lemma takeFrom_effect:
  "(\<forall>y. waiting (fst (takeFrom x s)) y = (if y = x then tl (waiting s x) else waiting s y)) \<and>
   accepted (fst (takeFrom x s)) = accepted s \<and>
   closed (fst (takeFrom x s)) = closed s \<and>
   (\<forall>y. listening (fst (takeFrom x s)) y = (listening s y \<and> \<not> (y = x \<and> waiting s x = []))) \<and>
   (\<forall>y. taken (fst (takeFrom x s)) y =
      taken s y @ (if y = x then take 1 (waiting s x) else [])) \<and>
   priorityBurst (fst (takeFrom x s)) = priorityBurst s \<and>
   bulkWait (fst (takeFrom x s)) = bulkWait s"
proof (cases "waiting s x")
  case Nil
  then show ?thesis by (simp add: takeFrom_Nil)
next
  case (Cons m ms)
  obtain t where t: "takeFrom x s = (t, True)" "waiting t = (waiting s)(x := ms)"
    "accepted t = accepted s" "closed t = closed s" "listening t = listening s"
    "priorityBurst t = priorityBurst s" "bulkWait t = bulkWait s"
    "\<And>y. taken t y = taken s y @ (if y = x then [m] else [])"
    using takeFrom_Cons [of s x m ms, OF Cons] by blast
  with Cons show ?thesis by simp
qed

lemmas takeFrom_fifo =
  takeFrom_effect [THEN conjunct1, rule_format]
  takeFrom_effect [THEN conjunct2, THEN conjunct1]
  takeFrom_effect [THEN conjunct2, THEN conjunct2, THEN conjunct1]
  takeFrom_effect [THEN conjunct2, THEN conjunct2, THEN conjunct2, THEN conjunct1, rule_format]
  takeFrom_effect [THEN conjunct2, THEN conjunct2, THEN conjunct2, THEN conjunct2, THEN conjunct1,
    rule_format]
  takeFrom_effect [THEN conjunct2, THEN conjunct2, THEN conjunct2, THEN conjunct2, THEN conjunct2,
    THEN conjunct1]
  takeFrom_effect [THEN conjunct2, THEN conjunct2, THEN conjunct2, THEN conjunct2, THEN conjunct2,
    THEN conjunct2]

lemma takeFrom_fifo_inv:
  assumes "fifo_inv s" and "ready s x"
  shows "fifo_inv (fst (takeFrom x s))"
  unfolding fifo_inv_def
proof
  fix y
  have split: "take 1 (waiting s x) @ tl (waiting s x) = waiting s x"
    by (cases "waiting s x") auto
  have "accepted s y = taken s y @ waiting s y" "length (waiting s y) \<le> messageQueueSize"
    "\<not> listening s y \<longrightarrow> closed s y \<and> waiting s y = []"
    using assms(1) by (auto simp: fifo_inv_def)
  then show "accepted (fst (takeFrom x s)) y =
      taken (fst (takeFrom x s)) y @ waiting (fst (takeFrom x s)) y \<and>
    length (waiting (fst (takeFrom x s)) y) \<le> messageQueueSize \<and>
    (\<not> listening (fst (takeFrom x s)) y \<longrightarrow>
       closed (fst (takeFrom x s)) y \<and> waiting (fst (takeFrom x s)) y = [])"
    using assms(2) split by (cases "y = x") (auto simp: takeFrom_fifo ready_def)
qed

subsection \<open>The invariants of the machine\<close>

lemma inv_other_fields [simp]:
  "batch_inv (s\<lparr>pc := p\<rparr>) = batch_inv s" "fifo_inv (s\<lparr>pc := p\<rparr>) = fifo_inv s"
  "batch_inv (s\<lparr>priorityBurst := n\<rparr>) = batch_inv s" "fifo_inv (s\<lparr>priorityBurst := n\<rparr>) = fifo_inv s"
  "batch_inv (s\<lparr>bulkWait := n\<rparr>) = batch_inv s" "fifo_inv (s\<lparr>bulkWait := n\<rparr>) = fifo_inv s"
  by (simp_all add: batch_inv_def fifo_inv_def)

definition burst_inv :: "'a batcher \<Rightarrow> bool" where
  "burst_inv s \<longleftrightarrow>
     (waiting s BulkQ = [] \<longrightarrow> bulkWait s = 0) \<and>
     bulkWait s \<le> priorityBurst s \<and>
     (listening s BulkQ \<longrightarrow> priorityBurst s \<le> messagePriorityBurst) \<and>
     (listening s BulkQ \<and> pc s \<in> {AtPriority, AtSelect} \<longrightarrow>
        priorityBurst s < messagePriorityBurst)"

definition batcher_inv :: "'a batcher \<Rightarrow> bool" where
  "batcher_inv s \<longleftrightarrow> batch_inv s \<and> fifo_inv s \<and> burst_inv s"

lemma flush_inv [inv_intros]:
  assumes "batch_inv s"
  shows "batch_inv (flush s)" "fifo_inv (flush s) = fifo_inv s"
proof -
  show "batch_inv (flush s)"
    using assms by (intro flush_batch_inv) (auto simp: batch_inv_def)
  show "fifo_inv (flush s) = fifo_inv s"
    by (simp add: fifo_inv_def)
qed

lemma takePriority_inv:
  assumes "batch_inv s" "fifo_inv s" "ready s PriorityQ"
  shows "batch_inv (takePriority s)" "fifo_inv (takePriority s)"
  using takeFrom_batch_inv [OF assms(1), of PriorityQ] takeFrom_fifo_inv [OF assms(2,3)]
  by (auto simp: takePriority_def split: prod.split)

lemma takeBulk_inv:
  assumes "batch_inv s" "fifo_inv s" "ready s BulkQ"
  shows "batch_inv (takeBulk s)" "fifo_inv (takeBulk s)"
  using takeFrom_batch_inv [OF assms(1), of BulkQ] takeFrom_fifo_inv [OF assms(2,3)]
  by (simp_all add: takeBulk_def)

lemma takePriority_burst:
  assumes "burst_inv s" "pc s \<in> {AtPriority, AtSelect}"
  shows "burst_inv ((takePriority s)\<lparr>pc := AtState\<rparr>)"
proof (cases "waiting s PriorityQ")
  case Nil
  with assms show ?thesis by (auto simp: takePriority_def takeFrom_Nil burst_inv_def)
next
  case (Cons m ms)
  obtain t where t: "takeFrom PriorityQ s = (t, True)" "waiting t = (waiting s)(PriorityQ := ms)"
    "listening t = listening s" "priorityBurst t = priorityBurst s" "bulkWait t = bulkWait s"
    using takeFrom_Cons [of s PriorityQ m ms, OF Cons] by blast
  with assms show ?thesis
    by (auto simp: takePriority_def burst_inv_def)
qed

lemma takeBulk_burst:
  assumes "burst_inv s" "priorityBurst s = 0 \<or> p = AtState"
  shows "burst_inv ((takeBulk s)\<lparr>pc := p, priorityBurst := 0\<rparr>)"
  using assms by (simp add: takeBulk_def burst_inv_def messagePriorityBurst_def)

lemma burst_inv_pc:
  "burst_inv s \<Longrightarrow> p \<notin> {AtPriority, AtSelect} \<Longrightarrow> burst_inv (s\<lparr>pc := p\<rparr>)"
  by (simp add: burst_inv_def)

lemma burst_inv_state:
  "burst_inv s \<Longrightarrow> burst_inv (fst (takeFrom StateQ s)\<lparr>pc := AtState\<rparr>)"
  by (simp add: burst_inv_def takeFrom_fifo)

lemma burst_inv_flush:
  "burst_inv s \<Longrightarrow> p \<notin> {AtPriority, AtSelect} \<Longrightarrow> burst_inv ((flush s)\<lparr>pc := p\<rparr>)"
  by (simp add: burst_inv_def)

lemma batcherStep_inv:
  assumes "batcherStep choice s = Some s'" and inv: "batcher_inv s"
  shows "batcher_inv s'"
proof -
  have b: "batch_inv s" and f: "fifo_inv s" and u: "burst_inv s"
    using inv by (auto simp: batcher_inv_def)
  note take_inv = takeFrom_batch_inv [OF b] takeFrom_fifo_inv [OF f]
    takePriority_inv [OF b f] takeBulk_inv [OF b f] flush_inv [OF b]
  show ?thesis
  proof (cases "pc s")
    case AtState
    with assms(1) take_inv b f u show ?thesis
      by (auto simp: batcherStep_def batcher_inv_def burst_inv_state burst_inv_flush burst_inv_pc
          split: if_splits)
  next
    case AtBurst
    have zero: "burst_inv ((takeBulk (s\<lparr>priorityBurst := 0\<rparr>))\<lparr>pc := AtState\<rparr>)"
      if "ready (s\<lparr>priorityBurst := 0\<rparr>) BulkQ"
      using u by (simp add: takeBulk_def burst_inv_def takeFrom_fifo messagePriorityBurst_def)
    have take0: "takeBulk (s\<lparr>priorityBurst := 0\<rparr>) = (takeBulk s)\<lparr>priorityBurst := 0\<rparr>"
      by (simp add: takeBulk_def takeFrom_def Let_def flush_def split: list.split)
    have skip: "burst_inv (s\<lparr>priorityBurst := 0, pc := AtPriority\<rparr>)"
      if "\<not> ready s BulkQ" "listening s BulkQ"
      using u that by (auto simp: burst_inv_def ready_def messagePriorityBurst_def)
    have stay: "burst_inv (s\<lparr>pc := AtPriority\<rparr>)"
      if "\<not> (priorityBurst s \<ge> messagePriorityBurst \<and> listening s BulkQ)"
      using u that by (auto simp: burst_inv_def)
    have ready0: "ready (s\<lparr>priorityBurst := 0\<rparr>) BulkQ = ready s BulkQ"
      by (simp add: ready_def)
    from AtBurst assms(1) show ?thesis
      using b f take_inv(5,6) zero skip stay
      by (auto simp: batcherStep_def batcher_inv_def Let_def ready0 take0 split: if_splits)
  next
    case AtPriority
    with assms(1) u b f take_inv(3,4) takePriority_burst [OF u] show ?thesis
      by (auto simp: batcherStep_def batcher_inv_def burst_inv_def [of "s\<lparr>pc := AtSelect\<rparr>"]
          burst_inv_def [of s] split: if_splits)
  next
    case AtSelect
    have bulk: "burst_inv ((takeBulk s)\<lparr>pc := AtState, priorityBurst := 0\<rparr>)"
      using u by (intro takeBulk_burst) auto
    from AtSelect assms(1) show ?thesis
      using f u take_inv bulk takePriority_burst [OF u] burst_inv_state [OF u]
        burst_inv_flush [OF u]
      by (auto simp: batcherStep_def batcher_inv_def split: if_splits option.splits source.splits)
  next
    case Returned
    with assms(1) show ?thesis by (simp add: batcherStep_def)
  qed
qed

lemma batcher_step_inv: "batcher_step s s' \<Longrightarrow> batcher_inv s \<Longrightarrow> batcher_inv s'"
proof (induction rule: batcher_step.induct)
  case (run choice s s')
  then show ?case by (blast intro: batcherStep_inv)
next
  case (arrive s x m)
  then show ?case
    by (auto simp: batcher_inv_def batch_inv_def fifo_inv_def burst_inv_def taken_def)
next
  case (evict x s m ms)
  then have "fifo_inv s" by (simp add: batcher_inv_def)
  then have "length (waiting s x) \<le> messageQueueSize" "listening s x \<or> waiting s x = []"
    by (auto simp: fifo_inv_def)
  with evict show ?case
    by (auto simp: batcher_inv_def batch_inv_def fifo_inv_def burst_inv_def taken_def)
next
  case (close_queue s x)
  then show ?case
    by (auto simp: batcher_inv_def batch_inv_def fifo_inv_def burst_inv_def taken_def)
qed

lemma batcher_reachable_inv: "batcher_reachable s \<Longrightarrow> batcher_inv s"
proof (induction rule: batcher_reachable.induct)
  case start
  show ?case
    by (simp add: batcher_inv_def batch_inv_def fifo_inv_def burst_inv_def initBatcher_def
        taken_def messageBatchSize_def)
qed (blast intro: batcher_step_inv)

subsection \<open>Draining the closed queues\<close>

text \<open>
  Once every queue is closed each \<open>select\<close> makes progress: \<open>drainMeasure\<close> falls with every step
  whatever case a select takes, and only a machine that has returned has no step.
\<close>

definition live_inv :: "'a batcher \<Rightarrow> bool" where
  "live_inv s \<longleftrightarrow>
     (pc s = Returned \<longrightarrow> batch s = [] \<and> (\<forall>x. \<not> listening s x)) \<and>
     (pc s \<in> {AtBurst, AtPriority, AtSelect} \<longrightarrow> (\<exists>x. listening s x))"

lemma sources_all: "(\<forall>x. P x) \<longleftrightarrow> P StateQ \<and> P PriorityQ \<and> P BulkQ"
  by (metis source.exhaust)

lemma sources_ex: "(\<exists>x. P x) \<longleftrightarrow> P StateQ \<or> P PriorityQ \<or> P BulkQ"
  by (metis source.exhaust)

lemma live_inv_step: "batcher_step s s' \<Longrightarrow> live_inv s \<Longrightarrow> live_inv s'"
proof (induction rule: batcher_step.induct)
  case (run choice s s')
  then show ?case
    by (auto simp: batcherStep_def live_inv_def sources_all sources_ex Let_def
        split: point.splits if_splits option.splits source.splits)
qed (auto simp: live_inv_def)

lemma batcher_reachable_live: "batcher_reachable s \<Longrightarrow> live_inv s"
proof (induction rule: batcher_reachable.induct)
  case start
  show ?case by (simp add: live_inv_def initBatcher_def)
qed (blast intro: live_inv_step)

fun point_rank :: "point \<Rightarrow> nat" where
  "point_rank AtState = 4"
| "point_rank AtBurst = 3"
| "point_rank AtPriority = 2"
| "point_rank AtSelect = 1"
| "point_rank Returned = 0"

definition queue_load :: "'a batcher \<Rightarrow> source \<Rightarrow> nat" where
  "queue_load s x = length (waiting s x) + (if listening s x then 1 else 0)"

definition drainMeasure :: "'a batcher \<Rightarrow> nat" where
  "drainMeasure s = 8 * (queue_load s StateQ + queue_load s PriorityQ + queue_load s BulkQ) +
     (if deadline s then 4 else 0) + point_rank (pc s)"

lemma queue_load_take:
  assumes "ready s x"
  shows "queue_load (fst (takeFrom x s)) y = (if y = x then queue_load s x - 1 else queue_load s y)"
    and "0 < queue_load s x"
  using assms by (cases "waiting s x"; auto simp: queue_load_def takeFrom_fifo ready_def)+

lemma queue_load_fields [simp]:
  "queue_load (s\<lparr>pc := p\<rparr>) = queue_load s" "queue_load (s\<lparr>priorityBurst := n\<rparr>) = queue_load s"
  "queue_load (s\<lparr>bulkWait := n\<rparr>) = queue_load s" "queue_load (flush s) = queue_load s"
  by (simp_all add: queue_load_def fun_eq_iff)

lemma queue_load_takers [simp]:
  "queue_load (takePriority s) = queue_load (fst (takeFrom PriorityQ s))"
  "queue_load (takeBulk s) = queue_load (fst (takeFrom BulkQ s))"
  by (auto simp: takePriority_def takeBulk_def split: prod.split)

lemma drain_take:
  assumes "ready s x" "queue_load t = queue_load (fst (takeFrom x s))" "pc t = AtState"
    and "pc s \<noteq> Returned"
  shows "drainMeasure t < drainMeasure s"
proof -
  have "1 \<le> point_rank (pc s)"
    using assms(4) by (cases "pc s") auto
  with assms queue_load_take [OF assms(1)] show ?thesis
    by (cases x) (auto simp: drainMeasure_def)
qed

lemma drain_step:
  assumes "batcherStep choice s = Some s'" and "batch_inv s"
  shows "drainMeasure s' < drainMeasure s"
proof (cases "pc s")
  case AtState
  have "drainMeasure ((flush s)\<lparr>pc := Returned\<rparr>) < drainMeasure s"
    using AtState by (auto simp: drainMeasure_def flush_def queue_load_def)
  moreover have "drainMeasure (s\<lparr>pc := AtBurst\<rparr>) < drainMeasure s"
    using AtState by (simp add: drainMeasure_def)
  ultimately show ?thesis
    using AtState assms(1) drain_take [of s StateQ s']
    by (auto simp: batcherStep_def split: if_splits)
next
  case AtBurst
  have "drainMeasure (s\<lparr>pc := AtPriority\<rparr>) < drainMeasure s"
    "drainMeasure (s\<lparr>priorityBurst := 0, pc := AtPriority\<rparr>) < drainMeasure s"
    using AtBurst by (simp_all add: drainMeasure_def)
  moreover have "drainMeasure (s\<lparr>priorityBurst := 0\<rparr>) = drainMeasure s"
    by (simp add: drainMeasure_def)
  ultimately show ?thesis
    using AtBurst assms(1) drain_take [of "s\<lparr>priorityBurst := 0\<rparr>" BulkQ s']
    by (auto simp: batcherStep_def Let_def split: if_splits)
next
  case AtPriority
  have "drainMeasure (s\<lparr>pc := AtSelect\<rparr>) < drainMeasure s"
    using AtPriority by (simp add: drainMeasure_def)
  then show ?thesis
    using AtPriority assms(1) drain_take [of s PriorityQ s']
    by (auto simp: batcherStep_def split: if_splits)
next
  case AtSelect
  have "drainMeasure ((flush s)\<lparr>pc := AtState\<rparr>) < drainMeasure s" if "deadline s"
    using that AtSelect assms(2)
    by (auto simp: drainMeasure_def flush_def queue_load_def batch_inv_def)
  then show ?thesis
    using AtSelect assms(1) drain_take [of s _ s']
    by (auto simp: batcherStep_def split: if_splits option.splits source.splits)
next
  case Returned
  with assms(1) show ?thesis by (simp add: batcherStep_def)
qed

lemma drain_progress:
  assumes "live_inv s" and "\<forall>x. closed s x" and "pc s \<noteq> Returned"
  shows "\<exists>choice s'. batcherStep choice s = Some s'"
proof (cases "pc s = AtSelect")
  case True
  with assms(1) obtain x where "listening s x"
    by (auto simp: live_inv_def)
  with True assms(2) have "batcherStep (Some x) s \<noteq> None"
    by (auto simp: batcherStep_def ready_def split: source.split)
  then show ?thesis by blast
next
  case False
  with assms(3) have "batcherStep None s \<noteq> None"
    by (cases "pc s") (auto simp: batcherStep_def Let_def)
  then show ?thesis by blast
qed

text \<open>A run of the loop alone, with its number of steps.\<close>

inductive batcher_run :: "nat \<Rightarrow> 'a batcher \<Rightarrow> 'a batcher \<Rightarrow> bool" where
  run_here: "batcher_run 0 s s"
| run_more: "batcherStep choice s = Some s' \<Longrightarrow> batcher_run n s' t \<Longrightarrow> batcher_run (Suc n) s t"

lemma step_closed_accepted:
  "batcherStep choice s = Some s' \<Longrightarrow> closed s' = closed s \<and> accepted s' = accepted s"
  by (auto simp: batcherStep_def takeBulk_def takePriority_def takeFrom_fifo Let_def
      split: point.splits if_splits option.splits source.splits prod.splits
      dest!: arg_cong [where f = fst])

lemma batcher_run_invs:
  "batcher_run n s t \<Longrightarrow> batcher_inv s \<Longrightarrow> live_inv s \<Longrightarrow>
     batcher_inv t \<and> live_inv t \<and> closed t = closed s \<and> accepted t = accepted s \<and>
     n + drainMeasure t \<le> drainMeasure s"
proof (induction rule: batcher_run.induct)
  case (run_here s)
  then show ?case by simp
next
  case (run_more choice s s' n t)
  have "batcher_inv s'" "live_inv s'"
    using run_more batcherStep_inv live_inv_step batcher_step.run by blast+
  moreover have "drainMeasure s' < drainMeasure s"
    using run_more drain_step by (auto simp: batcher_inv_def)
  ultimately show ?case
    using run_more step_closed_accepted [OF run_more.hyps(1)] by simp
qed

lemma batcher_drains:
  assumes "batcher_inv s" "live_inv s" "\<forall>x. closed s x"
  shows "\<exists>n t. batcher_run n s t \<and> pc t = Returned"
  using assms
proof (induction "drainMeasure s" arbitrary: s rule: less_induct)
  case less
  show ?case
  proof (cases "pc s = Returned")
    case True
    then show ?thesis by (blast intro: run_here)
  next
    case False
    with less.prems obtain choice s' where step: "batcherStep choice s = Some s'"
      using drain_progress by blast
    from step less.prems have inv: "batcher_inv s'" "live_inv s'" "\<forall>x. closed s' x"
      using batcherStep_inv live_inv_step batcher_step.run step_closed_accepted by metis+
    have "drainMeasure s' < drainMeasure s"
      using step less.prems drain_step by (auto simp: batcher_inv_def)
    with less.hyps inv obtain n t where "batcher_run n s' t" "pc t = Returned"
      by blast
    with step show ?thesis by (blast intro: run_more)
  qed
qed

lemma returned_delivered:
  assumes "batcher_inv s" "live_inv s" "pc s = Returned"
  shows "batch s = [] \<and> (\<forall>x. map snd (filter (\<lambda>(y, _). y = x) (concat (sent s))) = accepted s x)"
  using assms by (simp add: batcher_inv_def live_inv_def fifo_inv_def taken_def)

subsection \<open>What the batcher promises\<close>

text \<open>A state that has taken one of two events of the core's state.\<close>

definition afterArrivals :: "nat batcher" where
  "afterArrivals = initBatcher\<lparr>waiting := (\<lambda>x. if x = StateQ then [5, 6] else []),
     accepted := (\<lambda>x. if x = StateQ then [5, 6] else [])\<rparr>"

definition afterTake :: "nat batcher" where
  "afterTake = afterArrivals\<lparr>waiting := (\<lambda>x. if x = StateQ then [6] else []),
     batch := [(StateQ, 5)], deadline := True\<rparr>"

lemma afterArrivals_reachable: "batcher_reachable afterArrivals"
proof -
  have fold_if: "(\<lambda>x. if x = StateQ then ys else if x = StateQ then zs else []) =
      (\<lambda>x. if x = StateQ then ys else [])" for ys zs :: "nat list"
    by auto
  have "batcher_step initBatcher (initBatcher\<lparr>waiting := (\<lambda>_. [])(StateQ := [5::nat]),
      accepted := (\<lambda>_. [])(StateQ := [5])\<rparr>)" (is "batcher_step _ ?s")
    using arrive [of initBatcher StateQ "5::nat"] by (simp add: initBatcher_def messageQueueSize_def)
  moreover have "batcher_step ?s afterArrivals"
    using arrive [of ?s StateQ "6::nat"]
    by (simp add: initBatcher_def messageQueueSize_def afterArrivals_def fun_upd_def fold_if)
  ultimately show ?thesis
    by (blast intro: batcher_reachable.intros)
qed

lemma afterTake_step: "batcherStep None afterArrivals = Some afterTake"
  by (simp add: batcherStep_def afterArrivals_def afterTake_def initBatcher_def ready_def
      takeFrom_def Let_def messageBatchSize_def fun_eq_iff)

lemma afterTake_reachable: "batcher_reachable afterTake"
  using afterArrivals_reachable batcher_step.run [OF afterTake_step]
  by (blast intro: batcher_reachable.intros)

text \<open>
  \<^bold>\<open>C8.\<close> Whatever arrives, is evicted or closes in between, every batch sent has between one and
  32 messages, the batch being built has fewer, and its deadline is armed exactly while it holds a
  message: no message waits in a batch that nothing will send.
\<close>

theorem batches_bounded:
  assumes "batcher_reachable s"
  shows "(\<forall>b \<in> set (sent s). 0 < length b \<and> length b \<le> 32) \<and> length (batch s) < 32 \<and>
    (deadline s \<longleftrightarrow> batch s \<noteq> [])"
  using batcher_reachable_inv [OF assms]
  by (auto simp: batcher_inv_def batch_inv_def messageBatchSize_def)

lemma batches_bounded_witness:
  "length (batch afterTake) < 32 \<and> deadline afterTake"
  using batches_bounded [OF afterTake_reachable] by (simp add: afterTake_def)

text \<open>
  \<^bold>\<open>C5.\<close> Nothing the batcher takes is lost, doubled or reordered: at any moment what was accepted
  into a queue and not evicted is what the batches hold of it, in order, and then what still waits.
\<close>

theorem batcher_keeps_order:
  assumes "batcher_reachable s"
  shows "accepted s x =
    map snd (filter (\<lambda>(y, _). y = x) (concat (sent s) @ batch s)) @ waiting s x"
  using batcher_reachable_inv [OF assms] by (simp add: batcher_inv_def fifo_inv_def taken_def)

lemma batcher_keeps_order_witness: "accepted afterTake StateQ = [5] @ [6]"
  using batcher_keeps_order [OF afterTake_reachable, of StateQ]
  by (simp add: afterTake_def afterArrivals_def initBatcher_def)

text \<open>
  \<^bold>\<open>C7.\<close> A flood of priority events does not starve the bulk events: while one waits, at most
  eight priority messages are taken before the bulk queue is served.
\<close>

theorem bulk_not_starved:
  assumes "batcher_reachable s"
  shows "bulkWait s \<le> 8"
proof -
  have inv: "fifo_inv s" "burst_inv s"
    using batcher_reachable_inv [OF assms] by (simp_all add: batcher_inv_def)
  show ?thesis
  proof (cases "listening s BulkQ")
    case True
    with inv(2) show ?thesis by (simp add: burst_inv_def messagePriorityBurst_def)
  next
    case False
    with inv show ?thesis by (auto simp: burst_inv_def fifo_inv_def)
  qed
qed

lemma bulk_not_starved_witness: "bulkWait afterTake \<le> 8"
  using bulk_not_starved [OF afterTake_reachable] .

text \<open>
  \<^bold>\<open>C6.\<close> Once its queues are closed the batcher returns: some run ends, every run of the loop is
  bounded, whatever case its selects take, and where it has returned every message accepted and not
  evicted has been sent, in order.
\<close>

theorem batcher_shutdown:
  assumes "batcher_reachable s" and "\<forall>x. closed s x"
  shows "(\<exists>n t. batcher_run n s t \<and> pc t = Returned) \<and>
    (batcher_run n s t \<longrightarrow> n \<le> drainMeasure s) \<and>
    (batcher_run n s t \<and> pc t = Returned \<longrightarrow>
       map snd (filter (\<lambda>(y, _). y = x) (concat (sent t))) = accepted s x)"
proof -
  note inv = batcher_reachable_inv [OF assms(1)] batcher_reachable_live [OF assms(1)]
  have "\<exists>n t. batcher_run n s t \<and> pc t = Returned"
    using batcher_drains [OF inv assms(2)] .
  then show ?thesis
    using batcher_run_invs [OF _ inv, of n t] returned_delivered [of t] by auto
qed

definition closedBatcher :: "nat batcher" where
  "closedBatcher = afterTake\<lparr>closed := (\<lambda>_. True)\<rparr>"

lemma closedBatcher_reachable: "batcher_reachable closedBatcher"
proof -
  have closes: "batcher_reachable s \<Longrightarrow> batcher_reachable (s\<lparr>closed := (closed s)(x := True)\<rparr>)"
    for s :: "nat batcher" and x
    by (blast intro: batcher_reachable.step close_queue)
  have "(closed afterTake)(StateQ := True, PriorityQ := True, BulkQ := True) = (\<lambda>_. True)"
    by (auto simp: fun_eq_iff) (metis source.exhaust)
  with closes [OF closes [OF closes [OF afterTake_reachable, of StateQ], of PriorityQ], of BulkQ]
  show ?thesis by (simp add: closedBatcher_def)
qed

lemma batcher_shutdown_witness:
  "\<exists>n t. batcher_run n closedBatcher t \<and> pc t = Returned \<and>
     map snd (filter (\<lambda>(y, _). y = StateQ) (concat (sent t))) = [5, 6]"
proof -
  have all: "\<forall>x. closed closedBatcher x"
    by (simp add: closedBatcher_def)
  have "accepted closedBatcher StateQ = [5, 6]"
    by (simp add: closedBatcher_def afterTake_def afterArrivals_def)
  with batcher_shutdown [OF closedBatcher_reachable all, where x = StateQ] show ?thesis
    by metis
qed

end
