(* ===== verification/Ipc.thy ===== *)
theory Ipc
  imports Prelude "HOL-Library.Sublist"
begin

section \<open>The desktop transport (\<open>core/server.go\<close>)\<close>

text \<open>
  Frames of a little-endian length and a payload over a byte stream to the host. The connection is
  the operating system's: \<open>conn\<close> records the bytes it has accepted (\<open>wire\<close>) and a script of how
  its next writes and deadlines will turn out, so that short writes, stalls and failures are all
  covered. A write for which the script has no outcome has not returned yet: the operations answer
  \<open>None\<close> then.
\<close>

subsection \<open>Frames\<close>

datatype ioError =
    IoEOF | IoUnexpectedEOF | IoTimeout | IoShortWrite | IoFrameTooLarge | IoHard string

definition maxIPCFrameSize :: nat where "maxIPCFrameSize = 64 * 1024 * 1024"

text \<open>\<open>binary.LittleEndian.PutUint32(lenBuf, uint32(n))\<close> and its inverse.\<close>

definition putUint32 :: "nat \<Rightarrow> bytes" where
  "putUint32 n = [char_of (n mod 256), char_of (n div 256 mod 256),
     char_of (n div 65536 mod 256), char_of (n div 16777216 mod 256)]"

definition getUint32 :: "bytes \<Rightarrow> nat" where
  "getUint32 b = of_char (b ! 0) + 256 * of_char (b ! 1) + 65536 * of_char (b ! 2) +
     16777216 * of_char (b ! 3)"

definition frame :: "bytes \<Rightarrow> bytes" where
  "frame d = putUint32 (length d) @ d"

text \<open>\<open>io.ReadFull\<close> of \<open>n\<close> bytes from a stream that ends after \<open>bs\<close>.\<close>

definition readFull :: "nat \<Rightarrow> bytes \<Rightarrow> (ioError, bytes \<times> bytes) result" where
  "readFull n bs =
     (if n \<le> length bs then Inr (take n bs, drop n bs)
      else if bs = [] then Inl IoEOF else Inl IoUnexpectedEOF)"

definition readFrame :: "bytes \<Rightarrow> (ioError, bytes \<times> bytes) result" where
  "readFrame bs =
     (case readFull 4 bs of
        Inl e \<Rightarrow> Inl e
      | Inr (lenBuf, rest) \<Rightarrow>
          (let n = getUint32 lenBuf in
           if n > maxIPCFrameSize then Inl IoFrameTooLarge else readFull n rest))"

lemma length_putUint32 [simp]: "length (putUint32 n) = 4"
  by (simp add: putUint32_def)

lemma getUint32_put:
  assumes "n < 2 ^ 32"
  shows "getUint32 (putUint32 n) = n"
proof -
  define a b c where "a = n div 256" and "b = a div 256" and "c = b div 256"
  have div: "n div 65536 = b" "n div 16777216 = c"
    by (simp_all add: a_def b_def c_def flip: div_mult2_eq)
  have "c < 256"
    using assms by (simp add: less_mult_imp_div_less flip: div(2))
  moreover have "n = n mod 256 + 256 * a" "a = a mod 256 + 256 * b" "b = b mod 256 + 256 * c"
    by (simp_all add: a_def b_def c_def)
  ultimately have "n mod 256 + 256 * (a mod 256) + 65536 * (b mod 256) + 16777216 * (c mod 256) = n"
    by simp
  then show ?thesis
    by (simp add: getUint32_def putUint32_def div flip: a_def)
qed

lemma readFrame_frame:
  assumes "length d \<le> maxIPCFrameSize"
  shows "readFrame (frame d @ rest) = Inr (d, rest)"
  using assms by (simp add: readFrame_def readFull_def frame_def getUint32_put maxIPCFrameSize_def)

lemma readFrame_empty: "readFrame [] = Inl IoEOF"
  by (simp add: readFrame_def readFull_def)

lemma readFrame_shrinks: "readFrame bs = Inr (d, rest) \<Longrightarrow> length rest < length bs"
  by (auto simp: readFrame_def readFull_def Let_def split: if_splits)

subsection \<open>A stream of frames\<close>

text \<open>What repeated decoding reads off a stream, and the error that ends it.\<close>

inductive delivers ::
  "(bytes \<Rightarrow> (ioError, bytes \<times> bytes) result) \<Rightarrow> bytes \<Rightarrow> bytes list \<Rightarrow> ioError \<Rightarrow> bool"
  for dec :: "bytes \<Rightarrow> (ioError, bytes \<times> bytes) result" where
  stops: "dec bs = Inl e \<Longrightarrow> delivers dec bs [] e"
| reads: "dec bs = Inr (d, rest) \<Longrightarrow> delivers dec rest ds e \<Longrightarrow> delivers dec bs (d # ds) e"

locale frame_codec =
  fixes enc :: "bytes \<Rightarrow> bytes"
    and dec :: "bytes \<Rightarrow> (ioError, bytes \<times> bytes) result"
    and fits :: "bytes \<Rightarrow> bool"
  assumes dec_enc: "fits d \<Longrightarrow> dec (enc d @ rest) = Inr (d, rest)"
    and dec_end: "dec [] = Inl IoEOF"
begin

lemma stream_delivers:
  assumes "\<forall>d \<in> set ds. fits d" and "dec tail = Inl e"
  shows "delivers dec (concat (map enc ds) @ tail) ds e"
  using assms by (induction ds) (auto intro: delivers.intros simp: dec_enc)

end

interpretation fc: frame_codec frame readFrame "\<lambda>d. length d \<le> maxIPCFrameSize"
  by unfold_locales (simp_all add: readFrame_frame readFrame_empty)

text \<open>
  \<open>serve\<close>: frames are read until an error, decoded as method calls (\<open>json.Unmarshal\<close> is the
  argument) and dispatched in order; a frame that does not decode is logged and skipped.
\<close>

function serveLoop :: "(bytes \<Rightarrow> 'call option) \<Rightarrow> bytes \<Rightarrow> 'call list \<times> ioError" where
  "serveLoop unmarshal bs =
     (case readFrame bs of
        Inl e \<Rightarrow> ([], e)
      | Inr (d, rest) \<Rightarrow>
          (case unmarshal d of
             None \<Rightarrow> serveLoop unmarshal rest
           | Some call \<Rightarrow>
               (case serveLoop unmarshal rest of (calls, e) \<Rightarrow> (call # calls, e))))"
  by pat_completeness auto
termination
  by (relation "measure (\<lambda>(_, bs). length bs)") (auto dest: readFrame_shrinks)

declare serveLoop.simps [simp del]

lemma serveLoop_delivers:
  "delivers readFrame bs ds e \<Longrightarrow> serveLoop unmarshal bs = (List.map_filter unmarshal ds, e)"
proof (induction rule: delivers.induct)
  case (stops bs e)
  then show ?case by (subst serveLoop.simps) (simp add: map_filter_simps)
next
  case (reads bs d rest ds e)
  then show ?case
    by (subst serveLoop.simps) (simp add: map_filter_simps split: option.split)
qed

subsection \<open>Writing\<close>

record conn =
  wire :: bytes
  outcomes :: "(nat \<times> ioError option) list"
  deadlineOk :: "bool list"

text \<open>\<open>conn.Write\<close>: accepts a prefix of the data, at most all of it.\<close>

definition connWrite :: "conn \<Rightarrow> bytes \<Rightarrow> (nat \<times> ioError option \<times> conn) option" where
  "connWrite c data =
     (case outcomes c of
        [] \<Rightarrow> None
      | (n, e) # rest \<Rightarrow>
          (let n = min n (length data) in
           Some (n, e, c\<lparr>wire := wire c @ take n data, outcomes := rest\<rparr>)))"

text \<open>\<open>conn.SetWriteDeadline\<close> succeeds unless the script says otherwise.\<close>

definition setWriteDeadline :: "conn \<Rightarrow> bool \<times> conn" where
  "setWriteDeadline c =
     (case deadlineOk c of [] \<Rightarrow> (True, c) | b # bs \<Rightarrow> (b, c\<lparr>deadlineOk := bs\<rparr>))"

definition isWriteTimeout :: "ioError \<Rightarrow> bool" where
  "isWriteTimeout e \<longleftrightarrow> e = IoTimeout"

text \<open>\<open>resumingWriter\<close>: the connection and the bytes of this frame written so far.\<close>

record resumingWriter =
  rw_conn :: conn
  rw_written :: nat

definition resume :: "resumingWriter \<Rightarrow> ioError \<Rightarrow> bool \<times> resumingWriter" where
  "resume w e =
     (if rw_written w = 0 \<or> \<not> isWriteTimeout e then (False, w)
      else (case setWriteDeadline (rw_conn w) of (ok, c) \<Rightarrow> (ok, w\<lparr>rw_conn := c\<rparr>)))"

lemma connWrite_shrinks:
  "connWrite c data = Some (n, e, c') \<Longrightarrow> length (outcomes c') < length (outcomes c)"
  by (auto simp: connWrite_def Let_def split: list.splits)

lemma resume_outcomes:
  "resume w e = (ok, w') \<Longrightarrow> outcomes (rw_conn w') = outcomes (rw_conn w)"
  "resume w e = (ok, w') \<Longrightarrow> wire (rw_conn w') = wire (rw_conn w)"
  "resume w e = (ok, w') \<Longrightarrow> rw_written w' = rw_written w"
  by (auto simp: resume_def setWriteDeadline_def split: if_splits list.splits)

text \<open>The loop of \<open>Write\<close>; \<open>accepted\<close> bytes of \<open>data\<close> are out already.\<close>

function rwLoop ::
  "resumingWriter \<Rightarrow> nat \<Rightarrow> bytes \<Rightarrow> (resumingWriter \<times> nat \<times> ioError option) option" where
  "rwLoop w accepted data =
     (case connWrite (rw_conn w) (drop accepted data) of
        None \<Rightarrow> None
      | Some (n, e, c) \<Rightarrow>
          (let accepted = accepted + n;
               w = w\<lparr>rw_conn := c, rw_written := rw_written w + n\<rparr>
           in case e of
                None \<Rightarrow> Some (w, accepted, None)
              | Some err \<Rightarrow>
                  if accepted \<ge> length data then Some (w, accepted, Some err)
                  else (case resume w err of
                          (ok, w) \<Rightarrow>
                            if \<not> ok then Some (w, accepted, Some err)
                            else rwLoop w accepted data)))"
  by pat_completeness auto
termination
  by (relation "measure (\<lambda>(w, _, _). length (outcomes (rw_conn w)))")
    (auto dest!: connWrite_shrinks dest: resume_outcomes(1) [OF sym])

declare rwLoop.simps [simp del]

definition rwWrite ::
  "resumingWriter \<Rightarrow> bytes \<Rightarrow> (resumingWriter \<times> nat \<times> ioError option) option" where
  "rwWrite w data = rwLoop w 0 data"

text \<open>\<open>writeAll\<close>: a write that takes nothing without an error is \<open>io.ErrShortWrite\<close>.\<close>

function writeAll ::
  "resumingWriter \<Rightarrow> bytes \<Rightarrow> (resumingWriter \<times> nat \<times> ioError option) option" where
  "writeAll w data =
     (if data = [] then Some (w, 0, None)
      else (case rwWrite w data of
              None \<Rightarrow> None
            | Some (w, n, Some e) \<Rightarrow> Some (w, n, Some e)
            | Some (w, n, None) \<Rightarrow>
                if n = 0 then Some (w, 0, Some IoShortWrite)
                else map_option (\<lambda>(w, m, e). (w, n + m, e)) (writeAll w (drop n data))))"
  by pat_completeness auto
termination
  by (relation "measure (\<lambda>(_, data). length data)") auto

declare writeAll.simps [simp del]

definition writeFrame ::
  "resumingWriter \<Rightarrow> bytes \<Rightarrow> (resumingWriter \<times> nat \<times> ioError option) option" where
  "writeFrame w data =
     (if length data > maxIPCFrameSize then Some (w, 0, Some IoFrameTooLarge)
      else (case writeAll w (putUint32 (length data)) of
              None \<Rightarrow> None
            | Some (w, written, Some e) \<Rightarrow> Some (w, written, Some e)
            | Some (w, written, None) \<Rightarrow>
                map_option (\<lambda>(w, n, e). (w, written + n, e)) (writeAll w data)))"

text \<open>What is on the wire after a write is the part of the data it reports.\<close>

definition wrote :: "resumingWriter \<Rightarrow> bytes \<Rightarrow> nat \<Rightarrow> resumingWriter \<Rightarrow> bool" where
  "wrote w data n w' \<longleftrightarrow>
     n \<le> length data \<and> wire (rw_conn w') = wire (rw_conn w) @ take n data \<and>
     rw_written w' = rw_written w + n"

lemma wrote_none [simp]: "wrote w data 0 w"
  by (simp add: wrote_def)

lemma wrote_trans:
  assumes "wrote w data n w'" and "wrote w' (drop n data) m w''"
  shows "wrote w data (n + m) w''"
  using assms by (auto simp: wrote_def take_add)

lemma wrote_append:
  assumes "wrote w hdr (length hdr) w'" and "wrote w' data m w''"
  shows "wrote w (hdr @ data) (length hdr + m) w''"
  using assms by (simp add: wrote_def)

lemma wrote_prefix: "wrote w hdr n w' \<Longrightarrow> wrote w (hdr @ data) n w'"
  by (simp add: wrote_def)

lemma connWrite_wrote:
  assumes "connWrite (rw_conn w) data = Some (n, e, c)"
  shows "wrote w data n (w\<lparr>rw_conn := c, rw_written := rw_written w + n\<rparr>)"
  using assms by (auto simp: connWrite_def wrote_def Let_def split: list.splits)

lemma resume_wrote: "resume w' e = (ok, w'') \<Longrightarrow> wrote w data n w' \<Longrightarrow> wrote w data n w''"
  by (simp add: wrote_def resume_outcomes)

lemma rwLoop_wrote:
  assumes "rwLoop w accepted data = Some (w', amount, e)"
  shows "accepted \<le> amount \<and> wrote w (drop accepted data) (amount - accepted) w'"
  using assms
proof (induction w accepted data arbitrary: w' amount e rule: rwLoop.induct)
  case (1 w accepted data)
  from "1.prems" obtain n err c where
    wr: "connWrite (rw_conn w) (drop accepted data) = Some (n, err, c)"
    by (subst (asm) rwLoop.simps) (auto split: option.splits)
  let ?w = "w\<lparr>rw_conn := c, rw_written := rw_written w + n\<rparr>"
  have first: "wrote w (drop accepted data) n ?w"
    using wr by (rule connWrite_wrote)
  show ?case
  proof (cases "\<exists>x u. err = Some x \<and> \<not> accepted + n \<ge> length data \<and> resume ?w x = (True, u)")
    case False
    then have "amount = accepted + n \<and> (w' = ?w \<or> (\<exists>x. resume ?w x = (False, w')))"
      using "1.prems" wr
      by (subst (asm) rwLoop.simps)
        (auto simp: Let_def split: option.splits if_splits prod.splits)
    with first show ?thesis by (auto intro: resume_wrote)
  next
    case True
    then obtain x u where x: "err = Some x" "\<not> accepted + n \<ge> length data" "resume ?w x = (True, u)"
      by blast
    with "1.prems" wr have again: "rwLoop u (accepted + n) data = Some (w', amount, e)"
      by (subst (asm) rwLoop.simps) (simp add: Let_def)
    have "accepted + n \<le> amount \<and> wrote u (drop (accepted + n) data) (amount - (accepted + n)) w'"
      using "1.IH" [OF wr _ _ refl refl x(1,2) _ _ again] x(3) by simp
    moreover have "wrote w (drop accepted data) n u"
      using x(3) first by (rule resume_wrote)
    ultimately show ?thesis
      using wrote_trans [of w "drop accepted data" n u "amount - (accepted + n)" w']
      by (simp add: add.commute)
  qed
qed

lemma writeAll_wrote:
  assumes "writeAll w data = Some (w', n, e)"
  shows "wrote w data n w' \<and> (e = None \<longrightarrow> n = length data)"
  using assms
proof (induction w data arbitrary: w' n e rule: writeAll.induct)
  case (1 w data)
  show ?case
  proof (cases "data = []")
    case True
    with "1.prems" show ?thesis by (subst (asm) writeAll.simps) auto
  next
    case False
    with "1.prems" obtain w1 k e1 where wr: "rwWrite w data = Some (w1, k, e1)"
      by (subst (asm) writeAll.simps) (auto split: option.splits)
    then have first: "wrote w data k w1"
      using rwLoop_wrote [of w 0 data w1 k e1] by (simp add: rwWrite_def)
    show ?thesis
    proof (cases "e1 = None \<and> k \<noteq> 0")
      case False
      with \<open>data \<noteq> []\<close> "1.prems" wr first show ?thesis
        by (subst (asm) writeAll.simps) (auto split: option.splits if_splits)
    next
      case True
      with \<open>data \<noteq> []\<close> "1.prems" wr obtain m where
        rest: "writeAll w1 (drop k data) = Some (w', m, e)" "n = k + m"
        by (subst (asm) writeAll.simps) auto
      with "1.IH" [OF \<open>data \<noteq> []\<close> wr refl refl _ _ rest(1)] True
      have "wrote w1 (drop k data) m w'" "e = None \<longrightarrow> m = length (drop k data)"
        by auto
      with first rest(2) show ?thesis
        using wrote_trans by (auto simp: wrote_def)
    qed
  qed
qed

lemma writeFrame_wrote:
  assumes "writeFrame w data = Some (w', n, e)"
  shows "wrote w (frame data) n w' \<and>
    (e = None \<longrightarrow> n = length (frame data) \<and> length data \<le> maxIPCFrameSize) \<and>
    (length data > maxIPCFrameSize \<longrightarrow> n = 0 \<and> e \<noteq> None)"
proof (cases "length data > maxIPCFrameSize")
  case True
  with assms show ?thesis by (auto simp: writeFrame_def)
next
  case False
  with assms obtain w1 k e1 where
    header: "writeAll w (putUint32 (length data)) = Some (w1, k, e1)"
    by (auto simp: writeFrame_def split: option.splits)
  note first = writeAll_wrote [OF header]
  show ?thesis
  proof (cases e1)
    case (Some x)
    with False assms header first show ?thesis
      by (auto simp: writeFrame_def frame_def intro: wrote_prefix)
  next
    case None
    with False assms header obtain m where
      body: "writeAll w1 data = Some (w', m, e)" "n = k + m"
      by (auto simp: writeFrame_def)
    from None first have "k = length (putUint32 (length data))" by simp
    with first writeAll_wrote [OF body(1)] body(2) False show ?thesis
      using wrote_append [of w "putUint32 (length data)" w1 data m w']
      by (auto simp: frame_def)
  qed
qed

subsection \<open>Sending\<close>

datatype deliveryLog = SendConnNil | DeadlineError | DroppedOneFrame ioError | WriteError nat ioError

record ipcState =
  ipc_conn :: "conn option"
  deliveryFailureReported :: bool
  stderrLog :: "deliveryLog list"
  closedConns :: "conn list"    \<comment> \<open>connections closed, the latest first\<close>

definition logDeliveryError :: "deliveryLog \<Rightarrow> ipcState \<Rightarrow> ipcState" where
  "logDeliveryError m st =
     (if deliveryFailureReported st then st
      else st\<lparr>deliveryFailureReported := True, stderrLog := stderrLog st @ [m]\<rparr>)"

text \<open>\<open>send\<close> under \<open>writeMu\<close>; \<open>None\<close> while a write has not returned.\<close>

definition send :: "bytes \<Rightarrow> ipcState \<Rightarrow> ipcState option" where
  "send data st =
     (case ipc_conn st of
        None \<Rightarrow> Some (logDeliveryError SendConnNil st)
      | Some c \<Rightarrow>
          (let (ok, c) = setWriteDeadline c;
               st = (if ok then st else logDeliveryError DeadlineError st)
           in case writeFrame \<lparr>rw_conn = c, rw_written = 0\<rparr> data of
                None \<Rightarrow> None
              | Some (w, written, None) \<Rightarrow>
                  Some (st\<lparr>ipc_conn := Some (rw_conn w), deliveryFailureReported := False\<rparr>)
              | Some (w, written, Some e) \<Rightarrow>
                  if written = 0
                  then Some (logDeliveryError (DroppedOneFrame e) (st\<lparr>ipc_conn := Some (rw_conn w)\<rparr>))
                  else Some ((logDeliveryError (WriteError written e) st)
                         \<lparr>ipc_conn := None, closedConns := rw_conn w # closedConns st\<rparr>)))"

text \<open>Was the frame handed over in full and without an error?\<close>

definition sentOk :: "bytes \<Rightarrow> ipcState \<Rightarrow> bool" where
  "sentOk data st =
     (case ipc_conn st of
        None \<Rightarrow> False
      | Some c \<Rightarrow>
          (case writeFrame \<lparr>rw_conn = snd (setWriteDeadline c), rw_written = 0\<rparr> data of
             Some (_, _, None) \<Rightarrow> True
           | _ \<Rightarrow> False))"

fun sendAll :: "bytes list \<Rightarrow> ipcState \<Rightarrow> (ipcState \<times> bytes list) option" where
  "sendAll [] st = Some (st, [])"
| "sendAll (d # ds) st =
     (case send d st of
        None \<Rightarrow> None
      | Some st' \<Rightarrow>
          map_option (\<lambda>(u, dones). (u, if sentOk d st then d # dones else dones)) (sendAll ds st'))"

lemma logDeliveryError_frame [simp]:
  "ipc_conn (logDeliveryError m st) = ipc_conn st"
  "closedConns (logDeliveryError m st) = closedConns st"
  by (simp_all add: logDeliveryError_def)

lemma setWriteDeadline_wire:
  "setWriteDeadline c = (ok, c') \<Longrightarrow> wire c' = wire c"
  by (auto simp: setWriteDeadline_def split: list.splits)

text \<open>
  The stream is in step: the open connection holds whole frames only, and one that was closed in
  the middle of a frame is never written again.
\<close>

definition stream_of :: "bytes list \<Rightarrow> ipcState \<Rightarrow> bool" where
  "stream_of ds st \<longleftrightarrow>
     (case ipc_conn st of
        Some c \<Rightarrow> closedConns st = [] \<and> wire c = concat (map frame ds)
      | None \<Rightarrow> (\<exists>c d n. closedConns st = [c] \<and> length d \<le> maxIPCFrameSize \<and>
          wire c = concat (map frame ds) @ take n (frame d)))"

lemma stream_of_log [simp]: "stream_of ds (logDeliveryError m st) = stream_of ds st"
  by (cases "ipc_conn st") (simp_all add: stream_of_def)

lemma send_stream:
  assumes "send d st = Some st'" and "stream_of ds st"
  shows "stream_of (if sentOk d st then ds @ [d] else ds) st'"
proof (cases "ipc_conn st")
  case None
  with assms show ?thesis
    by (auto simp: send_def sentOk_def)
next
  case (Some c)
  obtain ok c1 where dl: "setWriteDeadline c = (ok, c1)" by fastforce
  with Some assms(1) obtain w n e where
    wf: "writeFrame \<lparr>rw_conn = c1, rw_written = 0\<rparr> d = Some (w, n, e)"
    by (auto simp: send_def Let_def split: option.splits)
  have wire: "wire (rw_conn w) = concat (map frame ds) @ take n (frame d)"
    using writeFrame_wrote [OF wf] assms(2) Some setWriteDeadline_wire [OF dl]
    by (simp add: wrote_def stream_of_def)
  show ?thesis
  proof (cases e)
    case None
    with wf wire writeFrame_wrote [OF wf] Some dl assms show ?thesis
      by (auto simp: send_def sentOk_def stream_of_def Let_def)
  next
    case err: (Some x)
    then have fail: "\<not> sentOk d st"
      using wf Some dl by (simp add: sentOk_def)
    show ?thesis
    proof (cases "n = 0")
      case True
      with wf wire err fail Some dl assms show ?thesis
        by (auto simp: send_def stream_of_def Let_def)
    next
      case False
      with wf err fail Some dl assms have
        "ipc_conn st' = None" "closedConns st' = [rw_conn w]"
        by (auto simp: send_def stream_of_def Let_def)
      moreover have "length d \<le> maxIPCFrameSize"
        using writeFrame_wrote [OF wf] False not_le by blast
      ultimately show ?thesis using wire fail by (auto simp: stream_of_def)
    qed
  qed
qed

lemma sendAll_stream:
  assumes "sendAll ds st = Some (st', dones)" and "stream_of sent st"
  shows "stream_of (sent @ dones) st'"
  using assms
proof (induction ds arbitrary: st sent dones)
  case Nil
  then show ?case by simp
next
  case (Cons d ds)
  from Cons.prems(1) obtain u more where
    step: "send d st = Some u" "sendAll ds u = Some (st', more)"
    and split: "dones = (if sentOk d st then d # more else more)"
    by (auto split: option.splits)
  from send_stream [OF step(1) Cons.prems(2)] Cons.IH [OF step(2)] split show ?case
    by (fastforce split: if_splits)
qed

lemma sentOk_fits: "sentOk d st \<Longrightarrow> length d \<le> maxIPCFrameSize"
  using writeFrame_wrote by (fastforce simp: sentOk_def split: option.splits prod.splits)

lemma sendAll_fits:
  "sendAll ds st = Some (st', dones) \<Longrightarrow> \<forall>d \<in> set dones. length d \<le> maxIPCFrameSize"
  by (induction ds arbitrary: st dones)
    (fastforce dest: sentOk_fits split: option.splits if_splits)+

text \<open>A frame cut short cannot be read.\<close>

lemma readFrame_partial:
  assumes "n < length (frame d)" and "length d \<le> maxIPCFrameSize"
  shows "\<exists>e. readFrame (take n (frame d)) = Inl e"
proof (cases "n < 4")
  case True
  then show ?thesis
    by (auto simp: readFrame_def readFull_def frame_def)
next
  case False
  then have "take n (frame d) = putUint32 (length d) @ take (n - 4) d"
    by (simp add: frame_def)
  with assms False show ?thesis
    by (auto simp: readFrame_def readFull_def getUint32_put maxIPCFrameSize_def frame_def Let_def)
qed

lemma partial_delivers:
  assumes "length d \<le> maxIPCFrameSize"
  shows "\<exists>extra e. delivers readFrame (take n (frame d)) extra e \<and> length extra \<le> 1"
proof (cases "n < length (frame d)")
  case True
  with assms obtain e where "readFrame (take n (frame d)) = Inl e"
    using readFrame_partial by blast
  then have "delivers readFrame (take n (frame d)) [] e"
    by (rule delivers.stops)
  then show ?thesis by force
next
  case False
  then have "take n (frame d) = concat (map frame [d]) @ []" by simp
  with assms have "delivers readFrame (take n (frame d)) [d] IoEOF"
    using fc.stream_delivers [of "[d]" "[]" IoEOF] readFrame_empty by simp
  then show ?thesis by force
qed

lemma delivers_append:
  assumes "\<forall>d \<in> set ds. length d \<le> maxIPCFrameSize" and "delivers readFrame tail extra e"
  shows "delivers readFrame (concat (map frame ds) @ tail) (ds @ extra) e"
  using assms by (induction ds) (auto intro: delivers.intros simp: readFrame_frame)

text \<open>What the host reads off a stream that is in step.\<close>

lemma stream_of_delivers:
  assumes "stream_of ds st" and "\<forall>d \<in> set ds. length d \<le> maxIPCFrameSize"
  shows "case ipc_conn st of
      Some c \<Rightarrow> delivers readFrame (wire c) ds IoEOF
    | None \<Rightarrow> \<exists>c extra e. closedConns st = [c] \<and> length extra \<le> 1 \<and>
        delivers readFrame (wire c) (ds @ extra) e"
proof (cases "ipc_conn st")
  case None
  with assms(1) obtain c d n where c: "closedConns st = [c]" "length d \<le> maxIPCFrameSize"
    "wire c = concat (map frame ds) @ take n (frame d)"
    by (auto simp: stream_of_def)
  from partial_delivers [OF c(2), of n] obtain extra e where
    "delivers readFrame (take n (frame d)) extra e" "length extra \<le> 1"
    by blast
  with delivers_append [OF assms(2)] c None show ?thesis by fastforce
next
  case (Some c)
  with assms fc.stream_delivers [OF assms(2), of "[]" IoEOF] show ?thesis
    by (simp add: stream_of_def readFrame_empty)
qed

lemma sendAll_subseq: "sendAll ds st = Some (st', dones) \<Longrightarrow> subseq dones ds"
  by (induction ds arbitrary: st dones) (auto split: option.splits if_splits)

subsection \<open>What the transport promises\<close>

text \<open>
  A payload within the limit of 64 MiB is read back as it was framed, whatever follows it on
  the stream; a longer one is refused before a byte of it is written.
\<close>

lemma frame_roundtrip:
  "(if length d \<le> maxIPCFrameSize then readFrame (frame d @ rest) = Inr (d, rest)
    else writeFrame w d = Some (w, 0, Some IoFrameTooLarge))"
  by (simp add: readFrame_frame writeFrame_def)

text \<open>
  \<^bold>\<open>C2.\<close> However the writes to the host turn out, cut short, timed out, resumed or failed, the frames
  it reads are those whose send succeeded, in the order of the sends. If a frame broke off in the
  middle the connection was closed, and what the host still reads of it is at most that one frame,
  when every byte of it had been accepted.
\<close>

theorem host_reads_the_sent_frames:
  assumes "sendAll ds \<lparr>ipc_conn = Some c, deliveryFailureReported = False, stderrLog = [],
      closedConns = []\<rparr> = Some (st, dones)"
    and "wire c = []"
  shows "subseq dones ds \<and>
    (case ipc_conn st of
       Some c' \<Rightarrow> delivers readFrame (wire c') dones IoEOF
     | None \<Rightarrow> \<exists>c' extra e. closedConns st = [c'] \<and> length extra \<le> 1 \<and>
         delivers readFrame (wire c') (dones @ extra) e)"
proof -
  have "stream_of [] \<lparr>ipc_conn = Some c, deliveryFailureReported = False, stderrLog = [],
      closedConns = []\<rparr>"
    using assms(2) by (simp add: stream_of_def)
  from sendAll_stream [OF assms(1) this] have "stream_of dones st"
    by simp
  with sendAll_fits [OF assms(1)] stream_of_delivers [of dones st] sendAll_subseq [OF assms(1)]
  show ?thesis by blast
qed

text \<open>
  Two sends: the first write stalls after five of six bytes and is resumed, the second breaks off
  after the header.
\<close>

definition stallingConn :: conn where
  "stallingConn = \<lparr>wire = [], outcomes = [(3, Some IoTimeout), (1, None), (1, Some IoTimeout),
     (1, None), (4, None), (1, Some (IoHard ''EPIPE''))], deadlineOk = []\<rparr>"

definition okConn :: conn where
  "okConn = \<lparr>wire = frame ''ok'', outcomes = [(4, None), (1, Some (IoHard ''EPIPE''))],
     deadlineOk = []\<rparr>"

definition brokenConn :: conn where
  "brokenConn = \<lparr>wire = frame ''ok'' @ putUint32 2 @ ''n'', outcomes = [], deadlineOk = []\<rparr>"

lemma writeAll_Nil: "writeAll w [] = Some (w, 0, None)"
  by (subst writeAll.simps) simp

lemma writeAll_Cons:
  "writeAll w (x # xs) =
     (case rwWrite w (x # xs) of
        None \<Rightarrow> None
      | Some (w, n, Some e) \<Rightarrow> Some (w, n, Some e)
      | Some (w, n, None) \<Rightarrow>
          if n = 0 then Some (w, 0, Some IoShortWrite)
          else map_option (\<lambda>(w, m, e). (w, n + m, e)) (writeAll w (drop n (x # xs))))"
  by (subst writeAll.simps) simp

lemma connWrite_takes:
  "outcomes c = (n, e) # os \<Longrightarrow> connWrite c data =
     Some (min n (length data), e, c\<lparr>wire := wire c @ take (min n (length data)) data, outcomes := os\<rparr>)"
  by (simp add: connWrite_def Let_def)

lemma rwLoop_done:
  assumes "connWrite (rw_conn w) (drop a data) = Some (n, e, c)"
    and "e = None \<or> e = Some (IoHard x)"
  shows "rwLoop w a data = Some (w\<lparr>rw_conn := c, rw_written := rw_written w + n\<rparr>, a + n, e)"
  using assms
  by (subst rwLoop.simps) (auto simp: Let_def resume_def isWriteTimeout_def)

lemma rwLoop_stalls:
  assumes "connWrite (rw_conn w) (drop a data) = Some (n, Some IoTimeout, c)"
    and "a + n < length data" and "0 < rw_written w + n" and "deadlineOk c = []"
  shows "rwLoop w a data = rwLoop (w\<lparr>rw_conn := c, rw_written := rw_written w + n\<rparr>) (a + n) data"
  using assms
  by (cases w, subst rwLoop.simps)
    (auto simp: Let_def resume_def isWriteTimeout_def setWriteDeadline_def)

lemmas write_run = writeFrame_def maxIPCFrameSize_def writeAll_Nil writeAll_Cons rwWrite_def
  connWrite_takes rwLoop_done rwLoop_stalls putUint32_def

lemma host_reads_the_sent_frames_witness:
  "sendAll [''ok'', ''no''] \<lparr>ipc_conn = Some stallingConn, deliveryFailureReported = False,
      stderrLog = [], closedConns = []\<rparr> =
    Some (\<lparr>ipc_conn = None, deliveryFailureReported = True,
      stderrLog = [WriteError 5 (IoHard ''EPIPE'')], closedConns = [brokenConn]\<rparr>, [''ok'']) \<and>
   (\<exists>extra e. length extra \<le> 1 \<and> delivers readFrame (wire brokenConn) (''ok'' # extra) e)"
proof -
  have "writeFrame \<lparr>rw_conn = stallingConn, rw_written = 0\<rparr> ''ok'' =
      Some (\<lparr>rw_conn = okConn, rw_written = 6\<rparr>, 6, None)"
    by (simp add: stallingConn_def okConn_def frame_def write_run)
  moreover have "writeFrame \<lparr>rw_conn = okConn, rw_written = 0\<rparr> ''no'' =
      Some (\<lparr>rw_conn = brokenConn, rw_written = 5\<rparr>, 5, Some (IoHard ''EPIPE''))"
    by (simp add: okConn_def brokenConn_def frame_def write_run)
  moreover have "setWriteDeadline stallingConn = (True, stallingConn)"
    "setWriteDeadline okConn = (True, okConn)"
    by (simp_all add: setWriteDeadline_def stallingConn_def okConn_def)
  ultimately have run: "sendAll [''ok'', ''no''] \<lparr>ipc_conn = Some stallingConn,
      deliveryFailureReported = False, stderrLog = [], closedConns = []\<rparr> =
    Some (\<lparr>ipc_conn = None, deliveryFailureReported = True,
      stderrLog = [WriteError 5 (IoHard ''EPIPE'')], closedConns = [brokenConn]\<rparr>, [''ok''])"
    by (simp add: send_def sentOk_def logDeliveryError_def)
  have "wire stallingConn = []" by (simp add: stallingConn_def)
  from host_reads_the_sent_frames [OF run this] run show ?thesis by auto
qed

text \<open>
  Of a stream of whole frames, possibly ended inside one, the server dispatches exactly the
  frames that decode, in order, and skips the others; it stops at the end of the stream.
\<close>

lemma serve_dispatches_in_order:
  assumes "\<forall>d \<in> set ds. length d \<le> maxIPCFrameSize"
    and "length broken \<le> maxIPCFrameSize" and "n < length (frame broken)"
  shows "fst (serveLoop unmarshal (concat (map frame ds) @ take n (frame broken))) =
    List.map_filter unmarshal ds"
proof -
  obtain e where "readFrame (take n (frame broken)) = Inl e"
    using readFrame_partial [OF assms(3,2)] by blast
  then have "delivers readFrame (concat (map frame ds) @ take n (frame broken)) ds e"
    using fc.stream_delivers [OF assms(1)] by blast
  then show ?thesis by (simp add: serveLoop_delivers)
qed

end
