(* ===== verification/Dispatch.thy ===== *)
theory Dispatch
  imports GoStrings
begin

section \<open>Method calls (\<open>core/protocol.go\<close>, \<open>core/method.go\<close>, \<open>core/spill.go\<close>)\<close>

text \<open>
  The names of the methods, the table of their handlers, the way a call's arguments are decoded,
  and the reply: whatever a handler does, a returned value, an error or a panic, the caller gets
  one encoded response under its own id, moved to a file when it is too long for the transport.
  A handler is a function of the call and of the core's state \<open>'st\<close>; JSON coding and the file
  system are arguments.
\<close>

subsection \<open>Methods\<close>

datatype coreMethod =
    CoreInitMethod
  | CoreInitializedMethod
  | CoreGCMethod
  | CoreMemoryMethod
  | CoreCrashMethod
  | ConfigSetupMethod
  | ConfigUpdateMethod
  | ConfigValidateMethod
  | ConfigDecryptMethod
  | ConfigReadMethod
  | ProfileBaseMethod
  | ProfileOutboundsMethod
  | ProfileBuildMethod
  | ProfileClearEffectMethod
  | ProxyListMethod
  | ProxySelectMethod
  | ProxyDefinitionMethod
  | ProxyTestDelayMethod
  | ProxyValidateMethod
  | ProxyConvertMethod
  | ShareLinkEncodeMethod
  | ShareLinkDecodeMethod
  | FilterValidateMethod
  | ProviderListMethod
  | ProviderGetMethod
  | ProviderUpdateMethod
  | ProviderSideLoadMethod
  | RuleSetDumpMethod
  | RuleSetCompileMethod
  | GeoUpdateMethod
  | TrafficCurrentMethod
  | TrafficTotalMethod
  | TrafficResetMethod
  | ConnectionListMethod
  | ConnectionCountMethod
  | ConnectionCloseMethod
  | ConnectionCloseAllMethod
  | ConnectionResetMethod
  | DnsClearCacheMethod
  | NetworkChangedMethod
  | LogStartMethod
  | LogStopMethod
  | ListenerStartMethod
  | ListenerStopMethod
  | RouteWatchMethod
  | RouteCheckMethod
  | ProbeOutboundIPMethod
  | ProbeServicesMethod
  | MitmCertificateMethod
  | MitmGenerateCertificateMethod
  | MitmValidateMethod
  | MitmIssueCertificateMethod
  | MitmRunScriptMethod
  | MitmExchangesMethod
  | MitmExchangeMethod
  | MitmBodyMethod
  | MessageMethod

fun methodName :: "coreMethod \<Rightarrow> string" where
  "methodName CoreInitMethod = ''core.init''"
| "methodName CoreInitializedMethod = ''core.initialized''"
| "methodName CoreGCMethod = ''core.gc''"
| "methodName CoreMemoryMethod = ''core.memory''"
| "methodName CoreCrashMethod = ''core.crash''"
| "methodName ConfigSetupMethod = ''config.setup''"
| "methodName ConfigUpdateMethod = ''config.update''"
| "methodName ConfigValidateMethod = ''config.validate''"
| "methodName ConfigDecryptMethod = ''config.decrypt''"
| "methodName ConfigReadMethod = ''config.read''"
| "methodName ProfileBaseMethod = ''profile.base''"
| "methodName ProfileOutboundsMethod = ''profile.outbounds''"
| "methodName ProfileBuildMethod = ''profile.build''"
| "methodName ProfileClearEffectMethod = ''profile.clearEffect''"
| "methodName ProxyListMethod = ''proxy.list''"
| "methodName ProxySelectMethod = ''proxy.select''"
| "methodName ProxyDefinitionMethod = ''proxy.definition''"
| "methodName ProxyTestDelayMethod = ''proxy.testDelay''"
| "methodName ProxyValidateMethod = ''proxy.validate''"
| "methodName ProxyConvertMethod = ''proxy.convert''"
| "methodName ShareLinkEncodeMethod = ''shareLink.encode''"
| "methodName ShareLinkDecodeMethod = ''shareLink.decode''"
| "methodName FilterValidateMethod = ''filter.validate''"
| "methodName ProviderListMethod = ''provider.list''"
| "methodName ProviderGetMethod = ''provider.get''"
| "methodName ProviderUpdateMethod = ''provider.update''"
| "methodName ProviderSideLoadMethod = ''provider.sideLoad''"
| "methodName RuleSetDumpMethod = ''ruleSet.dump''"
| "methodName RuleSetCompileMethod = ''ruleSet.compile''"
| "methodName GeoUpdateMethod = ''geo.update''"
| "methodName TrafficCurrentMethod = ''traffic.current''"
| "methodName TrafficTotalMethod = ''traffic.total''"
| "methodName TrafficResetMethod = ''traffic.reset''"
| "methodName ConnectionListMethod = ''connection.list''"
| "methodName ConnectionCountMethod = ''connection.count''"
| "methodName ConnectionCloseMethod = ''connection.close''"
| "methodName ConnectionCloseAllMethod = ''connection.closeAll''"
| "methodName ConnectionResetMethod = ''connection.reset''"
| "methodName DnsClearCacheMethod = ''dns.clearCache''"
| "methodName NetworkChangedMethod = ''network.changed''"
| "methodName LogStartMethod = ''log.start''"
| "methodName LogStopMethod = ''log.stop''"
| "methodName ListenerStartMethod = ''listener.start''"
| "methodName ListenerStopMethod = ''listener.stop''"
| "methodName RouteWatchMethod = ''route.watch''"
| "methodName RouteCheckMethod = ''route.check''"
| "methodName ProbeOutboundIPMethod = ''probe.outboundIp''"
| "methodName ProbeServicesMethod = ''probe.services''"
| "methodName MitmCertificateMethod = ''mitm.certificate''"
| "methodName MitmGenerateCertificateMethod = ''mitm.generateCertificate''"
| "methodName MitmValidateMethod = ''mitm.validate''"
| "methodName MitmIssueCertificateMethod = ''mitm.issueCertificate''"
| "methodName MitmRunScriptMethod = ''mitm.runScript''"
| "methodName MitmExchangesMethod = ''mitm.exchanges''"
| "methodName MitmExchangeMethod = ''mitm.exchange''"
| "methodName MitmBodyMethod = ''mitm.body''"
| "methodName MessageMethod = ''message''"

definition coreMethods :: "coreMethod list" where
  "coreMethods =
     [CoreInitMethod,
      CoreInitializedMethod,
      CoreGCMethod,
      CoreMemoryMethod,
      CoreCrashMethod,
      ConfigSetupMethod,
      ConfigUpdateMethod,
      ConfigValidateMethod,
      ConfigDecryptMethod,
      ConfigReadMethod,
      ProfileBaseMethod,
      ProfileOutboundsMethod,
      ProfileBuildMethod,
      ProfileClearEffectMethod,
      ProxyListMethod,
      ProxySelectMethod,
      ProxyDefinitionMethod,
      ProxyTestDelayMethod,
      ProxyValidateMethod,
      ProxyConvertMethod,
      ShareLinkEncodeMethod,
      ShareLinkDecodeMethod,
      FilterValidateMethod,
      ProviderListMethod,
      ProviderGetMethod,
      ProviderUpdateMethod,
      ProviderSideLoadMethod,
      RuleSetDumpMethod,
      RuleSetCompileMethod,
      GeoUpdateMethod,
      TrafficCurrentMethod,
      TrafficTotalMethod,
      TrafficResetMethod,
      ConnectionListMethod,
      ConnectionCountMethod,
      ConnectionCloseMethod,
      ConnectionCloseAllMethod,
      ConnectionResetMethod,
      DnsClearCacheMethod,
      NetworkChangedMethod,
      LogStartMethod,
      LogStopMethod,
      ListenerStartMethod,
      ListenerStopMethod,
      RouteWatchMethod,
      RouteCheckMethod,
      ProbeOutboundIPMethod,
      ProbeServicesMethod,
      MitmCertificateMethod,
      MitmGenerateCertificateMethod,
      MitmValidateMethod,
      MitmIssueCertificateMethod,
      MitmRunScriptMethod,
      MitmExchangesMethod,
      MitmExchangeMethod,
      MitmBodyMethod,
      MessageMethod]"

datatype handlerKind =
    Command | WithArguments | WithFallible | WithoutArguments | FallibleWithoutArguments
  | Action | WatchRouteHandler

definition methodTable :: "(coreMethod \<times> handlerKind) list" where
  "methodTable =
     [(CoreInitMethod, Command),
      (CoreInitializedMethod, WithoutArguments),
      (CoreGCMethod, Action),
      (CoreMemoryMethod, WithoutArguments),
      (ConfigSetupMethod, Command),
      (ConfigUpdateMethod, Command),
      (ConfigValidateMethod, WithArguments),
      (ConfigDecryptMethod, WithFallible),
      (ConfigReadMethod, WithFallible),
      (ProfileBaseMethod, WithFallible),
      (ProfileOutboundsMethod, WithFallible),
      (ProfileBuildMethod, WithFallible),
      (ProfileClearEffectMethod, Command),
      (ProxyListMethod, WithoutArguments),
      (ProxySelectMethod, WithArguments),
      (ProxyDefinitionMethod, WithFallible),
      (ProxyTestDelayMethod, WithArguments),
      (ProxyValidateMethod, WithArguments),
      (ProxyConvertMethod, WithFallible),
      (ShareLinkEncodeMethod, WithArguments),
      (ShareLinkDecodeMethod, WithArguments),
      (FilterValidateMethod, WithArguments),
      (ProviderListMethod, WithoutArguments),
      (ProviderGetMethod, WithArguments),
      (ProviderUpdateMethod, Command),
      (ProviderSideLoadMethod, Command),
      (RuleSetDumpMethod, WithFallible),
      (RuleSetCompileMethod, WithFallible),
      (GeoUpdateMethod, Command),
      (TrafficCurrentMethod, WithArguments),
      (TrafficTotalMethod, WithArguments),
      (TrafficResetMethod, Action),
      (ConnectionListMethod, WithoutArguments),
      (ConnectionCountMethod, WithoutArguments),
      (ConnectionCloseMethod, Command),
      (ConnectionCloseAllMethod, Action),
      (ConnectionResetMethod, Action),
      (DnsClearCacheMethod, Action),
      (NetworkChangedMethod, Action),
      (LogStartMethod, Action),
      (LogStopMethod, Action),
      (ListenerStartMethod, Action),
      (ListenerStopMethod, Action),
      (RouteWatchMethod, WatchRouteHandler),
      (RouteCheckMethod, WithArguments),
      (ProbeOutboundIPMethod, WithArguments),
      (ProbeServicesMethod, WithArguments)]"

text \<open>A Go map is keyed by the method's name: the lookup of an unknown name misses.\<close>

definition lookupMethod :: "string \<Rightarrow> coreMethod option" where
  "lookupMethod name = find (\<lambda>m. methodName m = name) (map fst methodTable)"

lemma coreMethods_complete: "m \<in> set coreMethods"
  by (cases m) (simp_all add: coreMethods_def)

lemma methodNames_distinct: "distinct (map methodName coreMethods)"
  by code_simp

lemma methodName_inject: "methodName m = methodName n \<longleftrightarrow> m = n"
  using methodNames_distinct coreMethods_complete [of m] coreMethods_complete [of n]
  by (auto simp: distinct_map dest: inj_onD)

lemma methodTable_distinct: "distinct (map fst methodTable)"
  by code_simp

lemma lookupMethod_name:
  "lookupMethod (methodName m) = (if m \<in> fst ` set methodTable then Some m else None)"
proof -
  have "find (\<lambda>n. methodName n = methodName m) ms = (if m \<in> set ms then Some m else None)" for ms
    by (induction ms) (auto simp: methodName_inject)
  then show ?thesis
    by (simp add: lookupMethod_def)
qed

subsection \<open>Errors, calls and responses\<close>

datatype detail = DetailString string | DetailInt int

text \<open>\<open>Details\<close> is a map for the host; \<open>nil\<close> is the empty one.\<close>

record methodError =
  me_code :: string
  me_message :: string
  me_details :: "(string, detail) gomap"

record methodCall =
  mc_id :: string
  mc_method :: string
  mc_arguments :: bytes
  mc_seq :: u64

record 'r methodResponse =
  mr_id :: string
  mr_result :: "'r option"
  mr_error :: "methodError option"
  mr_file :: string

text \<open>A Go error is a \<open>MethodError\<close>, possibly wrapped, or any other error by its message.\<close>

datatype goError = AsMethodError methodError | OtherError string

datatype 'r handlerResult = Returns "'r option" | Fails goError | Panics string

definition asMethodError :: "goError \<Rightarrow> methodError" where
  "asMethodError e =
     (case e of
        AsMethodError me \<Rightarrow> me
      | OtherError msg \<Rightarrow> \<lparr>me_code = ''core_error'', me_message = msg, me_details = []\<rparr>)"

subsection \<open>Handlers\<close>

type_synonym ('r, 'st) handler = "methodCall \<Rightarrow> 'st \<Rightarrow> 'r handlerResult \<times> 'st"

text \<open>\<open>decodeArguments\<close>; \<open>json.Unmarshal\<close> into the parameter type is the first argument.\<close>

definition decodeArguments ::
  "(bytes \<Rightarrow> (string, 'p) result) \<Rightarrow> methodCall \<Rightarrow> (goError, 'p) result" where
  "decodeArguments unmarshal call =
     (let decoded =
            (if mc_arguments call = [] \<or> mc_arguments call = ''null''
             then Inl ''missing arguments'' else unmarshal (mc_arguments call))
      in case decoded of
           Inr p \<Rightarrow> Inr p
         | Inl err \<Rightarrow>
             Inl (AsMethodError \<lparr>me_code = ''invalid_arguments'',
               me_message = ''invalid arguments for '' @ mc_method call @ '': '' @ err, me_details = []\<rparr>))"

text \<open>
  The wrappers of the handler functions. A run answers a value, an error or a panic; \<open>command\<close>
  drops the value.
\<close>

definition withFallible ::
  "(bytes \<Rightarrow> (string, 'p) result) \<Rightarrow> ('p \<Rightarrow> 'st \<Rightarrow> 'r handlerResult \<times> 'st) \<Rightarrow> ('r, 'st) handler" where
  "withFallible unmarshal run call st =
     (case decodeArguments unmarshal call of
        Inl e \<Rightarrow> (Fails e, st)
      | Inr p \<Rightarrow> run p st)"

definition withArguments ::
  "(bytes \<Rightarrow> (string, 'p) result) \<Rightarrow> ('p \<Rightarrow> 'st \<Rightarrow> 'r \<times> 'st) \<Rightarrow> ('r, 'st) handler" where
  "withArguments unmarshal run =
     withFallible unmarshal (\<lambda>p st. case run p st of (r, st) \<Rightarrow> (Returns (Some r), st))"

definition withoutArguments :: "('st \<Rightarrow> 'r \<times> 'st) \<Rightarrow> ('r, 'st) handler" where
  "withoutArguments run call st = (case run st of (r, st) \<Rightarrow> (Returns (Some r), st))"

definition fallibleWithoutArguments ::
  "('st \<Rightarrow> 'r handlerResult \<times> 'st) \<Rightarrow> ('r, 'st) handler" where
  "fallibleWithoutArguments run call st = run st"

definition command ::
  "(bytes \<Rightarrow> (string, 'p) result) \<Rightarrow> ('p \<Rightarrow> 'st \<Rightarrow> goError option \<times> 'st) \<Rightarrow> ('r, 'st) handler" where
  "command unmarshal run call st =
     (case decodeArguments unmarshal call of
        Inl e \<Rightarrow> (Fails e, st)
      | Inr p \<Rightarrow>
          (case run p st of
             (None, st) \<Rightarrow> (Returns None, st)
           | (Some e, st) \<Rightarrow> (Fails e, st)))"

definition action :: "('st \<Rightarrow> 'st) \<Rightarrow> ('r, 'st) handler" where
  "action run call st = (Returns None, run st)"

text \<open>\<open>watchRouteHandler\<close> hands the arrival stamp of the call to the route tracker.\<close>

definition watchRouteHandler ::
  "(bytes \<Rightarrow> (string, bool) result) \<Rightarrow> (bool \<Rightarrow> u64 \<Rightarrow> 'st \<Rightarrow> 'r \<times> 'st) \<Rightarrow> ('r, 'st) handler" where
  "watchRouteHandler unmarshal watchRoute call st =
     (case decodeArguments unmarshal call of
        Inl e \<Rightarrow> (Fails e, st)
      | Inr watch \<Rightarrow> (case watchRoute watch (mc_seq call) st of (r, st) \<Rightarrow> (Returns (Some r), st)))"

subsection \<open>Responses on disk\<close>

text \<open>
  The file system as \<open>writeSpilledResponse\<close> uses it: the files by path, and how the next calls
  turn out (\<open>Some\<close> an error). \<open>CreateTemp\<close> picks a path that is not in use.
\<close>

record spillEnv =
  sp_mkdir :: "string option"
  sp_create :: "(string, string) result"
  sp_chmod :: "string option"
  sp_write :: "string option"
  sp_close :: "string option"

type_synonym files = "string \<rightharpoonup> bytes"

definition makeSpilledResponseDir :: "spillEnv \<Rightarrow> string option" where
  "makeSpilledResponseDir env = sp_mkdir env"

text \<open>A failed write leaves an unknown part behind; the deferred \<open>os.Remove\<close> takes it away.\<close>

definition writeSpilledResponse ::
  "spillEnv \<Rightarrow> bytes \<Rightarrow> files \<Rightarrow> (string, string) result \<times> files" where
  "writeSpilledResponse env data fs =
     (case makeSpilledResponseDir env of
        Some e \<Rightarrow> (Inl e, fs)
      | None \<Rightarrow>
          (case sp_create env of
             Inl e \<Rightarrow> (Inl e, fs)
           | Inr path \<Rightarrow>
               (let fs = fs(path \<mapsto> []);
                    remove = (\<lambda>fs. fs(path := None))
                in case sp_chmod env of
                     Some e \<Rightarrow> (Inl e, remove fs)
                   | None \<Rightarrow>
                       (case sp_write env of
                          Some e \<Rightarrow> (Inl e, remove fs)
                        | None \<Rightarrow>
                            (let fs = fs(path \<mapsto> data) in
                             case sp_close env of
                               Some e \<Rightarrow> (Inl e, remove fs)
                             | None \<Rightarrow> (Inr path, fs))))))"

definition responseSpillThreshold :: nat where "responseSpillThreshold = 2 ^ 20"

type_synonym 'r marshal = "'r methodResponse \<Rightarrow> (string, bytes) result"

definition encodeResponse :: "'r marshal \<Rightarrow> 'r methodResponse \<Rightarrow> bytes" where
  "encodeResponse marshal response =
     (case marshal response of
        Inr data \<Rightarrow> data
      | Inl err \<Rightarrow>
          (case marshal \<lparr>mr_id = mr_id response, mr_result = None,
                   mr_error = Some \<lparr>me_code = ''internal_error'',
                     me_message = ''encode response: '' @ err, me_details = []\<rparr>, mr_file = []\<rparr> of
             Inr data \<Rightarrow> data
           | Inl _ \<Rightarrow> []))"

definition resultResponse :: "string \<Rightarrow> 'r option \<Rightarrow> 'r methodResponse" where
  "resultResponse i r = \<lparr>mr_id = i, mr_result = r, mr_error = None, mr_file = []\<rparr>"

definition errorResponse :: "string \<Rightarrow> methodError \<Rightarrow> 'r methodResponse" where
  "errorResponse i e = \<lparr>mr_id = i, mr_result = None, mr_error = Some e, mr_file = []\<rparr>"

definition fileResponse :: "string \<Rightarrow> string \<Rightarrow> 'r methodResponse" where
  "fileResponse i path = \<lparr>mr_id = i, mr_result = None, mr_error = None, mr_file = path\<rparr>"

definition spillResponse ::
  "'r marshal \<Rightarrow> spillEnv \<Rightarrow> string \<Rightarrow> bytes \<Rightarrow> files \<Rightarrow> bytes \<times> files" where
  "spillResponse marshal env i data fs =
     (if length data \<le> responseSpillThreshold then (data, fs)
      else (case writeSpilledResponse env data fs of
              (Inl _, fs) \<Rightarrow> (data, fs)
            | (Inr path, fs) \<Rightarrow> (encodeResponse marshal (fileResponse i path), fs)))"

subsection \<open>Handling a call\<close>

definition handleMethodCall ::
  "'r marshal \<Rightarrow> spillEnv \<Rightarrow> (coreMethod \<Rightarrow> ('r, 'st) handler) \<Rightarrow> methodCall \<Rightarrow> 'st \<Rightarrow> files \<Rightarrow>
     bytes \<times> 'st \<times> files" where
  "handleMethodCall marshal env handlers call st fs =
     (case lookupMethod (mc_method call) of
        None \<Rightarrow>
          (encodeResponse marshal (errorResponse (mc_id call) \<lparr>me_code = ''not_implemented'',
             me_message = ''unknown method: '' @ mc_method call, me_details = []\<rparr>), st, fs)
      | Some m \<Rightarrow>
          (case handlers m call st of
             (Panics msg, st) \<Rightarrow>
               (encodeResponse marshal (errorResponse (mc_id call) \<lparr>me_code = ''internal_error'',
                  me_message = ''internal panic: '' @ msg, me_details = []\<rparr>), st, fs)
           | (Fails e, st) \<Rightarrow>
               (encodeResponse marshal (errorResponse (mc_id call) (asMethodError e)), st, fs)
           | (Returns r, st) \<Rightarrow>
               (case spillResponse marshal env (mc_id call)
                       (encodeResponse marshal (resultResponse (mc_id call) r)) fs of
                  (data, fs) \<Rightarrow> (data, st, fs))))"

text \<open>
  \<open>dispatchMethodCall\<close> stamps the call in arrival order and starts its goroutine; the crash method
  ends the process outside every recovery.
\<close>

datatype dispatched = CrashesProcess | Spawns methodCall

definition dispatchMethodCall :: "methodCall \<Rightarrow> u64 \<Rightarrow> dispatched \<times> u64" where
  "dispatchMethodCall call methodCallSeq =
     (let seq = methodCallSeq + 1;
          call = call\<lparr>mc_seq := seq\<rparr>
      in if mc_method call = methodName CoreCrashMethod then (CrashesProcess, seq)
         else (Spawns call, seq))"

fun dispatchAll :: "methodCall list \<Rightarrow> u64 \<Rightarrow> dispatched list \<times> u64" where
  "dispatchAll [] seq = ([], seq)"
| "dispatchAll (c # cs) seq =
     (case dispatchMethodCall c seq of
        (d, seq) \<Rightarrow> (case dispatchAll cs seq of (ds, seq) \<Rightarrow> (d # ds, seq)))"

lemma writeSpilled_ok:
  "writeSpilledResponse env data fs = (Inr path, fs') \<Longrightarrow>
     fs' = fs(path \<mapsto> data) \<and> sp_create env = Inr path"
  by (auto simp: writeSpilledResponse_def Let_def split: option.splits sum.splits)

lemma writeSpilled_failed:
  "writeSpilledResponse env data fs = (Inl e, fs') \<Longrightarrow>
     (case sp_create env of Inl _ \<Rightarrow> fs' = fs | Inr path \<Rightarrow> fs' = fs \<or> fs' = fs(path := None))"
  by (auto simp: writeSpilledResponse_def Let_def split: option.splits sum.splits)

lemma encodeResponse_ok: "marshal r = Inr data \<Longrightarrow> encodeResponse marshal r = data"
  by (simp add: encodeResponse_def)

subsection \<open>What a call is promised\<close>

text \<open>What the host makes of a reply: the file's content where the reply names one.\<close>

definition receive :: "(bytes \<Rightarrow> 'r methodResponse) \<Rightarrow> files \<Rightarrow> bytes \<Rightarrow> 'r methodResponse" where
  "receive decode fs data =
     (let r = decode data in
      if mr_file r = [] then r
      else (case fs (mr_file r) of Some content \<Rightarrow> decode content | None \<Rightarrow> r))"

definition promisedReply ::
  "(coreMethod \<Rightarrow> ('r, 'st) handler) \<Rightarrow> methodCall \<Rightarrow> 'st \<Rightarrow> 'r methodResponse" where
  "promisedReply handlers call st =
     (case lookupMethod (mc_method call) of
        None \<Rightarrow> errorResponse (mc_id call) \<lparr>me_code = ''not_implemented'',
          me_message = ''unknown method: '' @ mc_method call, me_details = []\<rparr>
      | Some m \<Rightarrow>
          (case fst (handlers m call st) of
             Returns r \<Rightarrow> resultResponse (mc_id call) r
           | Fails e \<Rightarrow> errorResponse (mc_id call) (asMethodError e)
           | Panics msg \<Rightarrow> errorResponse (mc_id call) \<lparr>me_code = ''internal_error'',
               me_message = ''internal panic: '' @ msg, me_details = []\<rparr>))"

lemma promisedReply_frame:
  "mr_file (promisedReply handlers call st) = [] \<and> mr_id (promisedReply handlers call st) = mc_id call"
  by (simp add: promisedReply_def errorResponse_def resultResponse_def
      split: option.split handlerResult.split)

lemma spill_received:
  assumes "decode (enc r) = r" 
    and "\<And>path. path \<noteq> [] \<Longrightarrow> marshal (fileResponse i path) = Inr (enc (fileResponse i path))"
    and "\<And>path. path \<noteq> [] \<Longrightarrow> decode (enc (fileResponse i path)) = fileResponse i path"
    and "\<And>path. sp_create env = Inr path \<Longrightarrow> path \<noteq> []" and "mr_file r = []"
    and "spillResponse marshal env i (enc r) fs = (data, fs')"
  shows "receive decode fs' data = r"
proof (cases "length (enc r) \<le> responseSpillThreshold")
  case True
  with assms show ?thesis by (auto simp: spillResponse_def receive_def)
next
  case False
  obtain w fs1 where w: "writeSpilledResponse env (enc r) fs = (w, fs1)" by fastforce
  show ?thesis
  proof (cases w)
    case (Inl e)
    with False w assms show ?thesis by (auto simp: spillResponse_def receive_def)
  next
    case (Inr path)
    with w writeSpilled_ok [of env "enc r" fs path fs1] have
      fs1: "fs1 = fs(path \<mapsto> enc r)" "path \<noteq> []"
      using assms(4) by auto
    have "data = enc (fileResponse i path)" "fs' = fs1"
      using False w Inr fs1 assms(2,6) by (simp_all add: spillResponse_def encodeResponse_ok)
    with fs1 assms(1,3) show ?thesis
      by (simp add: receive_def) (simp add: fileResponse_def)
  qed
qed

text \<open>
  Every call is answered under its own id: an unknown method, a handler that fails and one
  that panics by an error response, a handler that returns by its result. Where JSON carries that
  response and the name of a file back and forth, the caller receives it whole whether it fits the
  transport or was moved to a file, and also when the file could not be written.
\<close>

lemma every_call_answered:
  assumes "\<And>r. r = promisedReply handlers call st \<or> (\<exists>path. path \<noteq> [] \<and> r = fileResponse (mc_id call) path) \<Longrightarrow>
      marshal r = Inr (enc r) \<and> decode (enc r) = r"
    and "\<And>path. sp_create env = Inr path \<Longrightarrow> path \<noteq> []"
    and "handleMethodCall marshal env handlers call st fs = (data, st', fs')"
  shows "receive decode fs' data = promisedReply handlers call st \<and>
    mr_id (promisedReply handlers call st) = mc_id call"
proof -
  let ?r = "promisedReply handlers call st"
  have code: "encodeResponse marshal ?r = enc ?r" "decode (enc ?r) = ?r"
    using assms(1) encodeResponse_ok by blast+
  have fileReply: "marshal (fileResponse (mc_id call) path) = Inr (enc (fileResponse (mc_id call) path))"
    "decode (enc (fileResponse (mc_id call) path)) = fileResponse (mc_id call) path"
    if "path \<noteq> []" for path
    using assms(1) that by blast+
  have "data = enc ?r \<and> fs' = fs \<or>
      spillResponse marshal env (mc_id call) (enc ?r) fs = (data, fs')"
    using assms(3) code(1)
    by (auto simp: handleMethodCall_def promisedReply_def split: option.splits prod.splits
        handlerResult.splits)
  then have "receive decode fs' data = ?r"
  proof
    assume "data = enc ?r \<and> fs' = fs"
    then show ?thesis
      using code(2) promisedReply_frame [of handlers call st] by (simp add: receive_def Let_def)
  next
    assume spill: "spillResponse marshal env (mc_id call) (enc ?r) fs = (data, fs')"
    show ?thesis
      by (rule spill_received [OF code(2) fileReply assms(2) _ spill]) (simp_all add: promisedReply_frame)
  qed
  then show ?thesis by (simp add: promisedReply_frame)
qed

text \<open>A listing of a megabyte and a byte, written to the file \<open>f\<close>.\<close>

definition listHandlers :: "coreMethod \<Rightarrow> (unit, nat) handler" where
  "listHandlers m call st = (Returns (Some ()), Suc st)"

definition listCall :: methodCall where
  "listCall = \<lparr>mc_id = ''7'', mc_method = ''proxy.list'', mc_arguments = [], mc_seq = 1\<rparr>"

definition listEncode :: "unit methodResponse \<Rightarrow> bytes" where
  "listEncode r = (if mr_file r = [] then CHR ''R'' # replicate (2 ^ 20) CHR '' ''
     else CHR ''F'' # mr_file r)"

definition listDecode :: "bytes \<Rightarrow> unit methodResponse" where
  "listDecode d = (if d \<noteq> [] \<and> d ! 0 = CHR ''R'' then resultResponse ''7'' (Some ())
     else fileResponse ''7'' (tl d))"

definition diskEnv :: spillEnv where
  "diskEnv = \<lparr>sp_mkdir = None, sp_create = Inr ''f'', sp_chmod = None, sp_write = None,
     sp_close = None\<rparr>"

lemma list_reply: "promisedReply listHandlers listCall st = resultResponse ''7'' (Some ())"
proof -
  have "lookupMethod ''proxy.list'' = Some ProxyListMethod"
    using lookupMethod_name [of ProxyListMethod] by (simp add: methodTable_def)
  then show ?thesis by (simp add: promisedReply_def listCall_def listHandlers_def)
qed

text \<open>
  A response file is all or nothing: where the system picks a path not in use, a write that
  succeeds leaves one new file with the whole response, and one that fails at any step leaves the
  files as they were.
\<close>

lemma spill_all_or_nothing:
  assumes "\<And>path. sp_create env = Inr path \<Longrightarrow> fs path = None"
  shows "snd (writeSpilledResponse env data fs) =
    (case fst (writeSpilledResponse env data fs) of
       Inl _ \<Rightarrow> fs
     | Inr path \<Rightarrow> fs(path \<mapsto> data))"
proof -
  have "fs(path := None) = fs" if "sp_create env = Inr path" for path
    using assms [OF that] by auto
  then show ?thesis
    by (auto simp: writeSpilledResponse_def Let_def split: option.split sum.split)
qed

definition unhandledMethods :: "coreMethod list" where
  "unhandledMethods = [CoreCrashMethod, MitmCertificateMethod, MitmGenerateCertificateMethod,
     MitmValidateMethod, MitmIssueCertificateMethod, MitmRunScriptMethod, MitmExchangesMethod,
     MitmExchangeMethod, MitmBodyMethod, MessageMethod]"


definition stamped :: "methodCall \<Rightarrow> u64 \<Rightarrow> dispatched" where
  "stamped call seq =
     (if mc_method call = ''core.crash'' then CrashesProcess else Spawns (call\<lparr>mc_seq := seq\<rparr>))"

text \<open>
  Calls are stamped with consecutive numbers in the order they arrive, before their
  goroutines run, and only the crash method ends the process.
\<close>

lemma calls_stamped_in_order:
  "dispatchAll cs seq =
     (map (\<lambda>i. stamped (cs ! i) (seq + of_nat (Suc i))) [0..<length cs], seq + of_nat (length cs))"
proof (induction cs arbitrary: seq)
  case Nil
  then show ?case by simp
next
  case (Cons c cs)
  have "[0..<length (c # cs)] = 0 # map Suc [0..<length cs]"
    by (simp only: length_Cons map_Suc_upt upt_conv_Cons [OF zero_less_Suc])
  moreover have "dispatchMethodCall c seq = (stamped c (seq + 1), seq + 1)"
    by (simp add: dispatchMethodCall_def stamped_def Let_def)
  ultimately show ?case
    using Cons by (simp add: algebra_simps comp_def)
qed

end
