(* ===== verification/RequestTraffic.thy ===== *)
theory RequestTraffic
  imports Prelude
begin

section \<open>Traffic of the requests in the list (\<open>core/request_traffic.go\<close>)\<close>

text \<open>
  mihomo announces a connection only as it opens; the watch re-reads the totals of the announced
  ones once a second and reports those that changed. \<open>'t\<close> is a tracker of mihomo, \<open>info\<close> its
  totals at the moment they are read, \<open>isOpen\<close> whether the manager still has it, and \<open>queue\<close>
  whether the report found room in the message queue. The map is ranged over in list order, which
  stands for any order.
\<close>

record RequestTraffic =
  rt_id :: string
  rt_upload :: int
  rt_download :: int

record 't watchedRequest =
  wr_tracker :: 't
  wr_upload :: int
  wr_download :: int
  fresh :: bool
  closedReports :: nat

record 't requestTrafficWatch =
  requests :: "(string, 't watchedRequest) gomap"
  running :: bool

definition requestTrafficCloseRetries :: nat where "requestTrafficCloseRetries = 5"

definition initTraffic :: "'t requestTrafficWatch" where
  "initTraffic = \<lparr>requests = [], running = False\<rparr>"

definition add ::
  "('t \<Rightarrow> int \<times> int) \<Rightarrow> string \<Rightarrow> 't \<Rightarrow> 't requestTrafficWatch \<Rightarrow> 't requestTrafficWatch \<times> bool" where
  "add info i tracker w =
     (let (up, down) = info tracker;
          r = \<lparr>wr_tracker = tracker, wr_upload = up, wr_download = down, fresh = True,
               closedReports = 0\<rparr>
      in (w\<lparr>requests := AList.update i r (requests w), running := True\<rparr>, \<not> running w))"

text \<open>The first loop of \<open>collect\<close> on one request: count a report of a closed one, and read it.\<close>

definition observe :: "(string \<Rightarrow> bool) \<Rightarrow> string \<Rightarrow> 't watchedRequest \<Rightarrow> 't watchedRequest" where
  "observe isOpen i r =
     (let r = (if closedReports r > 0 \<or> \<not> fresh r \<and> \<not> isOpen i
               then r\<lparr>closedReports := Suc (closedReports r)\<rparr> else r)
      in r\<lparr>fresh := False\<rparr>)"

definition changedTraffic ::
  "('t \<Rightarrow> int \<times> int) \<Rightarrow> (string, 't watchedRequest) gomap \<Rightarrow> RequestTraffic list" where
  "changedTraffic info rs =
     List.map_filter (\<lambda>(i, r). case info (wr_tracker r) of (up, down) \<Rightarrow>
         if up \<noteq> wr_upload r \<or> down \<noteq> wr_download r
         then Some \<lparr>rt_id = i, rt_upload = up, rt_download = down\<rparr> else None) rs"

text \<open>The second loop: a queued report becomes the totals known to the host.\<close>

definition remember :: "RequestTraffic list \<Rightarrow> string \<Rightarrow> 't watchedRequest \<Rightarrow> 't watchedRequest" where
  "remember changed i r =
     (case find (\<lambda>t. rt_id t = i) changed of
        None \<Rightarrow> r
      | Some t \<Rightarrow> r\<lparr>wr_upload := rt_upload t, wr_download := rt_download t\<rparr>)"

definition expired :: "bool \<Rightarrow> 't watchedRequest \<Rightarrow> bool" where
  "expired queued r \<longleftrightarrow>
     closedReports r > 0 \<and> (queued \<or> closedReports r > requestTrafficCloseRetries)"

definition collect ::
  "(string \<Rightarrow> bool) \<Rightarrow> ('t \<Rightarrow> int \<times> int) \<Rightarrow> (RequestTraffic list \<Rightarrow> bool) \<Rightarrow>
     't requestTrafficWatch \<Rightarrow> 't requestTrafficWatch \<times> bool" where
  "collect isOpen info queue w =
     (let rs = map (\<lambda>(i, r). (i, observe isOpen i r)) (requests w);
          changed = changedTraffic info rs;
          queued = (changed = [] \<or> queue changed);
          rs = (if queued then map (\<lambda>(i, r). (i, remember changed i r)) rs else rs);
          rs = filter (\<lambda>(i, r). \<not> expired queued r) rs
      in (w\<lparr>requests := rs, running := rs \<noteq> []\<rparr>, rs \<noteq> []))"

definition clearTraffic :: "'t requestTrafficWatch \<Rightarrow> 't requestTrafficWatch" where
  "clearTraffic w = w\<lparr>requests := [], running := False\<rparr>"

subsection \<open>One report\<close>

text \<open>The report of a collection, and whether it was queued.\<close>

definition reportOf ::
  "(string \<Rightarrow> bool) \<Rightarrow> ('t \<Rightarrow> int \<times> int) \<Rightarrow> 't requestTrafficWatch \<Rightarrow> RequestTraffic list" where
  "reportOf isOpen info w =
     changedTraffic info (map (\<lambda>(i, r). (i, observe isOpen i r)) (requests w))"

definition reportQueued ::
  "(string \<Rightarrow> bool) \<Rightarrow> ('t \<Rightarrow> int \<times> int) \<Rightarrow> (RequestTraffic list \<Rightarrow> bool) \<Rightarrow>
     't requestTrafficWatch \<Rightarrow> bool" where
  "reportQueued isOpen info queue w \<longleftrightarrow>
     reportOf isOpen info w = [] \<or> queue (reportOf isOpen info w)"

lemma observe_simps [simp]:
  "wr_tracker (observe isOpen i r) = wr_tracker r" "wr_upload (observe isOpen i r) = wr_upload r"
  "wr_download (observe isOpen i r) = wr_download r" "\<not> fresh (observe isOpen i r)"
  "closedReports (observe isOpen i r) = closedReports r +
     (if closedReports r > 0 \<or> \<not> fresh r \<and> \<not> isOpen i then 1 else 0)"
  by (simp_all add: observe_def Let_def)

lemma remember_simps [simp]:
  "wr_tracker (remember ch i r) = wr_tracker r" "fresh (remember ch i r) = fresh r"
  "closedReports (remember ch i r) = closedReports r"
  by (simp_all add: remember_def split: option.split)

lemma map_of_map_entries:
  "map_of (map (\<lambda>(i, r). (i, f i r)) rs) k = map_option (f k) (map_of rs k)"
  by (induction rs) auto

lemma map_of_filter_entries:
  assumes "gm_wf rs"
  shows "map_of (filter (\<lambda>(i, r). P i r) rs) k =
    (case map_of rs k of Some r \<Rightarrow> if P k r then Some r else None | None \<Rightarrow> None)"
  using assms unfolding gm_wf_def
proof (induction rs)
  case Nil
  then show ?case by simp
next
  case (Cons e rs)
  obtain j q where e: "e = (j, q)" by (cases e)
  with Cons.prems have "map_of rs j = None" by (simp add: map_of_eq_None_iff)
  with Cons e show ?case by (cases "j = k") auto
qed

lemma gm_wf_map_entries: "gm_wf rs \<Longrightarrow> gm_wf (map (\<lambda>(i, r). (i, f i r)) rs)"
  by (simp add: gm_wf_def comp_def split_def)

lemma changed_find:
  assumes "gm_wf rs" and "map_of rs i = Some r"
  shows "find (\<lambda>t. rt_id t = i) (changedTraffic info rs) =
    (case info (wr_tracker r) of (up, down) \<Rightarrow>
       if up \<noteq> wr_upload r \<or> down \<noteq> wr_download r
       then Some \<lparr>rt_id = i, rt_upload = up, rt_download = down\<rparr> else None)"
  using assms unfolding gm_wf_def
proof (induction rs)
  case Nil
  then show ?case by simp
next
  case (Cons e rs)
  obtain j q where e: "e = (j, q)" by (cases e)
  have none: "find (\<lambda>t. rt_id t = k) (changedTraffic info rs) = None" if "k \<notin> set (map fst rs)" for k
    using that
    by (induction rs) (auto simp: changedTraffic_def map_filter_simps split: prod.split)
  show ?case
  proof (cases "j = i")
    case True
    with Cons.prems e have "q = r" "i \<notin> set (map fst rs)" by auto
    with e True none show ?thesis
      by (simp add: changedTraffic_def map_filter_simps split: prod.split)
  next
    case False
    with Cons e show ?thesis
      by (simp add: changedTraffic_def map_filter_simps split: prod.split)
  qed
qed

text \<open>After a queued report the host knows the totals that were read.\<close>

lemma remember_totals:
  assumes "gm_wf rs" and "map_of rs i = Some r"
  shows "(wr_upload (remember (changedTraffic info rs) i r),
          wr_download (remember (changedTraffic info rs) i r)) = info (wr_tracker r)"
  by (simp add: remember_def changed_find [OF assms] split: prod.split)

lemma collect_lookup:
  assumes "gm_wf (requests w)"
  shows "map_of (requests (fst (collect isOpen info queue w))) i =
    (case map_of (requests w) i of
       None \<Rightarrow> None
     | Some r \<Rightarrow>
         (let r = observe isOpen i r; q = reportQueued isOpen info queue w;
              r = (if q then remember (reportOf isOpen info w) i r else r)
          in if expired q r then None else Some r))"
proof -
  let ?rs = "map (\<lambda>(i, r). (i, observe isOpen i r)) (requests w)"
  have wf: "gm_wf ?rs" "gm_wf (map (\<lambda>(i, r). (i, remember ch i r)) ?rs)" for ch
    using assms by (simp_all add: gm_wf_map_entries del: map_map)
  show ?thesis
    using wf
    by (simp add: collect_def Let_def map_of_filter_entries map_of_map_entries reportOf_def
        reportQueued_def del: map_map split: option.split)
qed

lemma collect_wf:
  "gm_wf (requests w) \<Longrightarrow> gm_wf (requests (fst (collect isOpen info queue w)))"
  by (simp add: collect_def Let_def gm_wf_map_entries del: map_map)

lemma collect_running:
  "running (fst (collect isOpen info queue w)) = (requests (fst (collect isOpen info queue w)) \<noteq> [])"
  "snd (collect isOpen info queue w) = running (fst (collect isOpen info queue w))"
  by (simp_all add: collect_def Let_def)

subsection \<open>A sequence of collections\<close>

record 't tick =
  tick_open :: "string \<Rightarrow> bool"
  tick_info :: "'t \<Rightarrow> int \<times> int"
  tick_queue :: "RequestTraffic list \<Rightarrow> bool"

definition collectTick :: "'t tick \<Rightarrow> 't requestTrafficWatch \<Rightarrow> 't requestTrafficWatch" where
  "collectTick t w = fst (collect (tick_open t) (tick_info t) (tick_queue t) w)"

lemma collectTick_wf: "gm_wf (requests w) \<Longrightarrow> gm_wf (requests (collectTick t w))"
  by (simp add: collectTick_def collect_wf)

text \<open>How many collections a request that is gone from the manager can still see.\<close>

definition ticksLeft :: "'t watchedRequest \<Rightarrow> nat" where
  "ticksLeft r = (if fresh r \<and> closedReports r = 0 then 1 else 0) +
     (requestTrafficCloseRetries + 1 - closedReports r)"

lemma closed_tick:
  assumes "gm_wf (requests w)" and "\<not> tick_open t i"
    and "map_of (requests (collectTick t w)) i = Some r'"
  shows "\<exists>r. map_of (requests w) i = Some r \<and> ticksLeft r' < ticksLeft r \<and>
    closedReports r' \<le> requestTrafficCloseRetries"
  using assms
  by (auto simp: collectTick_def collect_lookup Let_def expired_def ticksLeft_def
      requestTrafficCloseRetries_def split: option.splits if_splits)

lemma closed_gone:
  assumes "gm_wf (requests w)" and "\<forall>t \<in> set ts. \<not> tick_open t i"
    and "\<And>r. map_of (requests w) i = Some r \<Longrightarrow> 
      ticksLeft r \<le> length ts \<and> closedReports r \<le> requestTrafficCloseRetries"
  shows "map_of (requests (fold collectTick ts w)) i = None"
  using assms
proof (induction ts arbitrary: w)
  case Nil
  then show ?case
    by (cases "map_of (requests w) i") (fastforce simp: ticksLeft_def)+
next
  case (Cons t ts)
  then show ?case
    using closed_tick [of w t i] collectTick_wf [of w t] by fastforce
qed

lemma open_kept:
  assumes "gm_wf (requests w)" and "tick_open t i"
    and "map_of (requests w) i = Some r" and "closedReports r = 0"
  shows "\<exists>r'. map_of (requests (collectTick t w)) i = Some r' \<and> closedReports r' = 0"
  using assms by (simp add: collectTick_def collect_lookup Let_def expired_def)

text \<open>
  A queued collection: a request that stays is known with the totals just read, and one that goes
  has its last totals in the report unless the host knew them already.
\<close>

lemma queued_totals:
  assumes "gm_wf (requests w)" and "reportQueued isOpen info queue w"
    and "map_of (requests w) i = Some r"
  shows "(case map_of (requests (fst (collect isOpen info queue w))) i of
      Some r' \<Rightarrow> (wr_upload r', wr_download r') = info (wr_tracker r)
    | None \<Rightarrow> info (wr_tracker r) = (wr_upload r, wr_download r) \<or>
        (\<exists>t \<in> set (reportOf isOpen info w). rt_id t = i \<and>
           (rt_upload t, rt_download t) = info (wr_tracker r)))"
proof -
  let ?rs = "map (\<lambda>(i, r). (i, observe isOpen i r)) (requests w)"
  have rs: "gm_wf ?rs" "map_of ?rs i = Some (observe isOpen i r)"
    using assms gm_wf_map_entries by (simp_all add: map_of_map_entries del: map_map)
  note kept = remember_totals [OF rs, of info]
  have gone: "\<exists>t \<in> set (changedTraffic info ?rs). rt_id t = i \<and>
      (rt_upload t, rt_download t) = info (wr_tracker r)"
    if "info (wr_tracker r) \<noteq> (wr_upload r, wr_download r)"
  proof -
    obtain up down where ud: "info (wr_tracker r) = (up, down)" by fastforce
    let ?t = "\<lparr>rt_id = i, rt_upload = up, rt_download = down\<rparr>"
    from changed_find [OF rs, of info] that ud
    have "find (\<lambda>t. rt_id t = i) (changedTraffic info ?rs) = Some ?t"
      by (auto split: if_splits)
    then have "?t \<in> set (changedTraffic info ?rs)"
      by (rule find_SomeD)
    with ud show ?thesis by force
  qed
  show ?thesis
    using assms kept gone
    by (auto simp: collect_lookup Let_def reportOf_def split: option.split)
qed

subsection \<open>The watching goroutine\<close>

text \<open>
  \<open>watchRequestTraffic\<close> starts \<open>runRequestTrafficWatch\<close> exactly when \<open>add\<close> says so; the
  goroutine ends when a collection finds nothing left or nobody listens. \<open>watchers\<close> counts the
  goroutines alive.
\<close>

record 't trafficWorld =
  traffic :: "'t requestTrafficWatch"
  watchers :: nat

inductive traffic_step :: "'t trafficWorld \<Rightarrow> 't trafficWorld \<Rightarrow> bool" where
  announce: "add info i tracker (traffic s) = (w, start) \<Longrightarrow>
     traffic_step s (s\<lparr>traffic := w, watchers := watchers s + (if start then 1 else 0)\<rparr>)"
| report: "0 < watchers s \<Longrightarrow> collect isOpen info queue (traffic s) = (w, watching) \<Longrightarrow>
     traffic_step s (s\<lparr>traffic := w, watchers := watchers s - (if watching then 0 else 1)\<rparr>)"
| unheard: "0 < watchers s \<Longrightarrow>
     traffic_step s (s\<lparr>traffic := clearTraffic (traffic s), watchers := watchers s - 1\<rparr>)"

inductive_simps traffic_step_simps: "traffic_step s s'"

inductive traffic_reachable :: "'t trafficWorld \<Rightarrow> bool" where
  start: "traffic_reachable \<lparr>traffic = initTraffic, watchers = 0\<rparr>"
| step: "traffic_reachable s \<Longrightarrow> traffic_step s s' \<Longrightarrow> traffic_reachable s'"

definition traffic_inv :: "'t trafficWorld \<Rightarrow> bool" where
  "traffic_inv s \<longleftrightarrow>
     watchers s = (if running (traffic s) then 1 else 0) \<and>
     (running (traffic s) \<longleftrightarrow> requests (traffic s) \<noteq> []) \<and>
     gm_wf (requests (traffic s)) \<and>
     (\<forall>(i, r) \<in> set (requests (traffic s)). closedReports r \<le> requestTrafficCloseRetries)"

lemma add_entries:
  assumes "add info i tracker w = (w', start)" and "gm_wf (requests w)"
    and "\<forall>(i, r) \<in> set (requests w). closedReports r \<le> requestTrafficCloseRetries"
  shows "gm_wf (requests w') \<and> requests w' \<noteq> [] \<and> running w' \<and> start = (\<not> running w) \<and>
    (\<forall>(i, r) \<in> set (requests w'). closedReports r \<le> requestTrafficCloseRetries)"
proof -
  have entries: "set (AList.update k v m) \<subseteq> insert (k, v) (set m)" for k m and v :: "'b watchedRequest"
    by (induction m) auto
  show ?thesis
    using assms entries by (fastforce simp: add_def split: prod.splits)
qed

lemma collect_entries:
  assumes "collect isOpen info queue w = (w', watching)" and "gm_wf (requests w)"
  shows "gm_wf (requests w') \<and> (running w' \<longleftrightarrow> requests w' \<noteq> []) \<and> watching = running w' \<and>
    (\<forall>(i, r) \<in> set (requests w'). closedReports r \<le> requestTrafficCloseRetries)"
  using assms collect_wf [OF assms(2), of isOpen info queue] collect_running [of isOpen info queue w]
  by (auto simp: collect_def Let_def expired_def split: if_splits)

lemma traffic_step_inv: "traffic_step s s' \<Longrightarrow> traffic_inv s \<Longrightarrow> traffic_inv s'"
proof (induction rule: traffic_step.induct)
  case (announce info i tracker s w start)
  then show ?case
    using add_entries [OF announce.hyps] by (auto simp: traffic_inv_def)
next
  case (report s isOpen info queue w watching)
  then show ?case
    using collect_entries [OF report.hyps(2)] by (auto simp: traffic_inv_def split: if_splits)
next
  case (unheard s)
  then show ?case by (auto simp: traffic_inv_def clearTraffic_def split: if_splits)
qed

lemma traffic_reachable_inv: "traffic_reachable s \<Longrightarrow> traffic_inv s"
proof (induction rule: traffic_reachable.induct)
  case start
  show ?case by (simp add: traffic_inv_def initTraffic_def)
qed (blast intro: traffic_step_inv)

subsection \<open>What the reports promise\<close>

definition announced :: "(string \<times> int) trafficWorld" where
  "announced = \<lparr>traffic = \<lparr>requests = [(''c'', \<lparr>wr_tracker = (''c'', 0), wr_upload = 0,
     wr_download = 0, fresh = True, closedReports = 0\<rparr>)], running = True\<rparr>, watchers = 1\<rparr>"

lemma announced_reachable: "traffic_reachable announced"
proof -
  have "add (\<lambda>_. (0, 0)) ''c'' (''c'', 0) initTraffic = (traffic announced, True)"
    by (simp add: add_def initTraffic_def announced_def)
  with announce [of "\<lambda>_. (0, 0)" "''c''" "(''c'', 0)" "\<lparr>traffic = initTraffic, watchers = 0\<rparr>"
      "traffic announced" True]
  have "traffic_step \<lparr>traffic = initTraffic, watchers = 0\<rparr> announced"
    by (simp add: announced_def)
  then show ?thesis by (blast intro: traffic_reachable.intros)
qed

text \<open>
  \<^bold>\<open>C15.\<close> A connection that has closed is forgotten after at most seven reports, whether or not the
  message queue takes them: the watch never holds a closed connection for ever.
\<close>

theorem closed_request_forgotten:
  assumes "traffic_reachable s" and "\<forall>t \<in> set ts. \<not> tick_open t i" and "7 \<le> length ts"
  shows "map_of (requests (fold collectTick ts (traffic s))) i = None"
proof (rule closed_gone)
  have inv: "traffic_inv s"
    using assms(1) by (rule traffic_reachable_inv)
  then show "gm_wf (requests (traffic s))" by (simp add: traffic_inv_def)
  show "\<forall>t \<in> set ts. \<not> tick_open t i" by fact
  fix r
  assume "map_of (requests (traffic s)) i = Some r"
  then have "(i, r) \<in> set (requests (traffic s))" by (rule map_of_SomeD)
  with inv assms(3) show "ticksLeft r \<le> length ts \<and> closedReports r \<le> requestTrafficCloseRetries"
    by (auto simp: traffic_inv_def ticksLeft_def requestTrafficCloseRetries_def)
qed

definition refusedTick :: "(string \<times> int) tick" where
  "refusedTick = \<lparr>tick_open = (\<lambda>_. False), tick_info = (\<lambda>_. (1, 2)), tick_queue = (\<lambda>_. False)\<rparr>"

lemma closed_request_forgotten_witness:
  "map_of (requests (fold collectTick (replicate 7 refusedTick) (traffic announced))) ''c'' = None \<and>
   \<not> tick_queue refusedTick []"
  using closed_request_forgotten [OF announced_reachable, of "replicate 7 refusedTick" "''c''"]
  by (simp add: refusedTick_def)

text \<open>
  After a report that is queued the host knows the totals just read of every request that is
  still followed, and of a request dropped with it the report holds the last totals unless the host
  knew them; a request whose connection is open and never seen closed is not dropped.
\<close>

lemma reported_totals:
  assumes "traffic_reachable s" and "map_of (requests (traffic s)) i = Some r"
    and "collect isOpen info queue (traffic s) = (w, watching)"
    and "reportQueued isOpen info queue (traffic s)"
  shows "(case map_of (requests w) i of
      Some r' \<Rightarrow> (wr_upload r', wr_download r') = info (wr_tracker r)
    | None \<Rightarrow> \<not> (isOpen i \<and> closedReports r = 0) \<and>
        (info (wr_tracker r) = (wr_upload r, wr_download r) \<or>
         (\<exists>t \<in> set (reportOf isOpen info (traffic s)). rt_id t = i \<and>
            (rt_upload t, rt_download t) = info (wr_tracker r))))"
proof -
  have wf: "gm_wf (requests (traffic s))"
    using traffic_reachable_inv [OF assms(1)] by (simp add: traffic_inv_def)
  have w: "w = fst (collect isOpen info queue (traffic s))"
    using assms(3) by simp
  have "map_of (requests w) i \<noteq> None" if "isOpen i" "closedReports r = 0"
    using open_kept [OF wf, of "\<lparr>tick_open = isOpen, tick_info = info, tick_queue = queue\<rparr>" i r]
      that assms(2) by (auto simp: collectTick_def w)
  with queued_totals [OF wf assms(4,2)] show ?thesis
    by (auto simp: w split: option.splits)
qed

text \<open>
  However announcements, reports and the end of listening interleave, at most one goroutine
  reports, and one does exactly while there is a request to report.
\<close>

lemma one_reporting_goroutine:
  assumes "traffic_reachable s"
  shows "watchers s = (if requests (traffic s) = [] then 0 else 1) \<and>
    (running (traffic s) \<longleftrightarrow> requests (traffic s) \<noteq> [])"
  using traffic_reachable_inv [OF assms] by (simp add: traffic_inv_def)

end
