(* ===== verification/TunSettle.thy ===== *)
theory TunSettle
  imports Prelude
begin

section \<open>Holding checks while the TUN toggles (\<open>core/tun_settle.go\<close>)\<close>

text \<open>
  Two gates hold the host's routed checks: \<open>tunSettle\<close> counts the toggles in progress, \<open>tunStart\<close>
  covers the time between a config with the TUN on and the start of the listener. A gate is a
  channel that is closed to let the checks go; a channel is its number here, \<open>closedDone\<close> lists the
  closed ones in the order they were closed. Closing \<open>nil\<close> or a closed channel panics in Go: the
  operations answer \<open>None\<close> then, and the invariant shows they never do. Ghosts: \<open>liveHolds\<close> are the
  release functions handed out and not called yet.
\<close>

record tunWorld =
  holders :: nat
  toggleDone :: "nat option"
  startDone :: "nat option"
  startTimer :: bool
  liveHolds :: "nat list"
  closedDone :: "nat list"
  nextDone :: nat
  nextHold :: nat

definition initTun :: tunWorld where
  "initTun = \<lparr>holders = 0, toggleDone = None, startDone = None, startTimer = False,
     liveHolds = [], closedDone = [], nextDone = 0, nextHold = 0\<rparr>"

definition directProxyName :: string where "directProxyName = ''DIRECT''"

definition closeDone :: "nat option \<Rightarrow> tunWorld \<Rightarrow> tunWorld option" where
  "closeDone ch w =
     (case ch of
        None \<Rightarrow> None
      | Some c \<Rightarrow> if c \<in> set (closedDone w) then None
                  else Some (w\<lparr>closedDone := closedDone w @ [c]\<rparr>))"

text \<open>A config is \<open>None\<close> for \<open>nil\<close>, or whether its TUN is enabled.\<close>

definition tunWillToggle :: "bool \<Rightarrow> bool option \<Rightarrow> bool \<Rightarrow> bool \<Rightarrow> bool" where
  "tunWillToggle android cfg isRunning tunEnabled \<longleftrightarrow>
     \<not> android \<and> cfg \<noteq> None \<and> isRunning \<and> the cfg \<noteq> tunEnabled"

definition holdTunSettle :: "tunWorld \<Rightarrow> tunWorld \<times> nat" where
  "holdTunSettle w =
     (let w = (if holders w = 0 then w\<lparr>toggleDone := Some (nextDone w), nextDone := Suc (nextDone w)\<rparr>
               else w);
          w = w\<lparr>holders := Suc (holders w)\<rparr>
      in (w\<lparr>liveHolds := nextHold w # liveHolds w, nextHold := Suc (nextHold w)\<rparr>, nextHold w))"

text \<open>The function \<open>holdTunSettle\<close> returns, run through its \<open>sync.Once\<close>.\<close>

definition releaseHold :: "nat \<Rightarrow> tunWorld \<Rightarrow> tunWorld option" where
  "releaseHold h w =
     (if h \<notin> set (liveHolds w) then Some w
      else (let w = w\<lparr>liveHolds := removeAll h (liveHolds w), holders := holders w - 1\<rparr>
            in if holders w = 0
               then map_option (\<lambda>w. w\<lparr>toggleDone := None\<rparr>) (closeDone (toggleDone w) w)
               else Some w))"

text \<open>\<open>None\<close> stands for the release function that does nothing.\<close>

definition beginTunSettle ::
  "bool \<Rightarrow> bool option \<Rightarrow> bool \<Rightarrow> bool \<Rightarrow> tunWorld \<Rightarrow> tunWorld \<times> nat option" where
  "beginTunSettle android cfg isRunning tunEnabled w =
     (if \<not> tunWillToggle android cfg isRunning tunEnabled then (w, None)
      else (case holdTunSettle w of (w, h) \<Rightarrow> (w, Some h)))"

definition holdForTunStart :: "bool \<Rightarrow> bool option \<Rightarrow> bool \<Rightarrow> tunWorld \<Rightarrow> tunWorld" where
  "holdForTunStart android cfg isRunning w =
     (if android \<or> cfg = None \<or> \<not> the cfg \<or> isRunning then w
      else (let w = (if startDone w = None
                     then w\<lparr>startDone := Some (nextDone w), nextDone := Suc (nextDone w)\<rparr> else w)
            in w\<lparr>startTimer := True\<rparr>))"

definition endTunStart :: "tunWorld \<Rightarrow> tunWorld option" where
  "endTunStart w =
     (let w = w\<lparr>startTimer := False\<rparr>
      in case startDone w of
           None \<Rightarrow> Some w
         | Some c \<Rightarrow> map_option (\<lambda>w. w\<lparr>startDone := None\<rparr>) (closeDone (Some c) w))"

text \<open>
  The channels a check waits for, in order. \<open>w'\<close> is the state it looks at again once the start
  gate has opened, \<open>opened\<close> whether that came before the limit.
\<close>

definition awaitTunSettled :: "string \<Rightarrow> tunWorld \<Rightarrow> bool \<Rightarrow> tunWorld \<Rightarrow> nat list" where
  "awaitTunSettled proxyName w opened w' =
     (let start = (if proxyName \<noteq> directProxyName then startDone w else None);
          gate = (\<lambda>ch. case ch of None \<Rightarrow> [] | Some c \<Rightarrow> [c])
      in case start of
           None \<Rightarrow> gate (toggleDone w)
         | Some c \<Rightarrow> if opened then c # gate (toggleDone w') else [c])"

text \<open>
  The steps of the rest of the core. \<open>scheduleTunAftershock\<close> is a hold and, three seconds later and
  whether or not the reset panics, its release; the timer of the start gate is an \<open>endTunStart\<close>.
\<close>

inductive tun_step :: "tunWorld \<Rightarrow> tunWorld \<Rightarrow> bool" where
  hold: "holdTunSettle w = (w', h) \<Longrightarrow> tun_step w w'"
| release: "releaseHold h w = Some w' \<Longrightarrow> tun_step w w'"
| hold_start: "tun_step w (holdForTunStart android cfg isRunning w)"
| end_start: "endTunStart w = Some w' \<Longrightarrow> tun_step w w'"

inductive tun_reachable :: "tunWorld \<Rightarrow> bool" where
  start: "tun_reachable initTun"
| step: "tun_reachable w \<Longrightarrow> tun_step w w' \<Longrightarrow> tun_reachable w'"

definition gates :: "tunWorld \<Rightarrow> nat set" where
  "gates w = set_option (toggleDone w) \<union> set_option (startDone w)"

definition hold_inv :: "tunWorld \<Rightarrow> bool" where
  "hold_inv w \<longleftrightarrow>
     holders w = length (liveHolds w) \<and> distinct (liveHolds w) \<and>
     (\<forall>h \<in> set (liveHolds w). h < nextHold w) \<and>
     (toggleDone w = None \<longleftrightarrow> holders w = 0) \<and>
     (startDone w = None \<longleftrightarrow> \<not> startTimer w)"

definition gate_inv :: "tunWorld \<Rightarrow> bool" where
  "gate_inv w \<longleftrightarrow>
     set_option (toggleDone w) \<inter> set_option (startDone w) = {} \<and>
     distinct (closedDone w) \<and> gates w \<inter> set (closedDone w) = {} \<and>
     gates w \<union> set (closedDone w) = {..<nextDone w}"

definition tun_inv :: "tunWorld \<Rightarrow> bool" where
  "tun_inv w \<longleftrightarrow> hold_inv w \<and> gate_inv w"

lemma closeDone_gate:
  assumes "gate_inv w" and "c \<in> gates w"
  shows "closeDone (Some c) w = Some (w\<lparr>closedDone := closedDone w @ [c]\<rparr>)"
  using assms by (auto simp: closeDone_def gate_inv_def)

text \<open>A new gate in a free place, and a gate closed and taken out.\<close>

lemma gate_inv_open:
  assumes "gate_inv w"
  shows "toggleDone w = None \<Longrightarrow>
      gate_inv (w\<lparr>toggleDone := Some (nextDone w), nextDone := Suc (nextDone w)\<rparr>)"
    and "startDone w = None \<Longrightarrow>
      gate_inv (w\<lparr>startDone := Some (nextDone w), nextDone := Suc (nextDone w)\<rparr>)"
proof -
  have "nextDone w \<notin> gates w \<union> set (closedDone w)"
    using assms by (simp add: gate_inv_def)
  then show "toggleDone w = None \<Longrightarrow>
      gate_inv (w\<lparr>toggleDone := Some (nextDone w), nextDone := Suc (nextDone w)\<rparr>)"
    and "startDone w = None \<Longrightarrow>
      gate_inv (w\<lparr>startDone := Some (nextDone w), nextDone := Suc (nextDone w)\<rparr>)"
    using assms by (auto simp: gate_inv_def gates_def lessThan_Suc)
qed

lemma gate_inv_close:
  assumes "gate_inv w"
  shows "toggleDone w = Some c \<Longrightarrow>
      gate_inv (w\<lparr>closedDone := closedDone w @ [c], toggleDone := None\<rparr>)"
    and "startDone w = Some c \<Longrightarrow>
      gate_inv (w\<lparr>closedDone := closedDone w @ [c], startDone := None\<rparr>)"
  using assms by (simp_all add: gate_inv_def gates_def)

lemma gate_inv_fields [simp]:
  "gate_inv (w\<lparr>holders := n\<rparr>) = gate_inv w" "gate_inv (w\<lparr>liveHolds := hs\<rparr>) = gate_inv w"
  "gate_inv (w\<lparr>nextHold := n\<rparr>) = gate_inv w" "gate_inv (w\<lparr>startTimer := b\<rparr>) = gate_inv w"
  by (simp_all add: gate_inv_def gates_def)

lemma tun_inv_hold [inv_intros]: "tun_inv w \<Longrightarrow> tun_inv (fst (holdTunSettle w))"
  using gate_inv_open(1) [of w]
  by (auto simp: tun_inv_def hold_inv_def holdTunSettle_def Let_def)

lemma tun_inv_hold_start [inv_intros]:
  "tun_inv w \<Longrightarrow> tun_inv (holdForTunStart android cfg isRunning w)"
  using gate_inv_open(2) [of w]
  by (auto simp: tun_inv_def hold_inv_def holdForTunStart_def Let_def)

lemma length_removeAll_distinct:
  "distinct xs \<Longrightarrow> x \<in> set xs \<Longrightarrow> Suc (length (removeAll x xs)) = length xs"
  by (induction xs) auto

lemma releaseHold_inv:
  assumes "tun_inv w"
  obtains w' where "releaseHold h w = Some w'" "tun_inv w'"
proof (cases "h \<in> set (liveHolds w)")
  case False
  with assms that show ?thesis by (simp add: releaseHold_def)
next
  case True
  let ?u = "w\<lparr>liveHolds := removeAll h (liveHolds w), holders := holders w - 1\<rparr>"
  have gate: "gate_inv ?u"
    using assms by (simp add: tun_inv_def)
  have len: "Suc (length (removeAll h (liveHolds w))) = holders w"
    using assms True by (simp add: tun_inv_def hold_inv_def length_removeAll_distinct)
  then obtain c where c: "toggleDone w = Some c"
    using assms by (auto simp: tun_inv_def hold_inv_def)
  show ?thesis
  proof (cases "holders w = 1")
    case False
    with True len have "releaseHold h w = Some ?u"
      by (simp add: releaseHold_def Let_def)
    moreover have "hold_inv ?u"
      using assms len False c by (simp add: tun_inv_def hold_inv_def distinct_removeAll)
    ultimately show ?thesis using that gate by (simp add: tun_inv_def)
  next
    case last: True
    let ?v = "?u\<lparr>closedDone := closedDone w @ [c], toggleDone := None\<rparr>"
    have "closeDone (Some c) ?u = Some (?u\<lparr>closedDone := closedDone w @ [c]\<rparr>)"
      using closeDone_gate [OF gate, of c] c by (simp add: gates_def)
    with True last c have "releaseHold h w = Some ?v"
      by (simp add: releaseHold_def Let_def)
    moreover have "removeAll h (liveHolds w) = []"
      using len last by (cases "removeAll h (liveHolds w)") simp_all
    then have "hold_inv ?v"
      using assms last c by (simp add: tun_inv_def hold_inv_def)
    moreover have "gate_inv ?v"
      using gate_inv_close(1) [OF gate, of c] c by simp
    ultimately show ?thesis using that by (simp add: tun_inv_def)
  qed
qed

lemma endTunStart_inv:
  assumes "tun_inv w"
  obtains w' where "endTunStart w = Some w'" "tun_inv w'"
proof (cases "startDone w")
  case None
  with assms that show ?thesis
    by (auto simp: endTunStart_def Let_def tun_inv_def hold_inv_def)
next
  case (Some c)
  let ?u = "w\<lparr>startTimer := False\<rparr>"
  have gate: "gate_inv ?u"
    using assms by (simp add: tun_inv_def)
  have "closeDone (Some c) ?u = Some (?u\<lparr>closedDone := closedDone w @ [c]\<rparr>)"
    using closeDone_gate [OF gate, of c] Some by (simp add: gates_def)
  with Some have "endTunStart w = Some (?u\<lparr>closedDone := closedDone w @ [c], startDone := None\<rparr>)"
    by (simp add: endTunStart_def Let_def)
  moreover have "tun_inv (?u\<lparr>closedDone := closedDone w @ [c], startDone := None\<rparr>)"
    using gate_inv_close(2) [OF gate, of c] Some assms by (simp add: tun_inv_def hold_inv_def)
  ultimately show ?thesis using that by simp
qed

lemma tun_step_inv: "tun_step w w' \<Longrightarrow> tun_inv w \<Longrightarrow> tun_inv w'"
proof (induction rule: tun_step.induct)
  case (hold w w' h)
  then show ?case using tun_inv_hold [of w] by simp
next
  case (release h w w')
  then show ?case using releaseHold_inv [of w h] by auto
next
  case (hold_start w android cfg isRunning)
  then show ?case by (intro inv_intros)
next
  case (end_start w w')
  then show ?case using endTunStart_inv [of w] by auto
qed

lemma tun_reachable_inv: "tun_reachable w \<Longrightarrow> tun_inv w"
proof (induction rule: tun_reachable.induct)
  case start
  show ?case by (simp add: tun_inv_def hold_inv_def gate_inv_def initTun_def gates_def)
qed (blast intro: tun_step_inv)

lemma tun_steps_inv: "tun_step\<^sup>*\<^sup>* w w' \<Longrightarrow> tun_inv w \<Longrightarrow> tun_inv w'"
  by (induction rule: rtranclp_induct) (blast intro: tun_step_inv)+

lemma tun_step_next: "tun_step w w' \<Longrightarrow> nextDone w \<le> nextDone w'"
  by (induction rule: tun_step.induct)
    (auto simp: holdTunSettle_def releaseHold_def holdForTunStart_def endTunStart_def closeDone_def
      Let_def split: if_splits option.splits)

lemma tun_steps_next: "tun_step\<^sup>*\<^sup>* w w' \<Longrightarrow> nextDone w \<le> nextDone w'"
  by (induction rule: rtranclp_induct) (auto dest: tun_step_next)

subsection \<open>What the gates promise\<close>

text \<open>
  No order of toggles, releases, aftershocks, starts and timeouts closes a gate twice or
  closes one that is not there, either of which would end the process, and a release function that
  runs twice counts once.
\<close>

lemma gates_never_panic:
  assumes "tun_reachable w"
  shows "releaseHold h w \<noteq> None \<and> endTunStart w \<noteq> None \<and>
    Option.bind (releaseHold h w) (releaseHold h) = releaseHold h w"
proof -
  have inv: "tun_inv w" using assms by (rule tun_reachable_inv)
  obtain w' where w': "releaseHold h w = Some w'" "tun_inv w'"
    using inv by (rule releaseHold_inv)
  moreover have "h \<notin> set (liveHolds w')"
    using w'(1) by (auto simp: releaseHold_def closeDone_def Let_def split: if_splits option.splits)
  moreover obtain w'' where "endTunStart w = Some w''"
    using inv by (rule endTunStart_inv)
  ultimately show ?thesis by (simp add: releaseHold_def [of h w'])
qed

text \<open>A config with the TUN on before the start, and a toggle.\<close>

definition startingWorld :: tunWorld where
  "startingWorld = fst (holdTunSettle (holdForTunStart False (Some True) False initTun))"

lemma startingWorld_reachable: "tun_reachable startingWorld"
proof -
  have "tun_reachable (holdForTunStart False (Some True) False initTun)"
    using tun_reachable.intros hold_start by blast
  moreover obtain w' h where
    "holdTunSettle (holdForTunStart False (Some True) False initTun) = (w', h)" by fastforce
  ultimately show ?thesis
    unfolding startingWorld_def using tun_reachable.step tun_step.hold by fastforce
qed

text \<open>
  \<^bold>\<open>C9.\<close> A held check is let go: every gate it waits for, the one it found when it came and the one
  it found when the start was over, is closed once every toggle has been released and the start has
  ended; and a pending start always has its timer armed, so that it ends even if nobody ends it.
\<close>

theorem held_checks_let_go:
  assumes "tun_reachable w" and "tun_step\<^sup>*\<^sup>* w w'" and "tun_step\<^sup>*\<^sup>* w' w''"
    and "liveHolds w'' = []" and "startDone w'' = None"
  shows "set (awaitTunSettled proxyName w opened w') \<subseteq> set (closedDone w'') \<and>
    (startTimer w \<longleftrightarrow> startDone w \<noteq> None)"
proof -
  have inv: "tun_inv w" "tun_inv w'" "tun_inv w''"
    using tun_reachable_inv [OF assms(1)] tun_steps_inv assms(2,3) by blast+
  have bound: "gates v \<subseteq> {..<nextDone v}" if "tun_inv v" for v
    using that by (auto simp: tun_inv_def gate_inv_def)
  have "toggleDone w'' = None"
    using inv(3) assms(4) by (simp add: tun_inv_def hold_inv_def)
  then have closed: "set (closedDone w'') = {..<nextDone w''}"
    using inv(3) assms(5) by (simp add: tun_inv_def gate_inv_def gates_def)
  have "nextDone w \<le> nextDone w''" "nextDone w' \<le> nextDone w''"
    using tun_steps_next assms(2,3) le_trans by blast+
  with bound inv(1,2) have "gates w \<subseteq> set (closedDone w'')" "gates w' \<subseteq> set (closedDone w'')"
    unfolding closed by force+
  then have "set (awaitTunSettled proxyName w opened w') \<subseteq> set (closedDone w'')"
    by (auto simp: awaitTunSettled_def gates_def Let_def split: option.splits if_splits)
  moreover have "startTimer w \<longleftrightarrow> startDone w \<noteq> None"
    using inv(1) by (simp add: tun_inv_def hold_inv_def)
  ultimately show ?thesis ..
qed

definition startedWorld :: tunWorld where
  "startedWorld = the (endTunStart startingWorld)"

lemma started: "endTunStart startingWorld = Some startedWorld"
  by (simp add: startedWorld_def startingWorld_def holdTunSettle_def holdForTunStart_def initTun_def
      endTunStart_def closeDone_def)

lemma held_checks_let_go_witness:
  "awaitTunSettled [] startingWorld True startedWorld = [0, 1] \<and>
   set [0, 1] \<subseteq> set (closedDone (the (releaseHold 0 startedWorld)))"
proof -
  have step: "tun_step startingWorld startedWorld"
    using started by (rule end_start)
  have rel: "releaseHold 0 startedWorld = Some (the (releaseHold 0 startedWorld))"
    and gone: "liveHolds (the (releaseHold 0 startedWorld)) = []"
      "startDone (the (releaseHold 0 startedWorld)) = None"
    by (simp_all add: startedWorld_def startingWorld_def holdTunSettle_def holdForTunStart_def
        initTun_def endTunStart_def closeDone_def releaseHold_def)
  have waits: "awaitTunSettled [] startingWorld True startedWorld = [0, 1]"
    by (simp add: startedWorld_def startingWorld_def holdTunSettle_def holdForTunStart_def
        initTun_def endTunStart_def closeDone_def awaitTunSettled_def directProxyName_def)
  from held_checks_let_go [OF startingWorld_reachable r_into_rtranclp [of tun_step, OF step]
      r_into_rtranclp [of tun_step, OF release [OF rel]] gone, of "[]" True] waits
  show ?thesis by simp
qed

end
