(* ===== verification/Region.thy ===== *)
theory Region
  imports GoStrings "HOL-Library.List_Lexorder" "HOL-Library.Char_ord"
begin

section \<open>Country codes (\<open>core/region.go\<close>)\<close>

text \<open>
  The table of the ISO 3166 codes is one string of five bytes per entry; \<open>normalizeRegion\<close> searches
  it by halves. Go compares strings byte by byte, which is the lexicographic order of lists here.
  The lemmas relate the search to a lookup in the table read as a list of pairs.
\<close>

definition iso3166Packed :: string where
  "iso3166Packed =
     ''ABWAWAFGAFAGOAOAIAAIALAAXALBALANDADAREAEARGARARMAMASMASATAAQ'' @
     ''ATFTFATGAGAUSAUAUTATAZEAZBDIBIBELBEBENBJBESBQBFABFBGDBDBGRBG'' @
     ''BHRBHBHSBSBIHBABLMBLBLRBYBLZBZBMUBMBOLBOBRABRBRBBBBRNBNBTNBT'' @
     ''BVTBVBWABWCAFCFCANCACCKCCCHECHCHLCLCHNCNCIVCICMRCMCODCDCOGCG'' @
     ''COKCKCOLCOCOMKMCPVCVCRICRCUBCUCUWCWCXRCXCYMKYCYPCYCZECZDEUDE'' @
     ''DJIDJDMADMDNKDKDOMDODZADZECUECEGYEGERIERESHEHESPESESTEEETHET'' @
     ''FINFIFJIFJFLKFKFRAFRFROFOFSMFMGABGAGBRGBGEOGEGGYGGGHAGHGIBGI'' @
     ''GINGNGLPGPGMBGMGNBGWGNQGQGRCGRGRDGDGRLGLGTMGTGUFGFGUMGUGUYGY'' @
     ''HKGHKHMDHMHNDHNHRVHRHTIHTHUNHUIDNIDIMNIMINDINIOTIOIRLIEIRNIR'' @
     ''IRQIQISLISISRILITAITJAMJMJEYJEJORJOJPNJPKAZKZKENKEKGZKGKHMKH'' @
     ''KIRKIKNAKNKORKRKWTKWLAOLALBNLBLBRLRLBYLYLCALCLIELILKALKLSOLS'' @
     ''LTULTLUXLULVALVMACMOMAFMFMARMAMCOMCMDAMDMDGMGMDVMVMEXMXMHLMH'' @
     ''MKDMKMLIMLMLTMTMMRMMMNEMEMNGMNMNPMPMOZMZMRTMRMSRMSMTQMQMUSMU'' @
     ''MWIMWMYSMYMYTYTNAMNANCLNCNERNENFKNFNGANGNICNINIUNUNLDNLNORNO'' @
     ''NPLNPNRUNRNZLNZOMNOMPAKPKPANPAPCNPNPERPEPHLPHPLWPWPNGPGPOLPL'' @
     ''PRIPRPRKKPPRTPTPRYPYPSEPSPYFPFQATQAREUREROURORUSRURWARWSAUSA'' @
     ''SDNSDSENSNSGPSGSGSGSSHNSHSJMSJSLBSBSLESLSLVSVSMRSMSOMSOSPMPM'' @
     ''SRBRSSSDSSSTPSTSURSRSVKSKSVNSISWESESWZSZSXMSXSYCSCSYRSYTCATC'' @
     ''TCDTDTGOTGTHATHTJKTJTKLTKTKMTMTLSTLTONTOTTOTTTUNTNTURTRTUVTV'' @
     ''TWNTWTZATZUGAUGUKRUAUMIUMURYUYUSAUSUZBUZVATVAVCTVCVENVEVGBVG'' @
     ''VIRVIVNMVNVUTVUWLFWFWSMWSYEMYEZAFZAZMBZMZWEZW''"

definition isAsciiUpper :: "string \<Rightarrow> bool" where
  "isAsciiUpper value \<longleftrightarrow> list_all (\<lambda>c. CHR ''A'' \<le> c \<and> c \<le> CHR ''Z'') value"

text \<open>The loop of the binary search over the entries from \<open>low\<close> up to \<open>high\<close>.\<close>

function searchRegion :: "string \<Rightarrow> string \<Rightarrow> nat \<Rightarrow> nat \<Rightarrow> string" where
  "searchRegion packed c low high =
     (if low < high then
        (let mid = (low + high) div 2;
             entry = take 3 (drop (mid * 5) packed)
         in if entry < c then searchRegion packed c (mid + 1) high
            else if c < entry then searchRegion packed c low mid
            else take 2 (drop (mid * 5 + 3) packed))
      else [])"
  by pat_completeness auto
termination
  by (relation "measure (\<lambda>(_, _, low, high). high - low)") auto

declare searchRegion.simps [simp del]

definition normalizeRegion :: "string \<Rightarrow> string" where
  "normalizeRegion c =
     (let c = to_upper (trim_space c) in
      if length c = 2 then (if isAsciiUpper c then c else [])
      else if length c = 3 then
        (if \<not> isAsciiUpper c then []
         else searchRegion iso3166Packed c 0 (length iso3166Packed div 5))
      else [])"

subsection \<open>The table as pairs\<close>

fun entries :: "string \<Rightarrow> (string \<times> string) list" where
  "entries (a # b # c # d # e # rest) = ([a, b, c], [d, e]) # entries rest"
| "entries _ = []"

fun ascending :: "string list \<Rightarrow> bool" where
  "ascending (x # y # zs) \<longleftrightarrow> x < y \<and> ascending (y # zs)"
| "ascending _ \<longleftrightarrow> True"

definition iso3166 :: "(string \<times> string) list" where
  "iso3166 = entries iso3166Packed"

lemma ascending_sorted: "ascending xs \<Longrightarrow> sorted_wrt (<) xs"
proof (induction xs rule: ascending.induct)
  case (1 x y zs)
  then have "sorted_wrt (<) (y # zs)" "x < y" by auto
  then show ?case by (auto intro: less_trans)
qed auto

lemma length_entries: "length (entries s) = length s div 5"
  by (induction s rule: entries.induct) auto

lemma entries_nth:
  "i < length (entries s) \<Longrightarrow>
     entries s ! i = (take 3 (drop (i * 5) s), take 2 (drop (i * 5 + 3) s))"
proof (induction s arbitrary: i rule: entries.induct)
  case (1 a b c d e rest)
  show ?case
  proof (cases i)
    case 0
    then show ?thesis by (simp add: numeral_eq_Suc)
  next
    case (Suc j)
    with 1 show ?thesis by (simp add: numeral_eq_Suc)
  qed
qed auto

lemma map_of_nth_sorted:
  fixes t :: "('a::linorder \<times> 'b) list"
  assumes "sorted_wrt (<) (map fst t)" and "i < length t"
  shows "map_of t (fst (t ! i)) = Some (snd (t ! i))"
proof -
  have "distinct (map fst t)"
    using assms(1) by (simp add: strict_sorted_iff)
  with assms(2) show ?thesis
    by (metis map_of_eq_Some_iff nth_mem prod.collapse)
qed

lemma sorted_keys_less:
  fixes t :: "('a::linorder \<times> 'b) list"
  assumes "sorted_wrt (<) (map fst t)" and "i < length t" and "j < length t"
  shows "fst (t ! i) < fst (t ! j) \<longleftrightarrow> i < j"
  using assms sorted_wrt_nth_less [OF assms(1), of i j] sorted_wrt_nth_less [OF assms(1), of j i]
  by (cases i j rule: linorder_cases) auto

text \<open>The search finds the entry if it is among those looked at.\<close>

lemma searchRegion_lookup:
  assumes "sorted_wrt (<) (map fst (entries packed))" and "high \<le> length (entries packed)"
    and "\<And>i. i < length (entries packed) \<Longrightarrow> fst (entries packed ! i) = c \<Longrightarrow> low \<le> i \<and> i < high"
  shows "searchRegion packed c low high =
    (case map_of (entries packed) c of Some a \<Rightarrow> a | None \<Rightarrow> [])"
  using assms
proof (induction packed c low high rule: searchRegion.induct)
  case (1 packed c low high)
  let ?t = "entries packed"
  note less = sorted_keys_less [OF "1.prems"(1)]
  show ?case
  proof (cases "low < high")
    case False
    with "1.prems"(3) have "\<forall>i < length ?t. fst (?t ! i) \<noteq> c" by force
    then have "map_of ?t c = None"
      unfolding map_of_eq_None_iff by (metis (no_types, lifting) imageE in_set_conv_nth)
    with False show ?thesis by (subst searchRegion.simps) simp
  next
    case True
    let ?m = "(low + high) div 2"
    have m: "?m < length ?t" using True "1.prems"(2) by simp
    then have entry: "take 3 (drop (?m * 5) packed) = fst (?t ! ?m)"
      "take 2 (drop (?m * 5 + 3) packed) = snd (?t ! ?m)"
      by (simp_all add: entries_nth)
    consider "fst (?t ! ?m) < c" | "c < fst (?t ! ?m)" | "fst (?t ! ?m) = c" by fastforce
    then show ?thesis
    proof cases
      case 1
      have "?m + 1 \<le> i" if "i < length ?t" "fst (?t ! i) = c" for i
        using less [OF m that(1)] 1 that(2) by simp
      with "1.prems" have "searchRegion packed c (?m + 1) high =
          (case map_of ?t c of Some a \<Rightarrow> a | None \<Rightarrow> [])"
        using "1.IH"(1) [OF True refl refl] 1 entry by simp
      with True 1 entry show ?thesis by (subst searchRegion.simps) (simp add: Let_def)
    next
      case 2
      have "i < ?m" if "i < length ?t" "fst (?t ! i) = c" for i
        using less [OF that(1) m] 2 that(2) by simp
      with "1.prems" m have "searchRegion packed c low ?m =
          (case map_of ?t c of Some a \<Rightarrow> a | None \<Rightarrow> [])"
        using "1.IH"(2) [OF True refl refl] 2 entry by simp
      moreover have "\<not> fst (?t ! ?m) < c"
        using 2 by (rule less_not_sym)
      ultimately show ?thesis using True 2 entry by (subst searchRegion.simps) (simp add: Let_def)
    next
      case 3
      then have "map_of ?t c = Some (snd (?t ! ?m))"
        using map_of_nth_sorted [OF "1.prems"(1) m] by simp
      with True 3 entry show ?thesis by (subst searchRegion.simps) (simp add: Let_def)
    qed
  qed
qed

lemma iso3166_ascending: "ascending (map fst iso3166)"
  by code_simp

lemma iso3166_values: "list_all (\<lambda>(_, a). length a = 2 \<and> isAsciiUpper a) iso3166"
  by code_simp

lemma searchRegion_table:
  "searchRegion iso3166Packed d 0 (length iso3166Packed div 5) =
     (case map_of iso3166 d of Some a \<Rightarrow> a | None \<Rightarrow> [])"
  unfolding iso3166_def
  using ascending_sorted [OF iso3166_ascending]
  by (intro searchRegion_lookup) (simp_all add: iso3166_def length_entries)

subsection \<open>What a normalized region is\<close>

text \<open>
  \<^bold>\<open>C10.\<close> \<open>normalizeRegion\<close> keeps two capital letters, turns three into the alpha-2 code the table
  lists for them, whatever case and white space they came with, and answers the empty string for
  everything else: the search by halves misses no entry of the table and finds no other.
\<close>

theorem normalizeRegion_lookup:
  "normalizeRegion c =
    (let c = to_upper (trim_space c) in
     if length c = 2 \<and> isAsciiUpper c then c
     else if length c = 3 \<and> isAsciiUpper c
       then (case map_of iso3166 c of Some a \<Rightarrow> a | None \<Rightarrow> [])
     else [])"
  by (simp add: normalizeRegion_def searchRegion_table Let_def)

text \<open>The form every region has that the core reports.\<close>

definition region_ok :: "string \<Rightarrow> bool" where
  "region_ok r \<longleftrightarrow> r = [] \<or> length r = 2 \<and> isAsciiUpper r"

lemma region_ok_Nil [simp]: "region_ok []"
  by (simp add: region_ok_def)

lemma normalizeRegion_ok [simp]: "region_ok (normalizeRegion c)"
proof -
  have "length a = 2 \<and> isAsciiUpper a" if "map_of iso3166 d = Some a" for d a
    using that iso3166_values by (auto simp: list_all_iff dest: map_of_SomeD)
  then show ?thesis
    by (auto simp: normalizeRegion_def searchRegion_table Let_def region_ok_def split: option.split)
qed

end
