(* ===== verification/Probe.thy ===== *)
theory Probe
  imports Route Slots
begin

section \<open>Probes through the tunnel (\<open>core/probe.go\<close>)\<close>

text \<open>
  A probe is one HTTP request over connections of its own dialer. The HTTP client, the network and
  the tunnel are arguments: a \<open>probeIO\<close> over the state \<open>'w\<close> of the rest of the core. Modelled are
  what a dialer remembers of its connections, how their routes reach it, the hits a request leaves,
  the scan of a body and \<open>runProbe\<close> with every early return.
\<close>

definition probeConcurrency :: nat where "probeConcurrency = 8"
definition defaultProbeTimeout :: int where "defaultProbeTimeout = 10000 * millisecond"
definition probeErrorTimeout :: string where "probeErrorTimeout = ''timeout''"
definition probeErrorFailed :: string where "probeErrorFailed = ''failed''"
definition probeScanOverlap :: nat where "probeScanOverlap = 256"

subsection \<open>Hits\<close>

text \<open>\<open>withHit\<close>: the first hit of the same host and proxy is overwritten, a new one appended.\<close>

fun withHit :: "RouteHit list \<Rightarrow> RouteHit \<Rightarrow> RouteHit list" where
  "withHit [] hit = [hit]"
| "withHit (h # hs) hit =
     (if hitHost h = hitHost hit \<and> hitProxy h = hitProxy hit then hit # hs
      else h # withHit hs hit)"

text \<open>\<open>hitRecorder\<close>: \<open>None\<close> is the \<open>nil\<close> recorder.\<close>

definition addHits :: "RouteHit list \<Rightarrow> RouteHit list option \<Rightarrow> RouteHit list option" where
  "addHits hits r = map_option (\<lambda>recorded. fold (\<lambda>h hs. withHit hs h) hits recorded) r"

definition hitKey :: "RouteHit \<Rightarrow> string \<times> string" where
  "hitKey h = (hitHost h, hitProxy h)"

definition exitsOf :: "RouteHit list \<Rightarrow> (string \<times> string) \<rightharpoonup> string" where
  "exitsOf hs = map_of (map (\<lambda>h. (hitKey h, hitExit h)) hs)"

lemma withHit_exits: "exitsOf (withHit hs h) = (exitsOf hs)(hitKey h \<mapsto> hitExit h)"
  by (induction hs) (auto simp: exitsOf_def hitKey_def)

lemma withHit_keys:
  "map hitKey (withHit hs h) =
     (if hitKey h \<in> set (map hitKey hs) then map hitKey hs else map hitKey hs @ [hitKey h])"
  by (induction hs) (auto simp: hitKey_def)

lemma fold_withHit_exits:
  "exitsOf (fold (\<lambda>h hs. withHit hs h) new hs) =
     (exitsOf hs) ++ (map_of (rev (map (\<lambda>h. (hitKey h, hitExit h)) new)))"
  by (induction new arbitrary: hs) (auto simp: withHit_exits map_add_def fun_eq_iff map_of_append
      split: option.split)

lemma fold_withHit_distinct:
  "distinct (map hitKey hs) \<Longrightarrow> distinct (map hitKey (fold (\<lambda>h hs. withHit hs h) new hs))"
  by (induction new arbitrary: hs) (simp_all add: withHit_keys)

subsection \<open>A dialer and its connections\<close>

text \<open>
  An attempt is a \<open>routedConn\<close>: the address and the hops once they are settled. \<open>pd_pending\<close> is
  the part of \<open>pendingProbeRoutes\<close> that belongs to this dialer: metadata to attempt.
\<close>

record attempt =
  at_address :: string
  at_route :: "string list option"

record probeDialer =
  pd_dials :: "attempt list"
  pd_last :: "nat option"
  pd_pending :: "(nat, nat) gomap"

definition newDialer :: probeDialer where
  "newDialer = \<lparr>pd_dials = [], pd_last = None, pd_pending = []\<rparr>"

definition track :: "string \<Rightarrow> probeDialer \<Rightarrow> probeDialer \<times> nat" where
  "track address d =
     (d\<lparr>pd_dials := pd_dials d @ [\<lparr>at_address = address, at_route = None\<rparr>]\<rparr>,
      length (pd_dials d))"

definition settle :: "nat \<Rightarrow> string list \<Rightarrow> probeDialer \<Rightarrow> probeDialer" where
  "settle i hops d =
     d\<lparr>pd_dials := (pd_dials d)[i := (pd_dials d ! i)\<lparr>at_route := Some hops\<rparr>]\<rparr>"

definition rememberDial :: "nat \<Rightarrow> probeDialer \<Rightarrow> probeDialer" where
  "rememberDial i d = d\<lparr>pd_last := Some i\<rparr>"

text \<open>
  \<open>awaitTunnel\<close>, a round for each poll: whether the tunnel is suspended, and whether the context ends before
  the next poll. The result is whether it returned without an error, \<open>None\<close> while it still waits.
\<close>

fun awaitTunnel :: "(bool \<times> bool) list \<Rightarrow> bool option" where
  "awaitTunnel [] = None"
| "awaitTunnel ((suspended, ctxDone) # polls) =
     (if \<not> suspended then Some True else if ctxDone then Some False else awaitTunnel polls)"

text \<open>It returns at the first poll that finds the tunnel up or the context done, and nowhere else.\<close>

lemma awaitTunnel_returns: "(awaitTunnel polls = None) = list_all (\<lambda>(suspended, ctxDone). suspended \<and> \<not> ctxDone) polls"
  by (induction polls rule: awaitTunnel.induct) auto

text \<open>
  \<open>dial\<close>, by what the proxy or the tunnel answers. \<open>pinned\<close> is the outcome of \<open>DialContext\<close> when the
  dialer has a proxy; otherwise \<open>tunnelUp\<close> says whether \<open>awaitTunnel\<close> returned without an error and
  \<open>metadata\<close> names the metadata of this connection.
\<close>

definition dial ::
  "bool \<Rightarrow> string list option option \<Rightarrow> bool \<Rightarrow> nat \<Rightarrow> string \<Rightarrow> probeDialer \<Rightarrow>
     probeDialer \<times> bool" where
  "dial metadataOk pinned tunnelUp metadata address d =
     (if \<not> metadataOk then (d, False)
      else (let (d, i) = track address d in
            case pinned of
              Some outcome \<Rightarrow>
                (case outcome of
                   None \<Rightarrow> (d, False)
                 | Some hops \<Rightarrow> (rememberDial i (settle i hops d), True))
            | None \<Rightarrow>
                if \<not> tunnelUp then (d, False)
                else (rememberDial i (d\<lparr>pd_pending := AList.update metadata i (pd_pending d)\<rparr>), True)))"

text \<open>\<open>notifyProbeRoute\<close> takes the connection out of the pending ones and settles its route.\<close>

definition notifyProbeRoute :: "nat \<Rightarrow> string list \<Rightarrow> probeDialer \<Rightarrow> probeDialer" where
  "notifyProbeRoute metadata hops d =
     (case map_of (pd_pending d) metadata of
        None \<Rightarrow> d
      | Some i \<Rightarrow> settle i hops (d\<lparr>pd_pending := AList.delete metadata (pd_pending d)\<rparr>))"

text \<open>\<open>routedConn.Close\<close>: only its own entry is deleted.\<close>

definition closeDial :: "nat \<Rightarrow> nat \<Rightarrow> probeDialer \<Rightarrow> probeDialer" where
  "closeDial metadata i d =
     (if map_of (pd_pending d) metadata = Some i
      then d\<lparr>pd_pending := AList.delete metadata (pd_pending d)\<rparr> else d)"

definition dialerRoute :: "probeDialer \<Rightarrow> string list option" where
  "dialerRoute d = Option.bind (pd_last d) (\<lambda>i. at_route (pd_dials d ! i))"

text \<open>\<open>hits\<close>; \<open>None\<close> where resolving an exit does not return.\<close>

definition hitOf :: "'m proxyEnv \<Rightarrow> string \<Rightarrow> attempt \<Rightarrow> RouteHit option" where
  "hitOf env proxyName a =
     map_option (\<lambda>exit. \<lparr>hitHost = at_address a, hitProxy = proxyName, hitExit = exit\<rparr>)
       (case at_route a of
          Some hops \<Rightarrow> Some (exitOfChains (allProxies env) hops)
        | None \<Rightarrow> resolveExit env (at_address a) proxyName)"

definition dialerHits :: "'m proxyEnv \<Rightarrow> string \<Rightarrow> probeDialer \<Rightarrow> RouteHit list option" where
  "dialerHits env proxyName d =
     fold (\<lambda>a hits. Option.bind hits (\<lambda>hits. map_option (withHit hits) (hitOf env proxyName a)))
       (pd_dials d) (Some [])"

subsection \<open>Scanning a body\<close>

text \<open>
  \<open>readProbeBody\<close> with an \<open>until\<close>: \<open>chunks\<close> are what the reads of the body answer, \<open>rest\<close> how much
  of the limit is left. The predicate sees the new bytes and up to 256 before them.
\<close>

fun scanBody :: "(string \<Rightarrow> bool) \<Rightarrow> string list \<Rightarrow> nat \<Rightarrow> string \<Rightarrow> string" where
  "scanBody until [] rest buffer = buffer"
| "scanBody until (chunk # chunks) rest buffer =
     (if rest = 0 then buffer
      else (let n = min rest (length chunk);
                before = length buffer - probeScanOverlap;
                buffer = buffer @ take n chunk
            in if 0 < n \<and> until (drop before buffer) then buffer
               else scanBody until chunks (rest - n) buffer))"

definition readProbeBody :: "string list \<Rightarrow> nat \<Rightarrow> (string \<Rightarrow> bool) option \<Rightarrow> string" where
  "readProbeBody chunks maxBody until =
     (case until of
        None \<Rightarrow> take maxBody (concat chunks)
      | Some p \<Rightarrow> scanBody p chunks maxBody [])"

subsection \<open>Requests and results\<close>

record probeRequest =
  rq_method :: string
  rq_url :: string
  rq_proxyName :: string
  rq_headers :: "(string, string) gomap"
  rq_body :: string
  rq_timeout :: int
  rq_maxBody :: nat
  rq_noRedirect :: bool
  rq_until :: "(string \<Rightarrow> bool) option"

record ProbeResult =
  pr_status :: int
  pr_delay :: int
  pr_body :: string
  pr_url :: string
  pr_chains :: "string list"
  pr_error :: string
  pr_message :: string
  pr_epoch :: u64
  pr_version :: u64
  pr_header :: "(string, string) gomap option"
  pr_hits :: "RouteHit list"

text \<open>An error of the client: \<open>timedOut\<close> is what \<open>errors.Is\<close> and \<open>Timeout()\<close> tell of it.\<close>

record netError =
  ne_message :: string
  timedOut :: bool

definition probeErrorKind :: "netError \<Rightarrow> string" where
  "probeErrorKind e = (if timedOut e then probeErrorTimeout else probeErrorFailed)"

record response =
  rs_status :: int
  rs_header :: "(string, string) gomap"
  rs_url :: string
  rs_chunks :: "string list"
  rs_delay :: int

text \<open>
  What \<open>runProbe\<close> needs of the rest: the wait for the TUN, the stamp, the proxies, the slots (whose
  state is part of \<open>'w\<close>), and one run of the HTTP client, which dials through the dialer it is given.
\<close>

record 'w probeIO =
  io_settled :: "string \<Rightarrow> 'w \<Rightarrow> 'w"
  io_stamp :: "'w \<Rightarrow> u64 \<times> u64"
  io_known :: "string \<Rightarrow> 'w \<Rightarrow> bool"
  io_tls :: "'w \<Rightarrow> netError option"
  io_acquire :: "int \<Rightarrow> 'w \<Rightarrow> bool \<times> 'w"
  io_release :: "'w \<Rightarrow> 'w"
  io_newRequest :: "string \<Rightarrow> string \<Rightarrow> netError option"
  io_do :: "probeRequest \<Rightarrow> 'w \<Rightarrow> (netError, response) result \<times> probeDialer \<times> 'w"
  io_hits :: "string \<Rightarrow> probeDialer \<Rightarrow> 'w \<Rightarrow> RouteHit list"

definition emptyResult :: "string \<Rightarrow> u64 \<times> u64 \<Rightarrow> ProbeResult" where
  "emptyResult url stamp =
     \<lparr>pr_status = 0, pr_delay = 0, pr_body = [], pr_url = url, pr_chains = [], pr_error = [],
      pr_message = [], pr_epoch = fst stamp, pr_version = snd stamp, pr_header = None,
      pr_hits = []\<rparr>"

definition failWith :: "netError \<Rightarrow> ProbeResult \<Rightarrow> ProbeResult" where
  "failWith e r = r\<lparr>pr_error := probeErrorKind e, pr_message := ne_message e\<rparr>"

definition unknownProxy :: "string \<Rightarrow> netError" where
  "unknownProxy name = \<lparr>ne_message = ''proxy '' @ go_quote name @
     '' is not part of the applied config'', timedOut = False\<rparr>"

text \<open>
  \<open>recorder\<close> is the recorder of the request. The result is \<open>None\<close> for \<open>nil\<close>: no slot in time.
\<close>

definition runProbe ::
  "'w probeIO \<Rightarrow> probeRequest \<Rightarrow> RouteHit list option \<Rightarrow> 'w \<Rightarrow>
     ProbeResult option \<times> RouteHit list option \<times> 'w" where
  "runProbe io req recorder w =
     (let w = io_settled io (rq_proxyName req) w;
          result = emptyResult (rq_url req) (io_stamp io w);
          finish = (\<lambda>r d w. (let hits = io_hits io (rq_proxyName req) d w
                             in (map_option (\<lambda>r. r\<lparr>pr_hits := hits\<rparr>) r, addHits hits recorder, w)))
      in if rq_proxyName req \<noteq> [] \<and> \<not> io_known io (rq_proxyName req) w
         then (let hits = [\<lparr>hitHost = [], hitProxy = rq_proxyName req, hitExit = []\<rparr>]
               in (Some (failWith (unknownProxy (rq_proxyName req)) (result\<lparr>pr_hits := hits\<rparr>)),
                   addHits hits recorder, w))
         else
           (case io_tls io w of
              Some e \<Rightarrow> finish (Some (failWith e result)) newDialer w
            | None \<Rightarrow>
                (let timeout = (if rq_timeout req \<le> 0 then defaultProbeTimeout else rq_timeout req);
                     method = (if rq_method req = [] then ''GET'' else rq_method req)
                 in case io_acquire io timeout w of
                      (False, w) \<Rightarrow> finish None newDialer w
                    | (True, w) \<Rightarrow>
                        (case io_newRequest io method (rq_url req) of
                           Some e \<Rightarrow> finish (Some (failWith e result)) newDialer (io_release io w)
                         | None \<Rightarrow>
                             (case io_do io (req\<lparr>rq_method := method, rq_timeout := timeout\<rparr>) w of
                                (Inl e, d, w) \<Rightarrow>
                                  finish (Some (failWith e result)) d (io_release io w)
                              | (Inr rs, d, w) \<Rightarrow>
                                  (let result = result\<lparr>pr_delay := rs_delay rs,
                                         pr_status := rs_status rs, pr_header := Some (rs_header rs),
                                         pr_url := rs_url rs,
                                         pr_chains := (case dialerRoute d of None \<Rightarrow> []
                                                       | Some hops \<Rightarrow> hops),
                                         pr_body := (if 0 < rq_maxBody req
                                           then readProbeBody (rs_chunks rs) (rq_maxBody req)
                                                  (rq_until req) else [])\<rparr>
                                   in finish (Some result) d (io_release io w)))))))"

subsection \<open>What a probe promises\<close>

lemma contains_append_split:
  assumes "str_contains (u @ v) m" and "\<not> str_contains u m"
  shows "str_contains (drop (length u + 1 - length m) (u @ v)) m"
proof -
  from assms(1) obtain a b where ab: "u @ v = a @ m @ b"
    by (auto simp: str_contains_iff)
  have "length u < length a + length m"
  proof (rule ccontr)
    assume le: "\<not> length u < length a + length m"
    have "u = take (length u) (u @ v)" by simp
    also have "\<dots> = a @ m @ take (length u - length a - length m) b"
      unfolding ab using le by (simp add: take_append)
    finally have "u = a @ m @ take (length u - length a - length m) b" .
    with assms(2) show False by (auto simp: str_contains_iff)
  qed
  then have "drop (length u + 1 - length m) (u @ v) =
      drop (length u + 1 - length m) a @ m @ b"
    unfolding ab by simp
  then show ?thesis by (metis str_contains_iff)
qed

lemma contains_mono: "str_contains u m \<Longrightarrow> str_contains (a @ u @ b) m"
  unfolding str_contains_iff by (metis append.assoc)

lemma scanBody_marker:
  assumes "m \<noteq> []" and "length m \<le> Suc probeScanOverlap" and "\<not> str_contains buffer m"
  shows "str_contains (scanBody (\<lambda>t. str_contains t m) chunks rest buffer) m =
    str_contains (buffer @ take rest (concat chunks)) m"
  using assms(3)
proof (induction "\<lambda>t. str_contains t m" chunks rest buffer rule: scanBody.induct)
  case (1 rest buffer)
  then show ?case by simp
next
  case (2 chunk chunks rest buffer)
  show ?case
  proof (cases "rest = 0")
    case True
    then show ?thesis by simp
  next
    case False
    let ?n = "min rest (length chunk)"
    let ?b = "buffer @ take ?n chunk"
    let ?tail = "drop (length buffer - probeScanOverlap) ?b"
    have whole: "buffer @ take rest (concat (chunk # chunks)) =
        ?b @ take (rest - ?n) (concat chunks)"
      by (cases "rest \<le> length chunk") simp_all
    have tail: "str_contains ?tail m \<longleftrightarrow> str_contains ?b m"
    proof
      assume "str_contains ?b m"
      with "2.prems" have "str_contains (drop (length buffer + 1 - length m) ?b) m"
        by (intro contains_append_split)
      moreover have "length buffer - probeScanOverlap \<le> length buffer + 1 - length m"
        using assms(2) by simp
      ultimately show "str_contains ?tail m"
        by (metis append_take_drop_id contains_mono drop_drop le_add_diff_inverse2 append_Nil2)
    next
      assume "str_contains ?tail m"
      then show "str_contains ?b m"
        by (metis append_take_drop_id contains_mono append_Nil2)
    qed
    show ?thesis
    proof (cases "str_contains ?b m")
      case True
      with "2.prems" have "0 < ?n" by (cases "?n") simp_all
      with True False tail whole show ?thesis
        using contains_mono [OF True, of "[]"] by (simp add: Let_def)
    next
      case no: False
      with "2.hyps" [OF False refl refl refl] False tail whole show ?thesis
        by (simp add: Let_def)
    qed
  qed
qed

text \<open>
  \<^bold>\<open>C12.\<close> A scan for a marker of at most 257 bytes gives the same answer as a look at the whole
  body up to the limit, wherever the reads cut it: the scan stops early only on the marker, and the
  overlap of 256 bytes sees every marker that lies across a border.
\<close>

theorem scan_misses_no_marker:
  assumes "m \<noteq> []" and "length m \<le> 257"
  shows "str_contains (readProbeBody chunks maxBody (Some (\<lambda>t. str_contains t m))) m \<longleftrightarrow>
    str_contains (take maxBody (concat chunks)) m"
proof -
  have "\<not> str_contains [] m" using assms(1) by (simp add: str_contains_iff)
  with scanBody_marker [of m "[]" chunks maxBody] assms show ?thesis
    by (simp add: readProbeBody_def probeScanOverlap_def)
qed

lemma scan_misses_no_marker_witness:
  "str_contains (readProbeBody [''ab'', ''cde'', ''f''] 4 (Some (\<lambda>t. str_contains t ''bcd''))) ''bcd'' \<and>
   \<not> str_contains (readProbeBody [''ab'', ''cde'', ''f''] 4 (Some (\<lambda>t. str_contains t ''cde''))) ''cde''"
  using scan_misses_no_marker [of "''bcd''" "[''ab'', ''cde'', ''f'']" 4]
    scan_misses_no_marker [of "''cde''" "[''ab'', ''cde'', ''f'']" 4]
  by (simp add: str_contains_def)

text \<open>The parts of \<open>probeIO\<close> that leave the number of held slots alone, and the two that move it.\<close>

definition keeps_slots :: "('w \<Rightarrow> nat) \<Rightarrow> 'w probeIO \<Rightarrow> bool" where
  "keeps_slots slotsHeld io \<longleftrightarrow>
     (\<forall>p w. slotsHeld (io_settled io p w) = slotsHeld w) \<and>
     (\<forall>t w. slotsHeld (snd (io_acquire io t w)) =
        slotsHeld w + (if fst (io_acquire io t w) then 1 else 0)) \<and>
     (\<forall>w. slotsHeld (io_release io w) = slotsHeld w - 1) \<and>
     (\<forall>r w. slotsHeld (snd (snd (io_do io r w))) = slotsHeld w)"

text \<open>
  However a probe ends, at an unknown proxy, without a slot, at a bad request, with a failed or
  a successful request, it holds no slot afterwards; its result carries the stamp read when the
  probe began; and its hits are added to the recorder of the request.
\<close>

lemma runProbe_balanced:
  assumes "keeps_slots slotsHeld io" and "runProbe io req recorder w = (result, recorded, w')"
  shows "slotsHeld w' = slotsHeld w \<and>
    (case result of
       None \<Rightarrow> True
     | Some r \<Rightarrow> (pr_epoch r, pr_version r) = io_stamp io (io_settled io (rq_proxyName req) w) \<and>
         recorded = addHits (pr_hits r) recorder)"
proof -
  have settled: "slotsHeld (io_settled io p v) = slotsHeld v" for p v
    using assms(1) by (simp add: keeps_slots_def)
  have granted: "io_acquire io t v = (b, v') \<Longrightarrow> slotsHeld v' = slotsHeld v + (if b then 1 else 0)"
    for t v b v'
    using assms(1) unfolding keeps_slots_def by (metis fst_conv snd_conv)
  have released: "slotsHeld (io_release io v) = slotsHeld v - 1" for v
    using assms(1) by (simp add: keeps_slots_def)
  have ran: "io_do io r v = (res, d, v') \<Longrightarrow> slotsHeld v' = slotsHeld v" for r v res d v'
    using assms(1) unfolding keeps_slots_def by (metis snd_conv)
  have err: "pr_epoch (failWith e r) = pr_epoch r" "pr_version (failWith e r) = pr_version r"
    "pr_hits (failWith e r) = pr_hits r" for e r
    by (simp_all add: failWith_def)
  have stamp: "pr_epoch (emptyResult u s) = fst s" "pr_version (emptyResult u s) = snd s" for u s
    by (simp_all add: emptyResult_def)
  show ?thesis
    using assms(2) granted ran
    by (auto simp: runProbe_def Let_def settled released err stamp
        split: if_splits option.splits prod.splits bool.splits sum.splits)
qed

definition plainIO :: "nat probeIO" where
  "plainIO = \<lparr>io_settled = (\<lambda>_ w. w), io_stamp = (\<lambda>w. (3, 4)), io_known = (\<lambda>p _. p = ''DIRECT''),
     io_tls = (\<lambda>_. None), io_acquire = (\<lambda>_ w. if w < 8 then (True, Suc w) else (False, w)),
     io_release = (\<lambda>w. w - 1), io_newRequest = (\<lambda>_ _. None),
     io_do = (\<lambda>r w. (Inl \<lparr>ne_message = ''reset'', timedOut = False\<rparr>, newDialer, w)),
     io_hits = (\<lambda>p d w. [])\<rparr>"

definition plainRequest :: probeRequest where
  "plainRequest = \<lparr>rq_method = [], rq_url = ''https://x/'', rq_proxyName = ''DIRECT'',
     rq_headers = [], rq_body = [], rq_timeout = 0, rq_maxBody = 0, rq_noRedirect = False,
     rq_until = None\<rparr>"

end
