(* ===== verification/ServiceCheck.thy ===== *)
theory ServiceCheck
  imports Probe Region
begin

section \<open>The sweep of service checks (\<open>core/service_check.go\<close>)\<close>

text \<open>
  A rule judges one service from the probes it sends; this theory has what the rules share, the
  claims by which a newer check cancels an older one, and the sweep. A probe is the argument
  \<open>prober\<close>: \<open>runProbe\<close> under the context and the recorder of the check, on a state \<open>'w\<close>. The rules are
  in the theory \<open>ServiceRules\<close>.
\<close>

definition serviceAvailable :: string where "serviceAvailable = ''available''"
definition serviceUnavailable :: string where "serviceUnavailable = ''unavailable''"
definition serviceRestricted :: string where "serviceRestricted = ''restricted''"
definition serviceDisallowedIsp :: string where "serviceDisallowedIsp = ''disallowed-isp''"
definition serviceBlocked :: string where "serviceBlocked = ''blocked''"
definition serviceUnsupportedRegion :: string where "serviceUnsupportedRegion = ''unsupported-region''"
definition serviceOriginalsOnly :: string where "serviceOriginalsOnly = ''originals-only''"
definition serviceComingSoon :: string where "serviceComingSoon = ''coming-soon''"
definition serviceTimeout :: string where "serviceTimeout = ''timeout''"
definition serviceFailed :: string where "serviceFailed = ''failed''"

lemmas service_status_defs = serviceAvailable_def serviceUnavailable_def serviceRestricted_def
  serviceDisallowedIsp_def serviceBlocked_def serviceUnsupportedRegion_def serviceOriginalsOnly_def
  serviceComingSoon_def serviceTimeout_def serviceFailed_def

definition serviceStatuses :: "string list" where
  "serviceStatuses = [serviceAvailable, serviceUnavailable, serviceRestricted, serviceDisallowedIsp,
     serviceBlocked, serviceUnsupportedRegion, serviceOriginalsOnly, serviceComingSoon,
     serviceTimeout, serviceFailed]"

definition serviceSmallMaxBody :: nat where "serviceSmallMaxBody = 16 * 1024"
definition serviceHtmlMaxBody :: nat where "serviceHtmlMaxBody = 512 * 1024"
definition serviceScanMaxBody :: nat where "serviceScanMaxBody = 8 * 1024 * 1024"

definition browserUserAgent :: string where
  "browserUserAgent = ''Mozilla/5.0 (Windows NT 10.0; Win64; x64) '' @
     ''AppleWebKit/537.36 (KHTML, like Gecko) Chrome/120.0.0.0 Safari/537.36''"

record ServiceCheckItem =
  it_name :: string
  it_status :: string
  it_region :: string
  it_delay :: int
  it_chains :: "string list"
  it_checkedAt :: int
  it_epoch :: u64
  it_version :: u64
  it_hits :: "RouteHit list"

definition statusItem :: "string \<Rightarrow> ServiceCheckItem" where
  "statusItem status = \<lparr>it_name = [], it_status = status, it_region = [], it_delay = 0,
     it_chains = [], it_checkedAt = 0, it_epoch = 0, it_version = 0, it_hits = []\<rparr>"

record serviceEnv =
  env_proxyName :: string
  env_timeout :: int

type_synonym 'w prober = "probeRequest \<Rightarrow> 'w \<Rightarrow> ProbeResult option \<times> 'w"

definition plainGet :: probeRequest where
  "plainGet = \<lparr>rq_method = ''GET'', rq_url = [], rq_proxyName = [], rq_headers = [], rq_body = [],
     rq_timeout = 0, rq_maxBody = 0, rq_noRedirect = False, rq_until = None\<rparr>"

definition sendRequest ::
  "serviceEnv \<Rightarrow> 'w prober \<Rightarrow> probeRequest \<Rightarrow> 'w \<Rightarrow> ProbeResult option \<times> 'w" where
  "sendRequest env probe req =
     probe (req\<lparr>rq_proxyName := env_proxyName env, rq_timeout := env_timeout env,
       rq_headers := fold (\<lambda>(name, value) hs. AList.update name value hs) (rq_headers req)
         [(''User-Agent'', browserUserAgent)]\<rparr>)"

definition getUrl ::
  "serviceEnv \<Rightarrow> 'w prober \<Rightarrow> string \<Rightarrow> nat \<Rightarrow> 'w \<Rightarrow> ProbeResult option \<times> 'w" where
  "getUrl env probe url maxBody =
     sendRequest env probe (plainGet\<lparr>rq_url := url, rq_maxBody := maxBody\<rparr>)"

definition scanUrl ::
  "serviceEnv \<Rightarrow> 'w prober \<Rightarrow> string \<Rightarrow> (string \<Rightarrow> bool) \<Rightarrow> 'w \<Rightarrow> ProbeResult option \<times> 'w" where
  "scanUrl env probe url until =
     sendRequest env probe
       (plainGet\<lparr>rq_url := url, rq_maxBody := serviceScanMaxBody, rq_until := Some until\<rparr>)"

definition itemFrom :: "ProbeResult option \<Rightarrow> ServiceCheckItem" where
  "itemFrom result =
     (case result of
        None \<Rightarrow> statusItem serviceFailed
      | Some r \<Rightarrow>
          (let item = (statusItem [])\<lparr>it_delay := pr_delay r, it_chains := pr_chains r\<rparr> in
           if pr_error r = [] then item
           else if pr_error r = probeErrorTimeout
           then item\<lparr>it_status := serviceTimeout, it_delay := 0\<rparr>
           else item\<lparr>it_status := serviceFailed, it_delay := 0\<rparr>))"

definition statusFromCode :: "int \<Rightarrow> string" where
  "statusFromCode c =
     (if 200 \<le> c \<and> c < 300 then serviceAvailable
      else if c = 401 \<or> c = 403 \<or> c = 429 \<or> c = 451 then serviceRestricted
      else serviceUnavailable)"

definition answered :: "ServiceCheckItem \<Rightarrow> ProbeResult option \<Rightarrow> bool" where
  "answered item result \<longleftrightarrow> it_status item = [] \<and> result \<noteq> None"

definition bodyContains :: "ProbeResult \<Rightarrow> string list \<Rightarrow> bool" where
  "bodyContains r needles \<longleftrightarrow> list_ex (str_contains (to_lower (pr_body r))) needles"

definition traceValue :: "string \<Rightarrow> string \<Rightarrow> string" where
  "traceValue body key =
     (case find (\<lambda>line. has_prefix (key @ ''='') line) (split_on (CHR 0x0A) body) of
        None \<Rightarrow> []
      | Some line \<Rightarrow> trim_space (drop (length key + 1) line))"

definition checkReachable ::
  "string \<Rightarrow> serviceEnv \<Rightarrow> 'w prober \<Rightarrow> 'w \<Rightarrow> ServiceCheckItem \<times> 'w" where
  "checkReachable url env probe w =
     (case getUrl env probe url 0 w of
        (result, w) \<Rightarrow>
          (let item = itemFrom result in
           if it_status item \<noteq> [] then (item, w)
           else (item\<lparr>it_status := (case result of Some r \<Rightarrow> statusFromCode (pr_status r)
                                    | None \<Rightarrow> [])\<rparr>, w)))"

text \<open>A verdict the host knows, with a region it can show.\<close>

definition judged :: "ServiceCheckItem \<Rightarrow> bool" where
  "judged item \<longleftrightarrow> it_status item \<in> set serviceStatuses \<and> region_ok (it_region item)"

lemma judged_status [simp]:
  "judged (statusItem serviceFailed)"
  "judged (item\<lparr>it_delay := d\<rparr>) = judged item" "judged (item\<lparr>it_chains := cs\<rparr>) = judged item"
  by (simp_all add: judged_def statusItem_def serviceStatuses_def)

lemma statuses [simp]:
  "serviceAvailable \<in> set serviceStatuses" "serviceUnavailable \<in> set serviceStatuses"
  "serviceRestricted \<in> set serviceStatuses" "serviceDisallowedIsp \<in> set serviceStatuses"
  "serviceBlocked \<in> set serviceStatuses" "serviceUnsupportedRegion \<in> set serviceStatuses"
  "serviceOriginalsOnly \<in> set serviceStatuses" "serviceComingSoon \<in> set serviceStatuses"
  "serviceTimeout \<in> set serviceStatuses" "serviceFailed \<in> set serviceStatuses"
  "[] \<notin> set serviceStatuses"
  by (simp_all add: serviceStatuses_def service_status_defs)

lemma statusFromCode_known [simp]: "statusFromCode c \<in> set serviceStatuses"
  by (simp add: statusFromCode_def)

lemma itemFrom_region [simp]: "it_region (itemFrom result) = []"
  by (simp add: itemFrom_def statusItem_def Let_def split: option.split)

text \<open>An item no rule has to judge is judged already.\<close>

lemma itemFrom_judged: "\<not> answered (itemFrom result) result \<Longrightarrow> judged (itemFrom result)"
  by (cases result) (simp_all add: answered_def itemFrom_def judged_def statusItem_def Let_def
      split: if_splits)

lemma answered_result:
  assumes "answered (itemFrom result) result"
  shows "\<exists>r. result = Some r \<and> pr_error r = []"
proof (cases result)
  case None
  with assms show ?thesis by (simp add: answered_def)
next
  case (Some r)
  with assms have "pr_error r = []"
    by (auto simp: answered_def itemFrom_def Let_def serviceTimeout_def serviceFailed_def
        split: if_splits)
  with Some show ?thesis by simp
qed

lemma checkReachable_judged:
  assumes "checkReachable url env probe w = (item, w')"
  shows "judged item"
proof -
  obtain result v where r: "getUrl env probe url 0 w = (result, v)" by fastforce
  show ?thesis
  proof (cases "answered (itemFrom result) result")
    case True
    with answered_result obtain x where "result = Some x" by blast
    with True r assms show ?thesis
      by (auto simp: checkReachable_def answered_def judged_def Let_def)
  next
    case False
    then have "it_status (itemFrom result) \<noteq> []"
      using itemFrom_judged by (fastforce simp: judged_def)
    with False r assms itemFrom_judged show ?thesis
      by (auto simp: checkReachable_def Let_def)
  qed
qed

subsection \<open>Claims\<close>

text \<open>A context is its number; \<open>live\<close> lists those made and not cancelled.\<close>

record claimState =
  serviceClaims :: "(string, nat) gomap"
  liveContexts :: "nat list"
  nextContext :: nat

definition initClaims :: claimState where
  "initClaims = \<lparr>serviceClaims = [], liveContexts = [], nextContext = 0\<rparr>"

definition cancelContext :: "nat \<Rightarrow> claimState \<Rightarrow> claimState" where
  "cancelContext c s = s\<lparr>liveContexts := removeAll c (liveContexts s)\<rparr>"

definition claimService :: "string \<Rightarrow> claimState \<Rightarrow> claimState \<times> nat" where
  "claimService name s =
     (let c = nextContext s;
          s = s\<lparr>nextContext := Suc c, liveContexts := c # liveContexts s\<rparr>;
          s = (case map_of (serviceClaims s) name of
                 Some previous \<Rightarrow> cancelContext previous s
               | None \<Rightarrow> s)
      in (s\<lparr>serviceClaims := AList.update name c (serviceClaims s)\<rparr>, c))"

definition releaseService :: "string \<Rightarrow> nat \<Rightarrow> claimState \<Rightarrow> claimState" where
  "releaseService name c s =
     (let s = cancelContext c s in
      if map_of (serviceClaims s) name = Some c
      then s\<lparr>serviceClaims := AList.delete name (serviceClaims s)\<rparr> else s)"

text \<open>\<open>claimServices\<close>: one claim per name, in order; \<open>claimed\<close> are those of this call.\<close>

fun claimAll ::
  "string list \<Rightarrow> (string, nat) gomap \<Rightarrow> claimState \<Rightarrow>
     claimState \<times> nat list \<times> (string \<times> nat) list" where
  "claimAll [] claimed s = (s, [], [])"
| "claimAll (name # names) claimed s =
     (case map_of claimed name of
        Some c \<Rightarrow> (case claimAll names claimed s of (s, cs, rs) \<Rightarrow> (s, c # cs, rs))
      | None \<Rightarrow>
          (case claimService name s of
             (s, c) \<Rightarrow>
               (case claimAll names (AList.update name c claimed) s of
                  (s, cs, rs) \<Rightarrow> (s, c # cs, (name, c) # rs))))"

definition claimServices ::
  "string list \<Rightarrow> claimState \<Rightarrow> claimState \<times> nat list \<times> (string \<times> nat) list" where
  "claimServices names s = claimAll names [] s"

definition releaseServices :: "(string \<times> nat) list \<Rightarrow> claimState \<Rightarrow> claimState" where
  "releaseServices rs s = fold (\<lambda>(name, c) s. releaseService name c s) rs s"

inductive claim_step :: "claimState \<Rightarrow> claimState \<Rightarrow> bool" where
  claim: "claimService name s = (s', c) \<Longrightarrow> claim_step s s'"
| release: "claim_step s (releaseService name c s)"

inductive claims_reachable :: "claimState \<Rightarrow> bool" where
  start: "claims_reachable initClaims"
| step: "claims_reachable s \<Longrightarrow> claim_step s s' \<Longrightarrow> claims_reachable s'"

definition claims_inv :: "claimState \<Rightarrow> bool" where
  "claims_inv s \<longleftrightarrow>
     gm_wf (serviceClaims s) \<and> distinct (liveContexts s) \<and>
     set (liveContexts s) \<subseteq> snd ` set (serviceClaims s) \<and>
     (\<forall>(name, c) \<in> set (serviceClaims s). c < nextContext s)"

lemma update_set_cases:
  assumes "gm_wf m"
  shows "set (AList.update k v m) = insert (k, v) {e \<in> set m. fst e \<noteq> k}"
  using assms unfolding gm_wf_def
proof (induction m)
  case Nil
  then show ?case by simp
next
  case (Cons e m)
  obtain j x where e: "e = (j, x)" by (cases e)
  with Cons.prems have "{e \<in> set m. fst e \<noteq> j} = set m" by force
  with Cons e show ?case by (cases "j = k") auto
qed

lemma claims_inv_step: "claim_step s s' \<Longrightarrow> claims_inv s \<Longrightarrow> claims_inv s'"
proof (induction rule: claim_step.induct)
  case (claim name s s' c)
  let ?c = "nextContext s"
  from claim.prems have wf: "gm_wf (serviceClaims s)"
    and less: "\<And>n x. (n, x) \<in> set (serviceClaims s) \<Longrightarrow> x < ?c"
    and live: "set (liveContexts s) \<subseteq> snd ` set (serviceClaims s)" "distinct (liveContexts s)"
    by (auto simp: claims_inv_def)
  have claims: "serviceClaims s' = AList.update name ?c (serviceClaims s)"
    and next': "nextContext s' = Suc ?c"
    using claim.hyps by (auto simp: claimService_def Let_def cancelContext_def split: option.splits)
  have contexts: "liveContexts s' = ?c # (case map_of (serviceClaims s) name of
      Some p \<Rightarrow> removeAll p (liveContexts s) | None \<Rightarrow> liveContexts s)"
    using claim.hyps
    by (auto simp: claimService_def Let_def cancelContext_def split: option.splits
        dest!: less [OF map_of_SomeD])
  have fresh: "?c \<notin> set (liveContexts s)"
    using live less by fastforce
  have rest: "x \<in> snd ` {e \<in> set (serviceClaims s). fst e \<noteq> name}"
    if "x \<in> set (liveContexts s)" "map_of (serviceClaims s) name \<noteq> Some x" for x
  proof -
    from live that(1) obtain n where n: "(n, x) \<in> set (serviceClaims s)" by auto
    with wf have "map_of (serviceClaims s) n = Some x" by (simp add: gm_wf_def)
    with that(2) have "n \<noteq> name" by auto
    with n show ?thesis by force
  qed
  have "set (liveContexts s') \<subseteq> snd ` set (serviceClaims s')"
    unfolding claims contexts update_set_cases [OF wf] using rest
    by (cases "map_of (serviceClaims s) name") (simp, blast, simp, blast)
  moreover have "distinct (liveContexts s')"
    unfolding contexts using live(2) fresh by (auto split: option.split simp: distinct_removeAll)
  moreover have "\<forall>(n, x) \<in> set (serviceClaims s'). x < nextContext s'"
    unfolding claims next' update_set_cases [OF wf] using less by (auto intro: less_SucI)
  ultimately show ?case
    using wf by (simp add: claims_inv_def claims)
next
  case (release s name c)
  have del: "x \<in> snd ` set (AList.delete name (serviceClaims s))"
    if "x \<in> set (liveContexts s)" "x \<noteq> c" "map_of (serviceClaims s) name = Some c" for x
  proof -
    from release that(1) obtain n where n: "(n, x) \<in> set (serviceClaims s)"
      by (auto simp: claims_inv_def)
    then have "map_of (serviceClaims s) n = Some x"
      using release by (simp add: claims_inv_def gm_wf_def)
    with that(2,3) have "n \<noteq> name" by auto
    with n have "(n, x) \<in> set (AList.delete name (serviceClaims s))"
      by (simp add: AList.delete_eq)
    then show ?thesis by force
  qed
  have "set (AList.delete name (serviceClaims s)) \<subseteq> set (serviceClaims s)"
    by (auto simp: AList.delete_eq)
  with release del show ?case
    by (auto simp: claims_inv_def releaseService_def cancelContext_def Let_def distinct_removeAll)
qed

lemma claims_reachable_inv: "claims_reachable s \<Longrightarrow> claims_inv s"
proof (induction rule: claims_reachable.induct)
  case start
  show ?case by (simp add: claims_inv_def initClaims_def)
qed (blast intro: claims_inv_step)

subsection \<open>One check\<close>

text \<open>
  What \<open>runServiceCheck\<close> uses of the core: the wait for the TUN, the stamp, the clock, whether its
  context is done and has budget left, and the hits recorded so far. A rule that panics answers
  \<open>None\<close>.
\<close>

record 'w checkIO =
  ck_settled :: "string \<Rightarrow> 'w \<Rightarrow> 'w"
  ck_stamp :: "'w \<Rightarrow> u64 \<times> u64"
  ck_cancelled :: "'w \<Rightarrow> bool"
  ck_budget :: "int \<Rightarrow> 'w \<Rightarrow> bool"
  ck_now :: "'w \<Rightarrow> int"
  ck_hits :: "'w \<Rightarrow> RouteHit list"

type_synonym 'w rule = "serviceEnv \<Rightarrow> 'w \<Rightarrow> ServiceCheckItem option \<times> 'w"

definition runServiceCheck ::
  "'w checkIO \<Rightarrow> string \<Rightarrow> 'w rule \<Rightarrow> string \<Rightarrow> int \<Rightarrow> 'w \<Rightarrow> ServiceCheckItem \<times> 'w" where
  "runServiceCheck io name rule proxyName timeout w =
     (let w = ck_settled io proxyName w;
          (epoch, version) = ck_stamp io w;
          env = \<lparr>env_proxyName = proxyName, env_timeout = timeout\<rparr>;
          finish = (\<lambda>result w.
            (let item = (case result of None \<Rightarrow> statusItem serviceFailed | Some item \<Rightarrow> item)
             in (item\<lparr>it_name := name, it_checkedAt := ck_now io w, it_epoch := epoch,
                   it_version := version, it_hits := ck_hits io w\<rparr>, w)))
      in if ck_cancelled io w then finish (Some (statusItem serviceFailed)) w
         else (case rule env w of
                 (None, w) \<Rightarrow> finish None w
               | (Some item, w) \<Rightarrow>
                   if it_status item = serviceTimeout \<and> ck_budget io timeout w
                   then (case rule env w of (again, w) \<Rightarrow> finish again w)
                   else finish (Some item) w))"

lemma runServiceCheck_judged:
  assumes "\<And>env w item w'. rule env w = (Some item, w') \<Longrightarrow> judged item"
    and "runServiceCheck io name rule proxyName timeout w = (item, w')"
  shows "judged item \<and> it_name item = name \<and>
    (it_epoch item, it_version item) = ck_stamp io (ck_settled io proxyName w)"
proof -
  have keep: "judged (i\<lparr>it_name := n, it_checkedAt := t, it_epoch := e, it_version := v, it_hits := h\<rparr>)
      = judged i" for i n t e v h
    by (simp add: judged_def)
  show ?thesis
    using assms(2) assms(1)
    by (auto simp: runServiceCheck_def Let_def keep split: prod.splits option.splits if_splits)
qed

subsection \<open>What the claims promise\<close>

text \<open>
  However claims and releases interleave, a service has at most one check that is not
  cancelled, the newest: a claim cancels the older check of its service and no other, and the late
  release of an older check leaves the newer claim in place.
\<close>

lemma newest_check_stands:
  assumes "claims_reachable s" and "claimService name s = (s', c)"
  shows "map_of (serviceClaims s') name = Some c \<and>
    (\<forall>x. x \<in> set (liveContexts s') \<longleftrightarrow>
       x = c \<or> x \<in> set (liveContexts s) \<and> map_of (serviceClaims s) name \<noteq> Some x) \<and>
    (\<forall>x \<in> set (liveContexts s'). \<exists>n. map_of (serviceClaims s') n = Some x) \<and>
    (old \<noteq> c \<longrightarrow> map_of (serviceClaims (releaseService n old s')) name = Some c \<and>
       c \<in> set (liveContexts (releaseService n old s')))"
proof -
  have inv: "claims_inv s" using assms(1) by (rule claims_reachable_inv)
  have inv': "claims_inv s'"
    using claims_inv_step [OF claim [OF assms(2)] inv] .
  have c: "c = nextContext s" and claims: "serviceClaims s' = AList.update name c (serviceClaims s)"
    using assms(2) by (auto simp: claimService_def Let_def cancelContext_def split: option.splits)
  have less: "map_of (serviceClaims s) n = Some x \<Longrightarrow> x < c" for n x
    using inv c by (fastforce simp: claims_inv_def dest: map_of_SomeD)
  have contexts: "liveContexts s' = (case map_of (serviceClaims s) name of
      Some p \<Rightarrow> removeAll p (c # liveContexts s) | None \<Rightarrow> c # liveContexts s)"
    using assms(2) by (auto simp: claimService_def Let_def cancelContext_def split: option.splits)
  have live: "x \<in> set (liveContexts s') \<longleftrightarrow>
      x = c \<or> x \<in> set (liveContexts s) \<and> map_of (serviceClaims s) name \<noteq> Some x" for x
  proof (cases "map_of (serviceClaims s) name")
    case None
    then show ?thesis by (simp add: contexts)
  next
    case (Some p)
    with less [OF Some] show ?thesis by (auto simp: contexts)
  qed
  have "\<exists>n. map_of (serviceClaims s') n = Some x" if "x \<in> set (liveContexts s')" for x
    using inv' that by (force simp: claims_inv_def gm_wf_def)
  moreover have "map_of (serviceClaims s') name = Some c"
    unfolding claims by (simp add: update_conv')
  moreover have "map_of (serviceClaims (releaseService n old s')) name = Some c \<and>
      c \<in> set (liveContexts (releaseService n old s'))" if "old \<noteq> c"
    using that calculation(2) live [of c]
    by (auto simp: releaseService_def cancelContext_def Let_def delete_conv')
  ultimately show ?thesis using live by blast
qed

definition claimedTwice :: claimState where
  "claimedTwice = fst (claimService ''netflix'' (fst (claimService ''netflix'' initClaims)))"

end
