(* ===== verification/Patterns.thy ===== *)
theory Patterns
  imports GoStrings
begin

section \<open>The regular expressions of the service rules (\<open>core/service_rules.go\<close>)\<close>

text \<open>
  The patterns the rules compile, as lists of items: literal texts, repeated character classes,
  the bounds of the one capturing group, and a choice of words. Go's \<open>regexp\<close> picks the leftmost
  match and among those at one place the first a backtracking search finds, which is what
  \<open>matchHere\<close> and \<open>search\<close> compute. A class answers how many bytes the rune at the head takes, 0
  where it is not in the class; that is one byte for the classes here, but for the two letters outside
  ASCII that fold to \<open>s\<close> and \<open>k\<close>.
\<close>

type_synonym charClass = "string \<Rightarrow> nat"

datatype item =
    Lit string
  | Rep charClass nat "nat option" bool   \<comment> \<open>least, most, and whether it is greedy\<close>
  | Words "string list"
  | GroupStart
  | GroupEnd

record pattern =
  anchored :: bool
  items :: "item list"

definition ofBytes :: "(char \<Rightarrow> bool) \<Rightarrow> charClass" where
  "ofBytes P s = (case s of [] \<Rightarrow> 0 | c # _ \<Rightarrow> if P c then 1 else 0)"

definition spaceClass :: charClass where
  "spaceClass = ofBytes (\<lambda>c. c \<in> {CHR 0x09, CHR 0x0A, CHR 0x0C, CHR 0x0D, CHR 0x20})"

definition isLetter :: "char \<Rightarrow> bool" where
  "isLetter c \<longleftrightarrow> 65 \<le> code c \<and> code c \<le> 90 \<or> 97 \<le> code c \<and> code c \<le> 122"

definition isDigit :: "char \<Rightarrow> bool" where
  "isDigit c \<longleftrightarrow> 48 \<le> code c \<and> code c \<le> 57"

text \<open>\<open>[A-Za-z]\<close> under \<open>(?i)\<close>.\<close>

definition foldedLetter :: charClass where
  "foldedLetter s =
     (if has_prefix [CHR 0xC5, CHR 0xBF] s then 2
      else if has_prefix [CHR 0xE2, CHR 0x84, CHR 0xAA] s then 3
      else ofBytes isLetter s)"

definition noneOf :: "string \<Rightarrow> charClass" where
  "noneOf cs = ofBytes (\<lambda>c. c \<notin> set cs)"

text \<open>
  The group while matching: \<open>None\<close> before it, then whether it is still open and its text. A match
  answers the text of the group.
\<close>

definition grow :: "string \<Rightarrow> (bool \<times> string) option \<Rightarrow> (bool \<times> string) option" where
  "grow w g = (case g of Some (True, t) \<Rightarrow> Some (True, t @ w) | _ \<Rightarrow> g)"

definition orElse :: "'a option \<Rightarrow> 'a option \<Rightarrow> 'a option" where
  "orElse a b = (case a of None \<Rightarrow> b | Some _ \<Rightarrow> a)"

function matchHere :: "item list \<Rightarrow> (bool \<times> string) option \<Rightarrow> string \<Rightarrow> string option" where
  "matchHere [] g s = Some (case g of None \<Rightarrow> [] | Some (_, t) \<Rightarrow> t)"
| "matchHere (Lit w # is) g s =
     (if has_prefix w s then matchHere is (grow w g) (drop (length w) s) else None)"
| "matchHere (GroupStart # is) g s = matchHere is (Some (True, [])) s"
| "matchHere (GroupEnd # is) g s = matchHere is (map_option (\<lambda>(_, t). (False, t)) g) s"
| "matchHere (Words [] # is) g s = None"
| "matchHere (Words (w # ws) # is) g s =
     orElse (if has_prefix w s then matchHere is (grow w g) (drop (length w) s) else None)
       (matchHere (Words ws # is) g s)"
| "matchHere (Rep c lo hi greedy # is) g s =
     (let further =
            (if s \<noteq> [] \<and> 0 < c s \<and> hi \<noteq> Some 0
             then matchHere (Rep c (lo - 1) (map_option (\<lambda>h. h - 1) hi) greedy # is)
                    (grow (take (c s) s) g) (drop (c s) s)
             else None);
          enough = (if lo = 0 then matchHere is g s else None)
      in if greedy then orElse further enough else orElse enough further)"
  by pat_completeness auto
termination
proof (relation "measures [\<lambda>(is, g, s). length s, \<lambda>(is, g, s). length is,
      \<lambda>(is, g, s). case is of Words ws # _ \<Rightarrow> length ws | _ \<Rightarrow> 0]")
qed (auto intro: le_neq_implies_less)

text \<open>The leftmost place the pattern matches at.\<close>

fun search :: "pattern \<Rightarrow> string \<Rightarrow> string option" where
  "search p [] = matchHere (items p) None []"
| "search p (c # s) =
     (case matchHere (items p) None (c # s) of
        Some t \<Rightarrow> Some t
      | None \<Rightarrow> if anchored p then None else search p s)"

definition firstSubmatch :: "pattern \<Rightarrow> string \<Rightarrow> string" where
  "firstSubmatch p body = (case search p body of None \<Rightarrow> [] | Some t \<Rightarrow> t)"

definition matchString :: "pattern \<Rightarrow> string \<Rightarrow> bool" where
  "matchString p body \<longleftrightarrow> search p body \<noteq> None"

end
