(* ===== verification/ServiceRules.thy ===== *)
theory ServiceRules
  imports ServiceCheck Patterns
begin

section \<open>The rules of the services (\<open>core/service_rules.go\<close>)\<close>

text \<open>
  One definition per rule: the requests it sends, in order, each answered by the \<open>prober\<close>, and every
  early return. JSON and URL parsing are the arguments of \<open>codecs\<close>: the countries of the targets of
  fast.com, and the path of a URL.
\<close>

record codecs =
  json_targets :: "string \<Rightarrow> string list option"
  url_path :: "string \<Rightarrow> string option"

type_synonym 'w check = "serviceEnv \<Rightarrow> 'w prober \<Rightarrow> 'w \<Rightarrow> ServiceCheckItem \<times> 'w"

subsection \<open>Patterns\<close>

definition rep :: "charClass \<Rightarrow> nat \<Rightarrow> item" where
  "rep c lo = Rep c lo None True"

definition foldText :: "string \<Rightarrow> item list" where
  "foldText w = map (\<lambda>x. Rep (ofBytes (\<lambda>c. lower_byte c = x)) 1 (Some 1) True) w"

definition quoteClass :: charClass where
  "quoteClass = ofBytes (\<lambda>c. c = CHR 0x22 \<or> c = CHR 0x27)"

text \<open>\<open>"key"\s*:\s*"(value)"\<close>\<close>

definition quoted :: "string \<Rightarrow> string" where
  "quoted w = CHR 0x22 # w @ [CHR 0x22]"

definition field :: "string \<Rightarrow> item list \<Rightarrow> pattern" where
  "field key value = \<lparr>anchored = False, items =
     [Lit (quoted key), rep spaceClass 0, Lit '':'', rep spaceClass 0, Lit [CHR 0x22], GroupStart]
     @ value @ [GroupEnd, Lit [CHR 0x22]]\<rparr>"

definition youTubeRegionPatterns :: "pattern list" where
  "youTubeRegionPatterns =
     [\<lparr>anchored = False, items =
        foldText ''id='' @ [Rep quoteClass 1 (Some 1) True] @ foldText ''country-code'' @
        [Rep quoteClass 1 (Some 1) True, rep (noneOf ''>'') 0, Lit ''>'', rep spaceClass 0,
         GroupStart, Rep foldedLetter 2 (Some 3) True, GroupEnd, rep spaceClass 0, Lit ''<'']\<rparr>,
      field ''GL'' [Rep (ofBytes isLetter) 2 (Some 2) True],
      field ''countryCode'' [Rep (ofBytes isLetter) 2 (Some 2) True],
      field ''country_code'' [Rep (ofBytes isLetter) 2 (Some 2) True]]"

definition tikTokRegionPattern :: pattern where
  "tikTokRegionPattern = \<lparr>anchored = False, items =
     [Lit (quoted ''webapp.app-context''), rep spaceClass 0, Lit '':'', rep spaceClass 0,
      Lit [CHR 0x7B], Rep (noneOf [CHR 0x7B, CHR 0x7D]) 0 None False, Lit (quoted ''region''),
      rep spaceClass 0, Lit '':'', rep spaceClass 0, Lit [CHR 0x22],
      GroupStart, rep (noneOf [CHR 0x22]) 0, GroupEnd, Lit [CHR 0x22]]\<rparr>"

definition primeRegionPattern :: pattern where
  "primeRegionPattern = \<lparr>anchored = False, items =
     [Lit (quoted ''currentTerritory'' @ '':'' @ [CHR 0x22]),
      GroupStart, rep (noneOf [CHR 0x22]) 1, GroupEnd, Lit [CHR 0x22]]\<rparr>"

definition disneyAssertionPattern :: pattern where
  "disneyAssertionPattern = field ''assertion'' [rep (noneOf [CHR 0x22]) 1]"

definition disneyRefreshPattern :: pattern where
  "disneyRefreshPattern = field ''refresh_token'' [rep (noneOf [CHR 0x22]) 1]"

definition disneyCountryPattern :: pattern where
  "disneyCountryPattern = field ''countryCode'' [rep (noneOf [CHR 0x22]) 1]"

definition disneySupportedPattern :: pattern where
  "disneySupportedPattern = \<lparr>anchored = False, items =
     [Lit (quoted ''inSupportedLocation''), rep spaceClass 0, Lit '':'', rep spaceClass 0,
      GroupStart, Words [''false'', ''true''], GroupEnd]\<rparr>"

definition spotifyCountryPattern :: pattern where
  "spotifyCountryPattern = field ''countryCode'' [rep (noneOf [CHR 0x22]) 1]"

definition discordCountryPattern :: pattern where
  "discordCountryPattern = field ''country_code'' [rep (noneOf [CHR 0x22]) 1]"

definition bilibiliCodePattern :: pattern where
  "bilibiliCodePattern = \<lparr>anchored = True, items =
     [rep spaceClass 0, Lit [CHR 0x7B], rep spaceClass 0, Lit (quoted ''code''), rep spaceClass 0,
      Lit '':'', rep spaceClass 0, GroupStart, Rep (ofBytes (\<lambda>c. c = CHR ''-'')) 0 (Some 1) True,
      rep (ofBytes isDigit) 1, GroupEnd]\<rparr>"

definition geminiRegionMarker :: string where
  "geminiRegionMarker = '',2,1,200,'' @ [CHR 0x22]"

definition claudeBlockedRegions :: "string list" where
  "claudeBlockedRegions =
     [''AF'', ''BY'', ''CN'', ''CU'', ''HK'', ''IR'', ''KP'', ''MO'', ''RU'', ''SY'']"

definition geminiBlockedRegions :: "string list" where
  "geminiBlockedRegions =
     [''CHN'', ''RUS'', ''BLR'', ''CUB'', ''IRN'', ''PRK'', ''SYR'', ''HKG'', ''MAC'']"

subsection \<open>Rules of one request\<close>

text \<open>The common frame: an item that is not answered is returned as it is.\<close>

definition judge ::
  "(ServiceCheckItem \<Rightarrow> ProbeResult \<Rightarrow> ServiceCheckItem) \<Rightarrow> ProbeResult option \<Rightarrow> ServiceCheckItem" where
  "judge verdict result =
     (case result of
        None \<Rightarrow> itemFrom None
      | Some r \<Rightarrow> if \<not> answered (itemFrom (Some r)) (Some r) then itemFrom (Some r)
                  else verdict (itemFrom (Some r)) r)"

definition claudeVerdict :: "ServiceCheckItem \<Rightarrow> ProbeResult \<Rightarrow> ServiceCheckItem" where
  "claudeVerdict item r =
     (let region = normalizeRegion (traceValue (pr_body r) ''loc'') in
      if region = [] then item\<lparr>it_status := serviceFailed\<rparr>
      else (let item = item\<lparr>it_region := region, it_status := serviceAvailable\<rparr> in
            if region \<in> set claudeBlockedRegions
            then item\<lparr>it_status := serviceUnsupportedRegion\<rparr> else item))"

definition checkClaude :: "'w check" where
  "checkClaude env probe w =
     (case getUrl env probe ''https://claude.ai/cdn-cgi/trace'' serviceSmallMaxBody w of
        (result, w) \<Rightarrow> (judge claudeVerdict result, w))"

definition geminiVerdict :: "ServiceCheckItem \<Rightarrow> ProbeResult \<Rightarrow> ServiceCheckItem" where
  "geminiVerdict item r =
     (case str_index geminiRegionMarker (pr_body r) of
        None \<Rightarrow> item\<lparr>it_status := serviceFailed\<rparr>
      | Some index \<Rightarrow>
          (let start = index + length geminiRegionMarker in
           if start + 3 > length (pr_body r) then item\<lparr>it_status := serviceFailed\<rparr>
           else (let c = take 3 (drop start (pr_body r)) in
                 if \<not> isAsciiUpper c then item\<lparr>it_status := serviceFailed\<rparr>
                 else (let item = item\<lparr>it_region := normalizeRegion c, it_status := serviceAvailable\<rparr>
                       in if c \<in> set geminiBlockedRegions
                          then item\<lparr>it_status := serviceUnsupportedRegion\<rparr> else item))))"

definition checkGemini :: "'w check" where
  "checkGemini env probe w =
     (case scanUrl env probe ''https://gemini.google.com''
             (\<lambda>tail. case str_index geminiRegionMarker tail of None \<Rightarrow> False
                     | Some index \<Rightarrow> index + length geminiRegionMarker + 3 \<le> length tail) w of
        (result, w) \<Rightarrow> (judge geminiVerdict result, w))"

definition youTubeRegion :: "string \<Rightarrow> string" where
  "youTubeRegion body =
     (case find (\<lambda>p. firstSubmatch p body \<noteq> []) youTubeRegionPatterns of
        None \<Rightarrow> []
      | Some p \<Rightarrow> normalizeRegion (firstSubmatch p body))"

definition youTubeVerdict :: "ServiceCheckItem \<Rightarrow> ProbeResult \<Rightarrow> ServiceCheckItem" where
  "youTubeVerdict item r =
     (let item = item\<lparr>it_region := youTubeRegion (pr_body r)\<rparr> in
      if bodyContains r [''youtube premium is not available in your country'',
           ''premium is not available in your country'', ''premium is not available in your region'']
      then item\<lparr>it_status := serviceUnsupportedRegion\<rparr>
      else if 200 \<le> pr_status r \<and> pr_status r < 300 \<and>
        bodyContains r [''youtube premium'', ''ad-free'',
          quoted ''browseid'' @ '':'' @ quoted ''spunlimited'']
      then item\<lparr>it_status := serviceAvailable\<rparr>
      else item\<lparr>it_status := statusFromCode (pr_status r)\<rparr>)"

definition checkYouTubePremium :: "'w check" where
  "checkYouTubePremium env probe w =
     (case getUrl env probe ''https://www.youtube.com/premium?hl=en'' serviceHtmlMaxBody w of
        (result, w) \<Rightarrow> (judge youTubeVerdict result, w))"

text \<open>\<open>strings.Trim(path, "/")\<close>\<close>

definition trim_slashes :: "string \<Rightarrow> string" where
  "trim_slashes s = rev (dropWhile (\<lambda>c. c = CHR ''/'') (rev (dropWhile (\<lambda>c. c = CHR ''/'') s)))"

definition spotifyRegion :: "codecs \<Rightarrow> ProbeResult \<Rightarrow> string" where
  "spotifyRegion cx r =
     (let named = firstSubmatch spotifyCountryPattern (pr_body r) in
      case url_path cx (pr_url r) of
        None \<Rightarrow> named
      | Some path \<Rightarrow>
          (let first = hd (split_on (CHR ''/'') (trim_slashes path)) in
           if first \<noteq> [] \<and> first \<noteq> ''api'' then hd (split_on (CHR ''-'') first) else named))"

definition spotifyVerdict :: "codecs \<Rightarrow> ServiceCheckItem \<Rightarrow> ProbeResult \<Rightarrow> ServiceCheckItem" where
  "spotifyVerdict cx item r =
     (let item = item\<lparr>it_region := normalizeRegion (spotifyRegion cx r)\<rparr> in
      if pr_status r = 403 \<or> pr_status r = 451 then item\<lparr>it_status := serviceUnsupportedRegion\<rparr>
      else if pr_status r < 200 \<or> pr_status r \<ge> 300
      then item\<lparr>it_status := statusFromCode (pr_status r)\<rparr>
      else if bodyContains r [''not available in your country'']
      then item\<lparr>it_status := serviceUnsupportedRegion\<rparr>
      else item\<lparr>it_status := serviceAvailable\<rparr>)"

definition checkSpotify :: "codecs \<Rightarrow> 'w check" where
  "checkSpotify cx env probe w =
     (case getUrl env probe
             ''https://www.spotify.com/api/content/v1/country-selector?platform=web&format=json''
             serviceSmallMaxBody w of
        (result, w) \<Rightarrow> (judge (spotifyVerdict cx) result, w))"

definition tikTokStatus :: "ProbeResult \<Rightarrow> string" where
  "tikTokStatus r =
     (if pr_status r = 403 \<or> pr_status r = 451 then serviceUnsupportedRegion
      else if pr_status r < 200 \<or> pr_status r \<ge> 300 then serviceFailed
      else if bodyContains r [''access denied'', ''not available in your region'',
        ''tiktok is not available''] then serviceUnsupportedRegion
      else serviceAvailable)"

definition tikTokRegion :: "string \<Rightarrow> string" where
  "tikTokRegion body = normalizeRegion (firstSubmatch tikTokRegionPattern body)"

definition checkTikTok :: "'w check" where
  "checkTikTok env probe w =
     (case scanUrl env probe ''https://www.tiktok.com/'' (matchString tikTokRegionPattern) w of
        (result, w) \<Rightarrow>
          (judge (\<lambda>item r. item\<lparr>it_status := tikTokStatus r, it_region := tikTokRegion (pr_body r)\<rparr>)
             result, w))"

definition discordVerdict :: "ServiceCheckItem \<Rightarrow> ProbeResult \<Rightarrow> ServiceCheckItem" where
  "discordVerdict item r =
     (let item = item\<lparr>it_status := statusFromCode (pr_status r)\<rparr> in
      if it_status item = serviceAvailable
      then item\<lparr>it_region := normalizeRegion (firstSubmatch discordCountryPattern (pr_body r))\<rparr>
      else item)"

definition checkDiscord :: "'w check" where
  "checkDiscord env probe w =
     (case getUrl env probe ''https://discord.com/api/v9/auth/location-metadata'' serviceSmallMaxBody w of
        (result, w) \<Rightarrow> (judge discordVerdict result, w))"

definition primeVerdict :: "ServiceCheckItem \<Rightarrow> ProbeResult \<Rightarrow> ServiceCheckItem" where
  "primeVerdict item r =
     (if str_contains (pr_body r) ''isServiceRestricted''
      then item\<lparr>it_status := serviceUnsupportedRegion\<rparr>
      else (let region = firstSubmatch primeRegionPattern (pr_body r) in
            if region = [] then item\<lparr>it_status := serviceFailed\<rparr>
            else item\<lparr>it_region := normalizeRegion region, it_status := serviceAvailable\<rparr>))"

definition checkPrimeVideo :: "'w check" where
  "checkPrimeVideo env probe w =
     (case scanUrl env probe ''https://www.primevideo.com''
             (\<lambda>tail. str_contains tail ''isServiceRestricted'' \<or> matchString primeRegionPattern tail) w of
        (result, w) \<Rightarrow> (judge primeVerdict result, w))"

subsection \<open>Rules of several requests\<close>

definition chatGptIosStatus :: "ProbeResult \<Rightarrow> string" where
  "chatGptIosStatus r =
     (if bodyContains r [''you may be connected to a disallowed isp''] then serviceDisallowedIsp
      else if bodyContains r [''sorry, you have been blocked''] then serviceBlocked
      else if bodyContains r [''request is not allowed. please try again later.'']
      then serviceAvailable
      else serviceFailed)"

definition checkChatGpt :: "'w check" where
  "checkChatGpt env probe w =
     (let (ios, w) = getUrl env probe ''https://ios.chat.openai.com/'' serviceSmallMaxBody w;
          item = judge (\<lambda>item r. item\<lparr>it_status := chatGptIosStatus r\<rparr>) ios;
          (trace, w) = getUrl env probe ''https://chat.openai.com/cdn-cgi/trace'' serviceSmallMaxBody w;
          item = (case trace of
                    None \<Rightarrow> item
                  | Some r \<Rightarrow> if answered (itemFrom (Some r)) (Some r)
                              then item\<lparr>it_region := normalizeRegion (traceValue (pr_body r) ''loc'')\<rparr>
                              else item);
          (web, w) = getUrl env probe ''https://api.openai.com/compliance/cookie_requirements''
                       serviceSmallMaxBody w;
          item = (case web of
                    None \<Rightarrow> item
                  | Some r \<Rightarrow> if answered (itemFrom (Some r)) (Some r) \<and>
                                bodyContains r [''unsupported_country'']
                              then item\<lparr>it_status := serviceUnsupportedRegion\<rparr> else item)
      in (item, w))"

definition bilibiliStatus :: "string \<Rightarrow> string" where
  "bilibiliStatus body =
     (let c = firstSubmatch bilibiliCodePattern body in
      if c = ''0'' then serviceAvailable
      else if c = ''-10403'' then serviceUnsupportedRegion
      else serviceFailed)"

definition bilibiliEpisode :: "string \<Rightarrow> 'w check" where
  "bilibiliEpisode url env probe w =
     (case getUrl env probe url serviceSmallMaxBody w of
        (result, w) \<Rightarrow> (judge (\<lambda>item r. item\<lparr>it_status := bilibiliStatus (pr_body r)\<rparr>) result, w))"

definition bilibiliPlayUrl :: "string \<Rightarrow> string" where
  "bilibiliPlayUrl episode = ''https://api.bilibili.com/pgc/player/web/playurl?'' @ episode @
     ''&fourk=1&fnver=0&fnval=16&module=bangumi''"

definition checkBilibili :: "'w check" where
  "checkBilibili env probe w =
     (case bilibiliEpisode
             (bilibiliPlayUrl ''avid=82846771&qn=0&type=&otype=json&ep_id=307247'') env probe w of
        (item, w) \<Rightarrow>
          if it_status item = serviceAvailable then (item\<lparr>it_region := ''CN''\<rparr>, w)
          else if it_status item = serviceUnsupportedRegion
          then bilibiliEpisode
                 (bilibiliPlayUrl ''avid=18281381&cid=29892777&qn=0&type=&otype=json&ep_id=183799'')
                 env probe w
          else (item, w))"

definition netflixVerdict :: "codecs \<Rightarrow> ServiceCheckItem \<Rightarrow> ProbeResult \<Rightarrow> ServiceCheckItem" where
  "netflixVerdict cx item r =
     (if pr_status r = 403 then item\<lparr>it_status := serviceBlocked\<rparr>
      else (case json_targets cx (pr_body r) of
              Some (country # _) \<Rightarrow>
                item\<lparr>it_region := normalizeRegion country, it_status := serviceAvailable\<rparr>
            | _ \<Rightarrow> item\<lparr>it_status := serviceFailed\<rparr>))"

definition netflixFromCdn :: "codecs \<Rightarrow> 'w check" where
  "netflixFromCdn cx env probe w =
     (case getUrl env probe (''https://api.fast.com/netflix/speedtest/v2?https=true&token='' @
             ''YXNkZmFzZGxmbnNkYWZoYXNkZmhrYWxm&urlCount=5'') serviceSmallMaxBody w of
        (result, w) \<Rightarrow> (judge (netflixVerdict cx) result, w))"

definition netflixServed :: "int \<Rightarrow> bool" where
  "netflixServed c \<longleftrightarrow> c = 200 \<or> c = 301"

definition netflixRegion :: "serviceEnv \<Rightarrow> 'w prober \<Rightarrow> 'w \<Rightarrow> string \<times> 'w" where
  "netflixRegion env probe w =
     (case sendRequest env probe (plainGet\<lparr>rq_url := ''https://www.netflix.com/title/80018499'',
             rq_noRedirect := True\<rparr>) w of
        (result, w) \<Rightarrow>
          ((case result of
              None \<Rightarrow> []
            | Some r \<Rightarrow>
                (if pr_error r \<noteq> [] then []
                 else (case pr_header r of
                         None \<Rightarrow> []
                       | Some header \<Rightarrow>
                           (let location = (case map_of header ''Location'' of None \<Rightarrow> []
                                            | Some l \<Rightarrow> l);
                                segments = split_on (CHR ''/'') location
                            in if length segments < 4 then []
                               else normalizeRegion (hd (split_on (CHR ''-'') (segments ! 3))))))), w))"

definition checkNetflix :: "codecs \<Rightarrow> 'w check" where
  "checkNetflix cx env probe w =
     (case netflixFromCdn cx env probe w of
        (cdn, w) \<Rightarrow>
          if it_status cdn = serviceAvailable \<or> it_status cdn = serviceBlocked then (cdn, w)
          else
            (case getUrl env probe ''https://www.netflix.com/title/81280792'' 0 w of
               (None, w) \<Rightarrow> (itemFrom None, w)
             | (Some first, w) \<Rightarrow>
                 if \<not> answered (itemFrom (Some first)) (Some first) then (itemFrom (Some first), w)
                 else
                   (case getUrl env probe ''https://www.netflix.com/title/70143836'' 0 w of
                      (None, w) \<Rightarrow> (itemFrom None, w)
                    | (Some second, w) \<Rightarrow>
                        if \<not> answered (itemFrom (Some second)) (Some second)
                        then (itemFrom (Some second), w)
                        else
                          (let item = itemFrom (Some first) in
                           if pr_status first = 404 \<and> pr_status second = 404
                           then (item\<lparr>it_status := serviceOriginalsOnly\<rparr>, w)
                           else if pr_status first = 403 \<or> pr_status second = 403
                           then (item\<lparr>it_status := serviceUnsupportedRegion\<rparr>, w)
                           else if netflixServed (pr_status first) \<or> netflixServed (pr_status second)
                           then (case netflixRegion env probe w of
                                   (region, w) \<Rightarrow>
                                     (item\<lparr>it_status := serviceAvailable, it_region := region\<rparr>, w))
                           else (item\<lparr>it_status := statusFromCode (pr_status first)\<rparr>, w)))))"

text \<open>\<open>url.QueryEscape\<close>\<close>

definition hex_upper :: "nat \<Rightarrow> char" where
  "hex_upper n = (if n < 10 then char_of (48 + n) else char_of (55 + n))"

definition queryEscape :: "string \<Rightarrow> string" where
  "queryEscape s = concat (map (\<lambda>c.
     if isLetter c \<or> isDigit c \<or> c \<in> set ''-_.~'' then [c]
     else if c = CHR '' '' then ''+''
     else [CHR ''%'', hex_upper (code c div 16), hex_upper (code c mod 16)]) s)"

definition disneyAuthHeader :: string where
  "disneyAuthHeader = ''Bearer ZGlzbmV5JmJyb3dzZXImMS4wLjA.'' @
     ''Cu56AgSfBTDag5NiRA81oLHkDZfu5L3CKadnefEAY84''"

definition disneyPost :: "string \<Rightarrow> string \<Rightarrow> string \<Rightarrow> probeRequest" where
  "disneyPost url contentType body =
     plainGet\<lparr>rq_method := ''POST'', rq_url := url,
       rq_headers := [(''authorization'', disneyAuthHeader), (''content-type'', contentType)],
       rq_body := body, rq_maxBody := serviceSmallMaxBody\<rparr>"

definition disneyDeviceBody :: string where
  "disneyDeviceBody = [CHR 0x7B] @ quoted ''deviceFamily'' @ '':'' @ quoted ''browser'' @ '','' @
     quoted ''applicationRuntime'' @ '':'' @ quoted ''chrome'' @ '','' @
     quoted ''deviceProfile'' @ '':'' @ quoted ''windows'' @ '','' @
     quoted ''attributes'' @ '':'' @ [CHR 0x7B, CHR 0x7D, CHR 0x7D]"

definition disneyForm :: "string \<Rightarrow> string" where
  "disneyForm assertion =
     ''grant_type=urn:ietf:params:oauth:grant-type:token-exchange'' @
     ''&latitude=0&longitude=0&platform=browser'' @
     ''&subject_token='' @ queryEscape assertion @
     ''&subject_token_type=urn:bamtech:params:oauth:token-type:device''"

definition disneyQuery :: "string \<Rightarrow> string" where
  "disneyQuery refresh =
     [CHR 0x7B] @ quoted ''query'' @ '':'' @
     quoted (''mutation refreshToken($input: RefreshTokenInput!) { '' @
       ''refreshToken(refreshToken: $input) { activeSession { sessionId } } }'') @ '','' @
     quoted ''variables'' @ '':'' @ [CHR 0x7B] @ quoted ''input'' @ '':'' @ [CHR 0x7B] @
     quoted ''refreshToken'' @ '':'' @ quoted refresh @ [CHR 0x7D, CHR 0x7D, CHR 0x7D]"

definition disneySession :: "ServiceCheckItem \<Rightarrow> ProbeResult option \<Rightarrow> ServiceCheckItem" where
  "disneySession item session =
     (case session of
        None \<Rightarrow> item\<lparr>it_status := serviceFailed\<rparr>
      | Some r \<Rightarrow>
          if \<not> answered (itemFrom (Some r)) (Some r) \<or> pr_body r = [] \<or> pr_status r \<ge> 400
          then item\<lparr>it_status := serviceFailed\<rparr>
          else (let region = normalizeRegion (firstSubmatch disneyCountryPattern (pr_body r)) in
                if region = [] then item\<lparr>it_status := serviceUnavailable\<rparr>
                else (let item = item\<lparr>it_region := region\<rparr>;
                          supported = firstSubmatch disneySupportedPattern (pr_body r)
                      in if supported = ''true'' then item\<lparr>it_status := serviceAvailable\<rparr>
                         else if supported = ''false'' then item\<lparr>it_status := serviceComingSoon\<rparr>
                         else item\<lparr>it_status := serviceFailed\<rparr>)))"

definition disneyToken ::
  "ServiceCheckItem \<Rightarrow> ProbeResult option \<Rightarrow> (ServiceCheckItem, string) result" where
  "disneyToken item token =
     (case token of
        None \<Rightarrow> Inl (itemFrom None)
      | Some r \<Rightarrow>
          if \<not> answered (itemFrom (Some r)) (Some r) then Inl (itemFrom (Some r))
          else if str_contains (pr_body r) ''forbidden-location'' \<or>
            str_contains (pr_body r) ''403 ERROR''
          then Inl (item\<lparr>it_status := serviceBlocked\<rparr>)
          else (let refresh = firstSubmatch disneyRefreshPattern (pr_body r) in
                if refresh = [] then Inl (item\<lparr>it_status := serviceFailed\<rparr>) else Inr refresh))"

definition disneyDevice :: "ProbeResult option \<Rightarrow> (ServiceCheckItem, string) result" where
  "disneyDevice device =
     (case device of
        None \<Rightarrow> Inl (itemFrom None)
      | Some r \<Rightarrow>
          if \<not> answered (itemFrom (Some r)) (Some r) then Inl (itemFrom (Some r))
          else if pr_status r = 403 then Inl ((itemFrom (Some r))\<lparr>it_status := serviceBlocked\<rparr>)
          else (let assertion = firstSubmatch disneyAssertionPattern (pr_body r) in
                if assertion = [] then Inl ((itemFrom (Some r))\<lparr>it_status := serviceFailed\<rparr>)
                else Inr assertion))"

definition checkDisneyPlus :: "'w check" where
  "checkDisneyPlus env probe w =
     (case sendRequest env probe (disneyPost ''https://disney.api.edge.bamgrid.com/devices''
             ''application/json; charset=UTF-8'' disneyDeviceBody) w of
        (device, w) \<Rightarrow>
          (case disneyDevice device of
             Inl item \<Rightarrow> (item, w)
           | Inr assertion \<Rightarrow>
               (case sendRequest env probe (disneyPost ''https://disney.api.edge.bamgrid.com/token''
                       ''application/x-www-form-urlencoded'' (disneyForm assertion)) w of
                  (token, w) \<Rightarrow>
                    (case disneyToken (itemFrom device) token of
                       Inl item \<Rightarrow> (item, w)
                     | Inr refresh \<Rightarrow>
                         (case sendRequest env probe
                                 (disneyPost ''https://disney.api.edge.bamgrid.com/graph/v1/device/graphql''
                                    ''application/json'' (disneyQuery refresh)) w of
                            (session, w) \<Rightarrow> (disneySession (itemFrom device) session, w))))))"

subsection \<open>The table of the rules\<close>

definition serviceCheckers :: "codecs \<Rightarrow> (string \<times> 'w check) list" where
  "serviceCheckers cx =
     [(''google'', checkReachable ''https://www.google.com/generate_204''),
      (''github'', checkReachable ''https://github.com/''),
      (''youtube'', checkYouTubePremium),
      (''chatgpt'', checkChatGpt),
      (''claude'', checkClaude),
      (''gemini'', checkGemini),
      (''netflix'', checkNetflix cx),
      (''disney-plus'', checkDisneyPlus),
      (''prime-video'', checkPrimeVideo),
      (''spotify'', checkSpotify cx),
      (''tiktok'', checkTikTok),
      (''discord'', checkDiscord),
      (''bilibili'', checkBilibili)]"

definition selectedCheckers :: "codecs \<Rightarrow> string list \<Rightarrow> (string \<times> 'w check) list" where
  "selectedCheckers cx names =
     (if names = [] then serviceCheckers cx
      else List.map_filter (\<lambda>name. find (\<lambda>(n, _). n = name) (serviceCheckers cx)) names)"

text \<open>
  The sweep: \<open>items[index]\<close> is written by the goroutine of that index, whose run is \<open>run index\<close>; how
  the goroutines interleave is left to \<open>run\<close>.
\<close>

definition handleServiceCheck ::
  "codecs \<Rightarrow> (nat \<Rightarrow> string \<times> 'w check \<Rightarrow> ServiceCheckItem) \<Rightarrow> string list \<Rightarrow>
     ServiceCheckItem list" where
  "handleServiceCheck cx run names =
     map (\<lambda>(i, checker). run i checker) (enumerate 0 (selectedCheckers cx names))"

subsection \<open>Every rule judges\<close>

lemma judged_fields [simp]:
  "judged (item\<lparr>it_status := s\<rparr>) \<longleftrightarrow> s \<in> set serviceStatuses \<and> region_ok (it_region item)"
  "judged (item\<lparr>it_status := s, it_region := r\<rparr>) \<longleftrightarrow> s \<in> set serviceStatuses \<and> region_ok r"
  by (simp_all add: judged_def)

lemma judge_judged:
  assumes "\<And>r. judged (verdict (itemFrom (Some r)) r)"
  shows "judged (judge verdict result)"
proof (cases result)
  case None
  then show ?thesis by (simp add: judge_def itemFrom_def)
next
  case (Some r)
  with assms itemFrom_judged [of "Some r"] show ?thesis by (simp add: judge_def)
qed

lemma itemFrom_None_judged [simp]: "judged (itemFrom None)"
  by (simp add: itemFrom_def)

lemma chatGptIosStatus_known [simp]: "chatGptIosStatus r \<in> set serviceStatuses"
  by (simp add: chatGptIosStatus_def)

lemma tikTokStatus_known [simp]: "tikTokStatus r \<in> set serviceStatuses"
  by (simp add: tikTokStatus_def)

lemma bilibiliStatus_known [simp]: "bilibiliStatus b \<in> set serviceStatuses"
  by (simp add: bilibiliStatus_def Let_def)

lemma regions_ok [simp]: "region_ok (youTubeRegion b)" "region_ok (tikTokRegion b)"
  by (simp_all add: youTubeRegion_def tikTokRegion_def split: option.split)

lemma region_CN [simp]: "region_ok ''CN''"
  by code_simp

lemma verdicts_judged:
  "it_region item = [] \<Longrightarrow> judged (claudeVerdict item r)"
  "it_region item = [] \<Longrightarrow> judged (geminiVerdict item r)"
  "it_region item = [] \<Longrightarrow> judged (youTubeVerdict item r)"
  "it_region item = [] \<Longrightarrow> judged (spotifyVerdict cx item r)"
  "it_region item = [] \<Longrightarrow> judged (discordVerdict item r)"
  "it_region item = [] \<Longrightarrow> judged (primeVerdict item r)"
  "it_region item = [] \<Longrightarrow> judged (netflixVerdict cx item r)"
  by (auto simp: claudeVerdict_def geminiVerdict_def youTubeVerdict_def spotifyVerdict_def
      discordVerdict_def primeVerdict_def netflixVerdict_def Let_def judged_def
      split: option.split list.split)

lemmas one_request_defs = checkClaude_def checkGemini_def checkYouTubePremium_def checkSpotify_def
  checkTikTok_def checkDiscord_def checkPrimeVideo_def bilibiliEpisode_def netflixFromCdn_def

lemma one_request_judged:
  "judged (fst (checkClaude env probe w))" "judged (fst (checkGemini env probe w))"
  "judged (fst (checkYouTubePremium env probe w))" "judged (fst (checkSpotify cx env probe w))"
  "judged (fst (checkTikTok env probe w))" "judged (fst (checkDiscord env probe w))"
  "judged (fst (checkPrimeVideo env probe w))" "judged (fst (bilibiliEpisode url env probe w))"
  "judged (fst (netflixFromCdn cx env probe w))"
  by (auto simp: one_request_defs verdicts_judged intro!: judge_judged split: prod.split)

lemma judge_ios: "judged (judge (\<lambda>item r. item\<lparr>it_status := chatGptIosStatus r\<rparr>) result)"
  by (intro judge_judged) simp

lemma judged_region: "judged item \<Longrightarrow> judged (item\<lparr>it_region := normalizeRegion c\<rparr>)"
  by (simp add: judged_def)

lemma judged_unsupported: "judged item \<Longrightarrow> judged (item\<lparr>it_status := serviceUnsupportedRegion\<rparr>)"
  by (simp add: judged_def)

lemma checkChatGpt_judged: "judged (fst (checkChatGpt env probe w))"
  using judge_ios
  by (auto simp: checkChatGpt_def Let_def judged_def split: prod.split option.split)

lemma checkBilibili_judged: "judged (fst (checkBilibili env probe w))"
proof -
  obtain item w' where first: "bilibiliEpisode
      (bilibiliPlayUrl ''avid=82846771&qn=0&type=&otype=json&ep_id=307247'') env probe w = (item, w')"
    by fastforce
  with one_request_judged(8) have "judged item" by (metis fst_conv)
  then have "judged (item\<lparr>it_region := ''CN''\<rparr>)" by (simp add: judged_def)
  with \<open>judged item\<close> show ?thesis
    by (simp add: checkBilibili_def first one_request_judged(8))
qed

lemma itemFrom_some_judged:
  "\<not> answered (itemFrom (Some r)) (Some r) \<Longrightarrow> judged (itemFrom (Some r))"
  by (rule itemFrom_judged)

lemma netflixRegion_ok: "region_ok (fst (netflixRegion env probe w))"
  by (simp add: netflixRegion_def Let_def split: prod.split option.split)

lemma netflixRegion_pair: "netflixRegion env probe w = (r, w') \<Longrightarrow> region_ok r"
  by (metis fst_conv netflixRegion_ok)

lemma checkNetflix_judged: "judged (fst (checkNetflix cx env probe w))"
proof -
  obtain cdn w1 where cdn: "netflixFromCdn cx env probe w = (cdn, w1)" by fastforce
  then have "judged cdn" using one_request_judged(9) by (metis fst_conv)
  then show ?thesis
    by (auto simp: checkNetflix_def cdn Let_def itemFrom_some_judged split: prod.split option.split
        dest!: netflixRegion_pair)
qed

lemma disneyDevice_judged: "disneyDevice device = Inl item \<Longrightarrow> judged item"
  by (auto simp: disneyDevice_def Let_def itemFrom_some_judged split: option.splits if_splits)

lemma disneyToken_judged:
  "disneyToken item token = Inl item' \<Longrightarrow> it_region item = [] \<Longrightarrow> judged item'"
  by (auto simp: disneyToken_def Let_def itemFrom_some_judged split: option.splits if_splits)

lemma disneySession_judged: "it_region item = [] \<Longrightarrow> judged (disneySession item session)"
  by (auto simp: disneySession_def Let_def judged_def split: option.split)

lemma checkDisneyPlus_judged: "judged (fst (checkDisneyPlus env probe w))"
  by (auto simp: checkDisneyPlus_def disneySession_judged split: prod.split sum.split
      dest!: disneyDevice_judged disneyToken_judged)

lemma checkers_judged:
  assumes "(name, check) \<in> set (serviceCheckers cx)"
  shows "judged (fst (check env probe w))"
proof -
  have reach: "judged (fst (checkReachable url env probe w))" for url
    using checkReachable_judged by (metis prod.collapse)
  show ?thesis
    using assms
    by (auto simp: serviceCheckers_def reach one_request_judged checkChatGpt_judged
        checkBilibili_judged checkNetflix_judged checkDisneyPlus_judged)
qed

subsection \<open>Every rule ends after a few requests\<close>

text \<open>A prober that counts: the state is the number of requests sent so far.\<close>

definition counting :: "(probeRequest \<Rightarrow> nat \<Rightarrow> ProbeResult option) \<Rightarrow> nat prober" where
  "counting answer req n = (answer req n, Suc n)"

lemma counting_send [simp]:
  "snd (getUrl env (counting f) url b n) = Suc n"
  "snd (scanUrl env (counting f) url u n) = Suc n"
  "snd (sendRequest env (counting f) req n) = Suc n"
  by (simp_all add: getUrl_def scanUrl_def sendRequest_def counting_def)

lemma one_request_count:
  "snd (checkClaude env (counting f) n) = Suc n" "snd (checkGemini env (counting f) n) = Suc n"
  "snd (checkYouTubePremium env (counting f) n) = Suc n"
  "snd (checkSpotify cx env (counting f) n) = Suc n" "snd (checkTikTok env (counting f) n) = Suc n"
  "snd (checkDiscord env (counting f) n) = Suc n"
  "snd (checkPrimeVideo env (counting f) n) = Suc n"
  "snd (bilibiliEpisode url env (counting f) n) = Suc n"
  "snd (netflixFromCdn cx env (counting f) n) = Suc n"
  "snd (checkReachable url env (counting f) n) = Suc n"
  "snd (netflixRegion env (counting f) n) = Suc n"
  by (simp_all add: one_request_defs checkReachable_def netflixRegion_def Let_def split_def)

lemma several_requests_count:
  "snd (checkChatGpt env (counting f) n) = n + 3"
  "snd (checkBilibili env (counting f) n) \<le> n + 2"
  "snd (checkDisneyPlus env (counting f) n) \<le> n + 3"
  by (simp_all add: checkChatGpt_def checkBilibili_def checkDisneyPlus_def Let_def split_def
      one_request_count split: sum.split)

lemma netflix_count: "snd (checkNetflix cx env (counting f) n) \<le> n + 4"
proof -
  have get: "getUrl env (counting f) url b m = (r, m') \<Longrightarrow> m' = Suc m" for url b m r m'
    by (metis counting_send(1) snd_conv)
  have cdn: "netflixFromCdn cx env (counting f) n = (item, m) \<Longrightarrow> m = Suc n" for item m
    by (metis one_request_count(9) snd_conv)
  have region: "netflixRegion env (counting f) m = (r, m') \<Longrightarrow> m' = Suc m" for m r m'
    by (metis one_request_count(11) snd_conv)
  show ?thesis
    by (auto simp: checkNetflix_def Let_def split: prod.split option.split
        dest!: get cdn region)
qed

subsection \<open>What the sweep promises\<close>

text \<open>
  \<^bold>\<open>C11.\<close> Whatever the services answer, or fail to answer, every rule ends with one of the ten
  statuses the host has a label for and a region that is empty or two capital letters, after at most
  four requests.
\<close>

theorem every_rule_judges:
  assumes "(name, check) \<in> set (serviceCheckers cx)"
    and "check env (counting answer) n = (item, m)"
  shows "it_status item \<in> set serviceStatuses \<and>
    (it_region item = [] \<or> length (it_region item) = 2 \<and> isAsciiUpper (it_region item)) \<and>
    m \<le> n + 4"
proof -
  have "judged item"
    using checkers_judged [OF assms(1), of env "counting answer" n] assms(2) by simp
  moreover have "snd (check env (counting answer) n) \<le> n + 4"
    using assms(1) several_requests_count(2,3) [of env answer n] netflix_count [of cx env answer n]
    by (auto simp: serviceCheckers_def one_request_count several_requests_count(1))
  ultimately show ?thesis using assms(2) by (simp add: judged_def region_ok_def)
qed

definition noCodecs :: codecs where
  "noCodecs = \<lparr>json_targets = (\<lambda>_. None), url_path = (\<lambda>_. None)\<rparr>"

definition bilibiliAnswer :: "probeRequest \<Rightarrow> nat \<Rightarrow> ProbeResult option" where
  "bilibiliAnswer req n = Some \<lparr>pr_status = 200, pr_delay = 9,
     pr_body = (if n = 0 then quoted ''code'' else '' '' @ [CHR 0x7B] @ quoted ''code'' @ '': 0''),
     pr_url = [], pr_chains = [], pr_error = [], pr_message = [], pr_epoch = 0, pr_version = 0,
     pr_header = None, pr_hits = []\<rparr>"

lemma every_rule_judges_witness:
  "snd (checkBilibili \<lparr>env_proxyName = [], env_timeout = 5\<rparr> (counting bilibiliAnswer) 1) \<le> 5"
proof -
  obtain item m where run:
    "checkBilibili \<lparr>env_proxyName = [], env_timeout = 5\<rparr> (counting bilibiliAnswer) 1 = (item, m)"
    by fastforce
  have "(''bilibili'', checkBilibili) \<in> set (serviceCheckers noCodecs)"
    by (simp add: serviceCheckers_def)
  from every_rule_judges [OF this run] run show ?thesis by simp
qed

text \<open>
  A sweep answers each service it was asked for, in the order of the request and under its
  name, every service there is when none is named, and none it does not know; and whatever a rule
  does, also if it panics or its time runs out, the answer carries a status the host knows and the
  stamp read before the first probe.
\<close>

lemma sweep_answers_each:
  fixes run :: "nat \<Rightarrow> string \<times> 'w check \<Rightarrow> ServiceCheckItem"
  assumes "\<And>i name check. \<exists>w. run i (name, check) =
      fst (runServiceCheck (io i) name (\<lambda>env w. case check env (probe i) w of
             (item, w) \<Rightarrow> (if crashes i w then None else Some item, w)) proxyName timeout w)"
  shows "map it_name (handleServiceCheck cx run names) =
      (if names = [] then map fst (serviceCheckers cx :: (string \<times> 'w check) list)
       else filter (\<lambda>n. n \<in> set (map fst (serviceCheckers cx :: (string \<times> 'w check) list))) names) \<and>
    list_all judged (handleServiceCheck cx run names)"
proof -
  let ?cs = "selectedCheckers cx names :: (string \<times> 'w check) list"
  have one: "it_name (run i c) = fst c \<and> judged (run i c)" if "c \<in> set (serviceCheckers cx)" for i c
  proof -
    obtain name check where c: "c = (name, check)" by (cases c)
    define rule where "rule = (\<lambda>env w. case check env (probe i) w of
             (item, w) \<Rightarrow> (if crashes i w then None else Some item, w))"
    from assms [of i name check] obtain w where
      "run i c = fst (runServiceCheck (io i) name rule proxyName timeout w)"
      unfolding c rule_def by blast
    then obtain w' where go: "runServiceCheck (io i) name rule proxyName timeout w = (run i c, w')"
      by (metis prod.collapse)
    have "judged item" if "rule env v = (Some item, v')" for env v item v'
      using that checkers_judged [of name check cx env "probe i" v] \<open>c \<in> _\<close>
      unfolding c by (auto simp: rule_def split: prod.splits if_splits)
    from runServiceCheck_judged [OF this go] show ?thesis by (simp add: c)
  qed
  have known: "set ?cs \<subseteq> set (serviceCheckers cx)"
    by (auto simp: selectedCheckers_def map_filter_def dest: find_SomeD)
  have "map it_name (handleServiceCheck cx run names) = map fst ?cs"
    using one known unfolding handleServiceCheck_def
    by (intro nth_equalityI [where ys = "map fst ?cs"]) (simp_all add: nth_enumerate_eq subset_eq split_def)
  moreover have "list_all judged (handleServiceCheck cx run names)"
    using one known
    by (auto simp: handleServiceCheck_def list_all_iff in_set_enumerate_eq subset_eq)
      (metis nth_mem prod.inject)
  moreover have "map fst (List.map_filter (\<lambda>name. find (\<lambda>(n, _). n = name) cs) ns) =
      filter (\<lambda>n. n \<in> set (map fst cs)) ns" for ns and cs :: "(string \<times> 'w check) list"
  proof (induction ns)
    case Nil
    then show ?case by (simp add: map_filter_simps)
  next
    case (Cons n ns)
    show ?case
    proof (cases "find (\<lambda>(m, _). m = n) cs")
      case None
      then have "n \<notin> fst ` set cs" by (auto dest: find_NoneD)
      with None Cons show ?thesis by (simp add: map_filter_simps)
    next
      case (Some e)
      then have "e \<in> set cs" "fst e = n" by (auto dest: find_SomeD)
      with Some Cons show ?thesis by (auto simp: map_filter_simps)
    qed
  qed
  ultimately show ?thesis by (simp add: selectedCheckers_def)
qed

definition silentIO :: "nat checkIO" where
  "silentIO = \<lparr>ck_settled = (\<lambda>_ w. w), ck_stamp = (\<lambda>_. (1, 2)), ck_cancelled = (\<lambda>_. False),
     ck_budget = (\<lambda>_ _. False), ck_now = (\<lambda>w. 0), ck_hits = (\<lambda>_. [])\<rparr>"

definition silentRun :: "nat \<Rightarrow> string \<times> nat check \<Rightarrow> ServiceCheckItem" where
  "silentRun i c = fst (runServiceCheck silentIO (fst c)
     (\<lambda>env w. case snd c env (counting (\<lambda>_ _. None)) w of
        (item, w) \<Rightarrow> (if w = 3 then None else Some item, w)) [] 5000 0)"

end
