(* ===== verification/Sweep.thy ===== *)
theory Sweep
  imports ServiceRules
begin

section \<open>The goroutines of a sweep (\<open>core/service_check.go\<close>)\<close>

text \<open>
  \<open>handleServiceCheck\<close> takes a slot for every check in turn, or finds its context done, and starts the check on
  a goroutine of its own. Four slots are shared with the other sweeps. A check whose context is done before it
  asks is answered as failed without a request.
\<close>

subsection \<open>The loop and its goroutines\<close>

definition serviceCheckConcurrency :: nat where "serviceCheckConcurrency = 4"

text \<open>A goroutine: its index, whether it got a slot, and whether it is past the look at its context.\<close>

record 'i sweep =
  nextCheck :: nat
  runningChecks :: "(nat \<times> bool \<times> bool) list"
  otherSlots :: nat
  contextDone :: "nat \<Rightarrow> bool"
  sweepItems :: "'i option list"

definition ownSlots :: "'i sweep \<Rightarrow> nat" where
  "ownSlots s = length (filter (\<lambda>(i, granted, asking). granted) (runningChecks s))"

text \<open>
  \<open>n\<close> is the number of checks and \<open>answer i asked\<close> what check \<open>i\<close> answers. \<open>sweep_next\<close> are the steps of the
  sweep itself, \<open>sweep_env\<close> those of others: they take and give back slots, and end contexts, by a newer claim
  or because the budget is spent.
\<close>

inductive sweep_next :: "nat \<Rightarrow> (nat \<Rightarrow> bool \<Rightarrow> 'i) \<Rightarrow> 'i sweep \<Rightarrow> 'i sweep \<Rightarrow> bool" for n answer where
  sweep_granted: "nextCheck s < n \<Longrightarrow> otherSlots s + ownSlots s < serviceCheckConcurrency \<Longrightarrow>
    sweep_next n answer s (s\<lparr>nextCheck := Suc (nextCheck s),
      runningChecks := runningChecks s @ [(nextCheck s, True, False)]\<rparr>)"
| sweep_refused: "nextCheck s < n \<Longrightarrow> contextDone s (nextCheck s) \<Longrightarrow>
    sweep_next n answer s (s\<lparr>nextCheck := Suc (nextCheck s),
      runningChecks := runningChecks s @ [(nextCheck s, False, False)]\<rparr>)"
| sweep_ask: "runningChecks s = as @ (i, granted, False) # bs \<Longrightarrow> \<not> contextDone s i \<Longrightarrow>
    sweep_next n answer s (s\<lparr>runningChecks := as @ (i, granted, True) # bs\<rparr>)"
| sweep_finish: "runningChecks s = as @ (i, granted, asking) # bs \<Longrightarrow> asking \<or> contextDone s i \<Longrightarrow>
    sweep_next n answer s (s\<lparr>runningChecks := as @ bs, sweepItems := (sweepItems s)[i := Some (answer i asking)]\<rparr>)"

inductive sweep_env :: "'i sweep \<Rightarrow> 'i sweep \<Rightarrow> bool" where
  env_slots: "k + ownSlots s \<le> serviceCheckConcurrency \<Longrightarrow> sweep_env s (s\<lparr>otherSlots := k\<rparr>)"
| env_done: "sweep_env s (s\<lparr>contextDone := (contextDone s)(i := True)\<rparr>)"

definition initSweep :: "nat \<Rightarrow> nat \<Rightarrow> 'i sweep" where
  "initSweep n others = \<lparr>nextCheck = 0, runningChecks = [], otherSlots = others, contextDone = (\<lambda>_. False),
     sweepItems = replicate n None\<rparr>"

inductive sweep_reachable :: "nat \<Rightarrow> (nat \<Rightarrow> bool \<Rightarrow> 'i) \<Rightarrow> 'i sweep \<Rightarrow> bool" for n answer where
  sweep_init: "others \<le> serviceCheckConcurrency \<Longrightarrow> sweep_reachable n answer (initSweep n others)"
| sweep_own: "sweep_reachable n answer s \<Longrightarrow> sweep_next n answer s t \<Longrightarrow> sweep_reachable n answer t"
| sweep_other: "sweep_reachable n answer s \<Longrightarrow> sweep_env s t \<Longrightarrow> sweep_reachable n answer t"

text \<open>\<open>running.Wait()\<close> returns.\<close>

definition sweepOver :: "nat \<Rightarrow> 'i sweep \<Rightarrow> bool" where
  "sweepOver n s \<longleftrightarrow> nextCheck s = n \<and> runningChecks s = []"

subsection \<open>The invariant\<close>

definition sweep_inv :: "nat \<Rightarrow> (nat \<Rightarrow> bool \<Rightarrow> 'i) \<Rightarrow> 'i sweep \<Rightarrow> bool" where
  "sweep_inv n answer s \<longleftrightarrow>
     otherSlots s + ownSlots s \<le> serviceCheckConcurrency \<and> nextCheck s \<le> n \<and> length (sweepItems s) = n \<and>
     (\<forall>(i, granted, asking) \<in> set (runningChecks s). i < nextCheck s \<and> (granted \<or> contextDone s i \<and> \<not> asking)) \<and>
     (\<forall>i < nextCheck s. i \<in> fst ` set (runningChecks s) \<or> (\<exists>asked. sweepItems s ! i = Some (answer i asked)))"

lemma sweep_inv_next:
  assumes "sweep_next n answer s t" and inv: "sweep_inv n answer s"
  shows "sweep_inv n answer t"
  using assms(1)
proof cases
  case sweep_granted
  with inv show ?thesis
    by (auto simp: sweep_inv_def ownSlots_def less_Suc_eq)
next
  case sweep_refused
  with inv show ?thesis
    by (auto simp: sweep_inv_def ownSlots_def less_Suc_eq)
next
  case (sweep_ask as i granted bs)
  with inv show ?thesis
    by (auto simp: sweep_inv_def ownSlots_def)
next
  case (sweep_finish as i granted asking bs)
  with inv show ?thesis
    by (auto simp: sweep_inv_def ownSlots_def nth_list_update split: if_splits)
qed

lemma sweep_reachable_inv: "sweep_reachable n answer s \<Longrightarrow> sweep_inv n answer s"
proof (induction rule: sweep_reachable.induct)
  case (sweep_init others)
  then show ?case by (simp add: sweep_inv_def initSweep_def ownSlots_def)
next
  case (sweep_own s t)
  then show ?case using sweep_inv_next by blast
next
  case (sweep_other s t)
  from sweep_other(2,3) show ?case
    by (cases rule: sweep_env.cases) (auto simp: sweep_inv_def ownSlots_def)
qed

subsection \<open>What a sweep is promised\<close>

definition checksLeft :: "nat \<Rightarrow> 'i sweep \<Rightarrow> nat" where
  "checksLeft n s = 3 * (n - nextCheck s) + length (runningChecks s)
     + length (filter (\<lambda>(i, granted, asking). \<not> asking) (runningChecks s))"

text \<open>
  At most four checks of all sweeps have requests out; a sweep that is over holds no slot and has an answer for
  every check; each of its steps brings it nearer to its end, and once its contexts are done, which its budget
  sees to, it is never stuck before.
\<close>

lemma asking_bounded:
  assumes "sweep_reachable n answer s"
  shows "otherSlots s + length (filter (\<lambda>(i, granted, asking). asking) (runningChecks s)) \<le> 4"
proof -
  have inv: "sweep_inv n answer s" using assms by (rule sweep_reachable_inv)
  have "length (filter (\<lambda>(i, granted, asking). asking) rs) \<le> length (filter (\<lambda>(i, granted, asking). granted) rs)"
    if "\<forall>(i, granted, asking) \<in> set rs. asking \<longrightarrow> granted" for rs :: "(nat \<times> bool \<times> bool) list"
    using that by (induction rs) auto
  from this [of "runningChecks s"] inv show ?thesis
    by (fastforce simp: sweep_inv_def ownSlots_def serviceCheckConcurrency_def)
qed

lemma sweep_complete:
  assumes "sweep_reachable n answer s" and "sweepOver n s"
  shows "ownSlots s = 0" and "\<exists>asked. sweepItems s = map (\<lambda>i. Some (answer i (asked i))) [0..<n]"
proof -
  have inv: "sweep_inv n answer s" using assms(1) by (rule sweep_reachable_inv)
  show "ownSlots s = 0" using assms(2) by (simp add: ownSlots_def sweepOver_def)
  have "\<forall>i < n. \<exists>asked. sweepItems s ! i = Some (answer i asked)"
    using inv assms(2) by (auto simp: sweep_inv_def sweepOver_def)
  then obtain asked where "\<forall>i < n. sweepItems s ! i = Some (answer i (asked i))" by metis
  then have "sweepItems s = map (\<lambda>i. Some (answer i (asked i))) [0..<n]"
    using inv by (intro nth_equalityI) (simp_all add: sweep_inv_def)
  then show "\<exists>asked. sweepItems s = map (\<lambda>i. Some (answer i (asked i))) [0..<n]" by blast
qed

lemma sweep_progress:
  assumes "sweep_reachable n answer s"
  shows "sweep_next n answer s t \<Longrightarrow> checksLeft n t < checksLeft n s"
    and "\<not> sweepOver n s \<Longrightarrow> \<forall>i < n. contextDone s i \<Longrightarrow> \<exists>t. sweep_next n answer s t"
proof -
  have inv: "sweep_inv n answer s" using assms by (rule sweep_reachable_inv)
  show "checksLeft n t < checksLeft n s" if "sweep_next n answer s t"
    using that by cases (auto simp: checksLeft_def)
  show "\<exists>t. sweep_next n answer s t" if over: "\<not> sweepOver n s" and ended: "\<forall>i < n. contextDone s i"
  proof (cases "nextCheck s < n")
    case True
    with ended show ?thesis using sweep_refused by blast
  next
    case False
    with over inv obtain r rs where r: "runningChecks s = r # rs"
      by (cases "runningChecks s") (auto simp: sweepOver_def sweep_inv_def)
    obtain i granted asking where "r = (i, granted, asking)" by (cases r)
    with r inv ended show ?thesis
      using sweep_finish [of s "[]" i granted asking rs n answer] by (auto simp: sweep_inv_def)
  qed
qed

text \<open>The answer of the handler is that of \<open>handleServiceCheck\<close>, for which \<open>sweep_answers_each\<close> holds.\<close>

lemma sweep_is_handled:
  assumes "sweep_reachable n answer s" and "sweepOver n s"
    and "n = length (selectedCheckers cx names :: (string \<times> 'w check) list)"
  shows "\<exists>asked. sweepItems s =
    map Some (handleServiceCheck cx (\<lambda>i (c :: string \<times> 'w check). answer i (asked i)) names)"
proof -
  obtain asked where "sweepItems s = map (\<lambda>i. Some (answer i (asked i))) [0..<n]"
    using sweep_complete(2) [OF assms(1,2)] by blast
  moreover have "map (\<lambda>(i, c). answer i (asked i)) (enumerate 0 cs) = map (\<lambda>i. answer i (asked i)) [0..<length cs]"
    for cs :: "(string \<times> 'w check) list"
    by (intro nth_equalityI) (simp_all add: nth_enumerate_eq)
  then have "handleServiceCheck cx (\<lambda>i (c :: string \<times> 'w check). answer i (asked i)) names =
      map (\<lambda>i. answer i (asked i)) [0..<n]"
    using assms(3) by (simp add: handleServiceCheck_def)
  ultimately have "sweepItems s = map Some (handleServiceCheck cx (\<lambda>i (c :: string \<times> 'w check). answer i (asked i)) names)"
    by simp
  then show ?thesis by blast
qed

end
