(* ===== verification/GoNumbers.thy ===== *)
theory GoNumbers
  imports GoStrings
begin

section \<open>Reading numbers (Go's \<open>strconv\<close>)\<close>

text \<open>
  \<open>strconv.Atoi\<close>, the reader of the decimal digits that \<open>strconv.FormatInt\<close> writes: an optional sign, at
  least one digit, and a value that fits 64 bits.
\<close>

definition isDecimal :: "char \<Rightarrow> bool" where
  "isDecimal c \<longleftrightarrow> 48 \<le> code c \<and> code c \<le> 57"

definition digitsValue :: "string \<Rightarrow> int" where
  "digitsValue s = fold (\<lambda>c n. n * 10 + (int (code c) - 48)) s 0"

definition atoi :: "string \<Rightarrow> int option" where
  "atoi s =
     (let (sign, t) = (case s of
            [] \<Rightarrow> (1, [])
          | c # r \<Rightarrow> if c = CHR ''-'' then (-1, r) else if c = CHR ''+'' then (1, r) else (1, s));
          n = sign * digitsValue t
      in if t \<noteq> [] \<and> list_all isDecimal t \<and> - (2 ^ 63) \<le> n \<and> n < 2 ^ 63 then Some n else None)"

lemma isDecimal_digit: "m < 10 \<Longrightarrow> isDecimal (char_of (48 + m))" for m :: nat
  by (simp add: isDecimal_def code_def)

lemma dec_digits_decimal: "list_all isDecimal (dec_digits n)"
proof (induction n rule: dec_digits.induct)
  case (1 n)
  then show ?case by (subst dec_digits.simps) (auto simp: isDecimal_digit)
qed

lemma dec_digits_nonempty [simp]: "dec_digits n \<noteq> []"
  by (subst dec_digits.simps) simp

lemma digitsValue_snoc: "digitsValue (s @ [c]) = digitsValue s * 10 + (int (code c) - 48)"
  by (simp add: digitsValue_def)

lemma digitsValue_dec: "digitsValue (dec_digits n) = int n"
proof (induction n rule: dec_digits.induct)
  case (1 n)
  have digit: "int (code (char_of (48 + m))) - 48 = int m" if "m < 10" for m :: nat
    using that by (simp add: code_def)
  show ?case
  proof (cases "n < 10")
    case True
    then show ?thesis by (subst dec_digits.simps) (simp add: digitsValue_def digit)
  next
    case False
    moreover have "int (n div 10) * 10 + int (n mod 10) = int n"
      by (metis div_mult_mod_eq of_nat_add of_nat_mult of_nat_numeral)
    ultimately show ?thesis
      using 1 by (subst dec_digits.simps) (simp add: digitsValue_snoc digit)
  qed
qed

lemma isDecimal_sign: "\<not> isDecimal (CHR ''-'')" "\<not> isDecimal (CHR ''+'')"
  by (simp_all add: isDecimal_def code_def)

lemma atoi_dec_digits: "int n < 2 ^ 63 \<Longrightarrow> atoi (dec_digits n) = Some (int n)"
  using dec_digits_decimal [of n] isDecimal_sign digitsValue_dec [of n]
  by (cases "dec_digits n") (auto simp: atoi_def Let_def)

end
