(* ===== verification/Providers.thy ===== *)
theory Providers
  imports Dispatch Route GoNumbers "HOL-Library.List_Lexorder" "HOL-Library.Char_ord"
begin

section \<open>External providers and geo data (\<open>core/provider.go\<close>, \<open>core/geo.go\<close>)\<close>

text \<open>
  The claims that keep two updates of one resource apart, the update of a provider with every error
  the host is told, the classification of a failed request, the listing of the providers, the
  removal of a profile's provider files, and the geo data updater. A provider is what the core reads
  of mihomo's; its update is an argument.
\<close>

subsection \<open>Claims\<close>

type_synonym claims = "(string, bool) gomap"

definition geoUpdateScope :: string where "geoUpdateScope = ''geo:''"
definition providerUpdateScope :: string where "providerUpdateScope = ''provider:''"

definition claimUpdateAs :: "string \<Rightarrow> bool \<Rightarrow> claims \<Rightarrow> claims \<times> bool" where
  "claimUpdateAs key fromHook cs =
     (if map_of cs key \<noteq> None then (cs, False) else (AList.update key fromHook cs, True))"

definition claimUpdate :: "string \<Rightarrow> claims \<Rightarrow> claims \<times> bool" where
  "claimUpdate key cs = claimUpdateAs key False cs"

definition releaseUpdate :: "string \<Rightarrow> claims \<Rightarrow> claims" where
  "releaseUpdate key cs = AList.delete key cs"

definition releaseHookUpdate :: "string \<Rightarrow> claims \<Rightarrow> claims" where
  "releaseHookUpdate key cs = (if map_of cs key = Some True then AList.delete key cs else cs)"

text \<open>What the user of a claim table may rely on.\<close>

locale claim_table =
  fixes lookup :: "'t \<Rightarrow> 'k \<Rightarrow> bool option"
    and claim :: "'k \<Rightarrow> bool \<Rightarrow> 't \<Rightarrow> 't \<times> bool"
    and release :: "'k \<Rightarrow> 't \<Rightarrow> 't"
  assumes claim_free: "lookup t k = None \<Longrightarrow>
      \<exists>t'. claim k b t = (t', True) \<and> lookup t' = (lookup t)(k := Some b)"
    and claim_held: "lookup t k = Some b' \<Longrightarrow> claim k b t = (t, False)"
    and release_lookup: "lookup (release k t) = (lookup t)(k := None)"
begin

lemma claimed: "claim k b t = (t', True) \<Longrightarrow> lookup t k = None \<and> lookup t' = (lookup t)(k := Some b)"
  using claim_free [of t k b] claim_held [of t k _ b] by (cases "lookup t k") auto

lemma refused: "claim k b t = (t', False) \<Longrightarrow> t' = t \<and> lookup t k \<noteq> None"
  using claim_free [of t k b] claim_held [of t k _ b] by (cases "lookup t k") auto

lemma bracket: "claim k b t = (t', True) \<Longrightarrow> lookup (release k t') = lookup t"
  using claimed [of k b t t'] by (simp add: release_lookup fun_eq_iff)

end

interpretation ct: claim_table map_of claimUpdateAs releaseUpdate
  by unfold_locales (auto simp: claimUpdateAs_def releaseUpdate_def update_conv' delete_conv')

lemma claimUpdate_table:
  "claimUpdate k t = (t', True) \<Longrightarrow> map_of t k = None \<and> map_of t' = (map_of t)(k \<mapsto> False)"
  unfolding claimUpdate_def by (rule ct.claimed)

text \<open>
  Manual updates and mihomo's own, which reports its runs through \<open>GeoUpdateHook\<close>. \<open>manual\<close> is a
  ghost: the keys of the manual updates running now.
\<close>

record updateWorld =
  uw_claims :: claims
  manual :: "string list"

inductive update_step :: "updateWorld \<Rightarrow> updateWorld \<Rightarrow> bool" where
  manual_start: "claimUpdate key (uw_claims w) = (cs, True) \<Longrightarrow>
     update_step w (w\<lparr>uw_claims := cs, manual := key # manual w\<rparr>)"
| manual_end: "key \<in> set (manual w) \<Longrightarrow>
     update_step w (w\<lparr>uw_claims := releaseUpdate key (uw_claims w),
       manual := remove1 key (manual w)\<rparr>)"
| hook_start: "claimUpdateAs key True (uw_claims w) = (cs, ok) \<Longrightarrow>
     update_step w (w\<lparr>uw_claims := cs\<rparr>)"
| hook_end: "update_step w (w\<lparr>uw_claims := releaseHookUpdate key (uw_claims w)\<rparr>)"

inductive updates_reachable :: "updateWorld \<Rightarrow> bool" where
  start: "updates_reachable \<lparr>uw_claims = [], manual = []\<rparr>"
| step: "updates_reachable w \<Longrightarrow> update_step w w' \<Longrightarrow> updates_reachable w'"

definition updates_inv :: "updateWorld \<Rightarrow> bool" where
  "updates_inv w \<longleftrightarrow>
     distinct (manual w) \<and>
     (\<forall>k. map_of (uw_claims w) k = Some False \<longleftrightarrow> k \<in> set (manual w))"

lemma updates_inv_step: "update_step w w' \<Longrightarrow> updates_inv w \<Longrightarrow> updates_inv w'"
proof (induction rule: update_step.induct)
  case (manual_start key w cs)
  note cs = claimUpdate_table [OF manual_start.hyps]
  with manual_start.prems have "key \<notin> set (manual w)"
    unfolding updates_inv_def by (metis option.distinct(1))
  with cs manual_start.prems show ?case by (auto simp: updates_inv_def)
next
  case (manual_end key w)
  then show ?case
    by (auto simp: updates_inv_def ct.release_lookup set_remove1_eq)
next
  case (hook_start key w cs ok)
  have "map_of cs k = Some False \<longleftrightarrow> map_of (uw_claims w) k = Some False" for k
  proof (cases ok)
    case True
    with ct.claimed [of key True "uw_claims w" cs] hook_start.hyps show ?thesis by simp
  next
    case False
    with ct.refused [of key True "uw_claims w" cs] hook_start.hyps show ?thesis by simp
  qed
  with hook_start.prems show ?case by (simp add: updates_inv_def)
next
  case (hook_end w key)
  have "map_of (releaseHookUpdate key (uw_claims w)) k = Some False \<longleftrightarrow>
      map_of (uw_claims w) k = Some False" for k
    by (simp add: releaseHookUpdate_def delete_conv')
  with hook_end.prems show ?case by (simp add: updates_inv_def)
qed

lemma updates_reachable_inv: "updates_reachable w \<Longrightarrow> updates_inv w"
proof (induction rule: updates_reachable.induct)
  case start
  show ?case by (simp add: updates_inv_def)
qed (blast intro: updates_inv_step)

subsection \<open>Failed requests\<close>

text \<open>What \<open>errors.As\<close> and \<open>errors.Is\<close> tell of an error, and its message.\<close>

record fetchError =
  fe_message :: string
  fe_unknownAuthority :: bool
  fe_hostname :: bool
  fe_invalidCertificate :: bool
  fe_certificateVerification :: bool
  fe_recordHeader :: bool
  fe_alert :: bool
  fe_dns :: bool
  fe_ipNotFound :: bool
  fe_contextDeadline :: bool
  fe_osDeadline :: bool
  fe_netError :: bool
  fe_netTimeout :: bool
  fe_opError :: bool
  fe_connRefused :: bool
  fe_connReset :: bool
  fe_eof :: bool
  fe_unexpectedEOF :: bool
  fe_urlError :: bool

record providerRequestFailure =
  pf_code :: string
  pf_reason :: string
  pf_statusCode :: int

definition providerRequestFailureReason :: "fetchError \<Rightarrow> string" where
  "providerRequestFailureReason e =
     (if fe_unknownAuthority e \<or> fe_hostname e \<or> fe_invalidCertificate e \<or>
        fe_certificateVerification e \<or> fe_recordHeader e \<or> fe_alert e then ''tls''
      else if fe_dns e \<or> fe_ipNotFound e then ''dns''
      else if fe_contextDeadline e \<or> fe_osDeadline e \<or> fe_netError e \<and> fe_netTimeout e
      then ''timeout''
      else if fe_opError e \<or> fe_connRefused e \<or> fe_connReset e \<or> fe_eof e \<or> fe_unexpectedEOF e
      then ''connection''
      else [])"

definition classifyProviderRequestError :: "fetchError \<Rightarrow> providerRequestFailure option" where
  "classifyProviderRequestError e =
     (let msg = fe_message e;
          status = (if length msg \<ge> 4 \<and> msg ! 3 = CHR '' '' then atoi (take 3 msg) else None);
          reason = providerRequestFailureReason e;
          other = (if reason \<noteq> [] \<or> fe_urlError e \<or> fe_netError e
                   then Some \<lparr>pf_code = ''request_error'', pf_reason = reason, pf_statusCode = 0\<rparr>
                   else None)
      in case status of
           Some n \<Rightarrow>
             if 100 \<le> n \<and> n \<le> 599
             then Some \<lparr>pf_code = ''request_bad_response'', pf_reason = [], pf_statusCode = n\<rparr>
             else other
         | None \<Rightarrow> other)"

definition providerError :: "string \<Rightarrow> string \<Rightarrow> string \<Rightarrow> methodError" where
  "providerError c providerName msg =
     \<lparr>me_code = c, me_message = msg, me_details = [(''providerName'', DetailString providerName)]\<rparr>"

definition requestMethodError ::
  "fetchError \<Rightarrow> (string, detail) gomap \<Rightarrow> methodError option" where
  "requestMethodError e details =
     (case classifyProviderRequestError e of
        None \<Rightarrow> None
      | Some f \<Rightarrow>
          (let details = (if pf_reason f \<noteq> []
                          then AList.update ''reason'' (DetailString (pf_reason f)) details
                          else details);
               details = (if pf_statusCode f \<noteq> 0
                          then AList.update ''statusCode'' (DetailInt (pf_statusCode f)) details
                          else details)
           in Some \<lparr>me_code = pf_code f, me_message = fe_message e, me_details = details\<rparr>))"

definition providerUpdateError :: "string \<Rightarrow> fetchError \<Rightarrow> methodError" where
  "providerUpdateError providerName e =
     (case requestMethodError e [(''providerName'', DetailString providerName)] of
        Some me \<Rightarrow> me
      | None \<Rightarrow> providerError ''provider_update_error'' providerName (fe_message e))"

subsection \<open>Providers\<close>

datatype providerKind = ProxySet | RuleSet | OtherProvider

record 'i provider =
  pv_compatible :: bool
  pv_kind :: providerKind
  pv_info :: 'i            \<comment> \<open>the fields that both kinds show\<close>
  pv_name :: string
  pv_subscription :: "'i option"

record 'i tunnelProviders =
  tp_proxies :: "(string, 'i provider) gomap"
  tp_rules :: "(string, 'i provider) gomap"

record 'i externalProvider =
  ep_name :: string
  ep_info :: 'i
  ep_subscription :: "'i option"

definition externalProviders :: "'i tunnelProviders \<Rightarrow> (string, 'i provider) gomap" where
  "externalProviders tp =
     fold (\<lambda>(n, p) eps. if pv_compatible p then eps else AList.update n p eps) (tp_rules tp)
       (fold (\<lambda>(n, p) eps. if pv_compatible p then eps else AList.update n p eps)
          (tp_proxies tp) [])"

definition lookupExternalProvider :: "'i tunnelProviders \<Rightarrow> string \<Rightarrow> 'i provider option" where
  "lookupExternalProvider tp name =
     (let pick = (\<lambda>m. case map_of m name of
            Some p \<Rightarrow> if pv_compatible p then None else Some p
          | None \<Rightarrow> None)
      in case pick (tp_rules tp) of Some p \<Rightarrow> Some p | None \<Rightarrow> pick (tp_proxies tp))"

definition toExternalProvider :: "'i provider \<Rightarrow> 'i externalProvider option" where
  "toExternalProvider p =
     (case pv_kind p of
        ProxySet \<Rightarrow> Some \<lparr>ep_name = pv_name p, ep_info = pv_info p,
          ep_subscription = pv_subscription p\<rparr>
      | RuleSet \<Rightarrow> Some \<lparr>ep_name = pv_name p, ep_info = pv_info p, ep_subscription = None\<rparr>
      | OtherProvider \<Rightarrow> None)"

definition handleGetExternalProviders :: "'i tunnelProviders \<Rightarrow> 'i externalProvider list" where
  "handleGetExternalProviders tp =
     sort_key ep_name (List.map_filter (\<lambda>(_, p). toExternalProvider p) (externalProviders tp))"

definition handleGetExternalProvider ::
  "'i tunnelProviders \<Rightarrow> string \<Rightarrow> 'i externalProvider option" where
  "handleGetExternalProvider tp name =
     Option.bind (lookupExternalProvider tp name) toExternalProvider"

text \<open>
  \<open>updateExternalProvider\<close>: \<open>update\<close> runs with the claim held; \<open>refresh\<close> is \<open>refreshRoute\<close> on the
  rest of the core. A panic of the update (\<open>None\<close>) passes through the deferred release.
\<close>

definition updateExternalProvider ::
  "'i tunnelProviders \<Rightarrow> ('i provider \<Rightarrow> 'w \<Rightarrow> methodError option option \<times> 'w) \<Rightarrow> ('w \<Rightarrow> 'w) \<Rightarrow>
     string \<Rightarrow> claims \<Rightarrow> 'w \<Rightarrow> methodError option option \<times> claims \<times> 'w" where
  "updateExternalProvider tp update refresh name cs w =
     (case lookupExternalProvider tp name of
        None \<Rightarrow> (Some (Some (providerError ''provider_not_found'' name
                  ''external provider does not exist'')), cs, w)
      | Some p \<Rightarrow>
          (let key = providerUpdateScope @ name in
           case claimUpdate key cs of
             (cs, False) \<Rightarrow> (Some (Some (providerError ''provider_updating'' name
                  ''external provider is updating'')), cs, w)
           | (cs, True) \<Rightarrow>
               (case update p w of
                  (None, w) \<Rightarrow> (None, releaseUpdate key cs, w)
                | (Some (Some e), w) \<Rightarrow> (Some (Some e), releaseUpdate key cs, w)
                | (Some None, w) \<Rightarrow> (Some None, releaseUpdate key cs, refresh w))))"

definition handleUpdateExternalProvider ::
  "'i tunnelProviders \<Rightarrow> ('i provider \<Rightarrow> 'w \<Rightarrow> fetchError option \<times> 'w) \<Rightarrow> ('w \<Rightarrow> 'w) \<Rightarrow>
     string \<Rightarrow> claims \<Rightarrow> 'w \<Rightarrow> methodError option option \<times> claims \<times> 'w" where
  "handleUpdateExternalProvider tp doUpdate refresh name =
     updateExternalProvider tp
       (\<lambda>p w. case doUpdate p w of (e, w) \<Rightarrow> (Some (map_option (providerUpdateError name) e), w))
       refresh name"

definition errNotExternalProvider :: string where
  "errNotExternalProvider = ''not external provider''"

definition sideUpdateExternalProvider ::
  "('i provider \<Rightarrow> bytes \<Rightarrow> 'w \<Rightarrow> string option \<times> 'w) \<Rightarrow> 'i provider \<Rightarrow> bytes \<Rightarrow> 'w \<Rightarrow>
     string option \<times> 'w" where
  "sideUpdateExternalProvider side p data w =
     (if pv_kind p = OtherProvider then (Some errNotExternalProvider, w) else side p data w)"

definition handleSideLoadExternalProvider ::
  "'i tunnelProviders \<Rightarrow> ('i provider \<Rightarrow> bytes \<Rightarrow> 'w \<Rightarrow> string option \<times> 'w) \<Rightarrow> ('w \<Rightarrow> 'w) \<Rightarrow>
     string \<Rightarrow> bytes \<Rightarrow> claims \<Rightarrow> 'w \<Rightarrow> methodError option option \<times> claims \<times> 'w" where
  "handleSideLoadExternalProvider tp side refresh name data =
     updateExternalProvider tp
       (\<lambda>p w. case sideUpdateExternalProvider side p data w of
          (e, w) \<Rightarrow> (Some (map_option (providerError ''provider_update_error'' name) e), w))
       refresh name"

text \<open>\<open>handleDumpRuleSet\<close>: the first behaviour the file converts under; else every error.\<close>

definition handleDumpRuleSet ::
  "(string \<Rightarrow> (string, bytes) result) \<Rightarrow> (bytes \<Rightarrow> bool \<Rightarrow> (string, string) result) \<Rightarrow> string \<Rightarrow>
     (string list, string) result" where
  "handleDumpRuleSet readFile convertToMrs path =
     (case readFile path of
        Inl e \<Rightarrow> Inl [e]
      | Inr buf \<Rightarrow>
          (case convertToMrs buf True of
             Inr text \<Rightarrow> Inr text
           | Inl e1 \<Rightarrow>
               (case convertToMrs buf False of
                  Inr text \<Rightarrow> Inr text
                | Inl e2 \<Rightarrow> Inl [e1, e2])))"

subsection \<open>Removing a profile's provider files\<close>

text \<open>A path is the list of its elements below the home directory.\<close>

definition providerPaths :: "string list \<Rightarrow> int \<Rightarrow> string list \<times> string list" where
  "providerPaths homeDir profileId =
     (let root = homeDir @ [''profiles'', ''providers''] in (root, root @ [format_int profileId]))"

text \<open>\<open>rmAll\<close> is \<open>os.RemoveAll\<close>, \<open>rmdir\<close> the \<open>os.Remove\<close> of the then empty directory.\<close>

definition handleClearEffect ::
  "bool \<Rightarrow> string list \<Rightarrow> (string list \<Rightarrow> 'f \<Rightarrow> string option \<times> 'f) \<Rightarrow> (string list \<Rightarrow> 'f \<Rightarrow> 'f) \<Rightarrow>
     int \<Rightarrow> 'f \<Rightarrow> string option \<times> 'f" where
  "handleClearEffect isInit homeDir rmAll rmdir profileId fs =
     (if \<not> isInit then (Some ''not initialized'', fs)
      else if profileId \<le> 0 then (Some ''invalid profile id'', fs)
      else (case providerPaths homeDir profileId of
              (root, target) \<Rightarrow>
                (case rmAll target fs of
                   (Some e, fs) \<Rightarrow> (Some e, fs)
                 | (None, fs) \<Rightarrow> (None, rmdir root fs))))"

subsection \<open>Geo data\<close>

text \<open>
  mihomo's geo settings as the core reads and writes them: the link of each resource, whether the
  updater runs by itself, and its interval.
\<close>

definition geoResources :: "string list" where
  "geoResources = [''MMDB'', ''ASN'', ''GEOIP'', ''GEOSITE'']"

record geoState =
  geo_claims :: claims
  geo_urls :: "(string, string) gomap"
  geo_autoUpdate :: bool
  geo_interval :: int
  geo_registered :: bool
  geo_warnings :: nat

definition setGeoResourceUrl :: "string \<Rightarrow> string \<Rightarrow> geoState \<Rightarrow> geoState" where
  "setGeoResourceUrl geoType link g =
     (let key = to_upper geoType in
      if key \<notin> set geoResources then g\<lparr>geo_warnings := Suc (geo_warnings g)\<rparr>
      else if link \<noteq> [] \<and> map_of (geo_urls g) key \<noteq> Some link
      then g\<lparr>geo_urls := AList.update key link (geo_urls g)\<rparr> else g)"

definition claimGeoUpdate :: "string \<Rightarrow> claims \<Rightarrow> claims \<times> bool" where
  "claimGeoUpdate geoType cs = claimUpdate (geoUpdateScope @ geoType) cs"

definition releaseGeoUpdate :: "string \<Rightarrow> claims \<Rightarrow> claims" where
  "releaseGeoUpdate geoType cs = releaseUpdate (geoUpdateScope @ geoType) cs"

text \<open>The result says whether the update's goroutine was started.\<close>

definition handleUpdateGeoData :: "string \<Rightarrow> geoState \<Rightarrow> (string, unit) result \<times> geoState" where
  "handleUpdateGeoData geoType g =
     (if geoType \<notin> set geoResources then (Inl (''unknown geo resource: '' @ geoType), g)
      else (case claimGeoUpdate geoType (geo_claims g) of
              (cs, False) \<Rightarrow> (Inl (''geo update already in progress: '' @ geoType), g\<lparr>geo_claims := cs\<rparr>)
            | (cs, True) \<Rightarrow> (Inr (), g\<lparr>geo_claims := cs\<rparr>)))"

record GeoUpdateStatus =
  gs_type :: string
  gs_updating :: bool
  gs_skipped :: bool
  gs_error :: string

text \<open>
  \<open>onGeoUpdate\<close>: the claims, whether the route moved and ownership is reclaimed, and the message.
\<close>

definition onGeoUpdate ::
  "string \<Rightarrow> bool \<Rightarrow> bool \<Rightarrow> string option \<Rightarrow> geoState \<Rightarrow>
     geoState \<times> bool \<times> bool \<times> GeoUpdateStatus" where
  "onGeoUpdate geoType updating skipped updateErr g =
     (let key = geoUpdateScope @ geoType;
          status = \<lparr>gs_type = geoType, gs_updating = updating, gs_skipped = skipped,
                    gs_error = (case updateErr of None \<Rightarrow> [] | Some e \<Rightarrow> e)\<rparr>
      in if updating
         then (g\<lparr>geo_claims := fst (claimUpdateAs key True (geo_claims g))\<rparr>, False, False, status)
         else (g\<lparr>geo_claims := releaseHookUpdate key (geo_claims g)\<rparr>,
               \<not> skipped \<and> updateErr = None, True, status))"

definition reconcileGeoUpdater :: "geoState \<Rightarrow> geoState" where
  "reconcileGeoUpdater g = g\<lparr>geo_registered := geo_autoUpdate g\<rparr>"

definition syncGeoUpdater :: "bool option \<Rightarrow> int option \<Rightarrow> geoState \<Rightarrow> geoState" where
  "syncGeoUpdater autoUpdate interval g =
     (let (g, changed) = (case autoUpdate of
            Some a \<Rightarrow> if a \<noteq> geo_autoUpdate g then (g\<lparr>geo_autoUpdate := a\<rparr>, True) else (g, False)
          | None \<Rightarrow> (g, False));
          (g, changed) = (case interval of
            Some i \<Rightarrow> if i \<noteq> geo_interval g then (g\<lparr>geo_interval := i\<rparr>, True) else (g, changed)
          | None \<Rightarrow> (g, changed))
      in if changed then reconcileGeoUpdater g else g)"

subsection \<open>What providers promise\<close>

text \<open>
  \<^bold>\<open>C16.\<close> However manual updates and mihomo's own start and end, a resource has at most one manual
  update at a time, a new one is refused exactly while the resource is claimed, and the end of one
  of mihomo's runs never gives away the claim of a manual update.
\<close>

theorem one_manual_update:
  assumes "updates_reachable w"
  shows "distinct (manual w) \<and>
    snd (claimUpdate key (uw_claims w)) = (map_of (uw_claims w) key = None) \<and>
    (key \<in> set (manual w) \<longrightarrow>
       map_of (releaseHookUpdate key (uw_claims w)) key = Some False \<and>
       \<not> snd (claimUpdate key (releaseHookUpdate key (uw_claims w))))"
proof -
  have inv: "updates_inv w" using assms by (rule updates_reachable_inv)
  then have "map_of (uw_claims w) key = Some False" if "key \<in> set (manual w)"
    using that by (simp add: updates_inv_def)
  moreover have "distinct (manual w)"
    using inv by (simp add: updates_inv_def)
  ultimately show ?thesis
    by (auto simp: releaseHookUpdate_def claimUpdate_def claimUpdateAs_def)
qed

definition geoipWorld :: updateWorld where
  "geoipWorld = \<lparr>uw_claims = [(''geo:GEOIP'', False)], manual = [''geo:GEOIP'']\<rparr>"

lemma geoipWorld_reachable: "updates_reachable geoipWorld"
proof -
  have "claimUpdate ''geo:GEOIP'' [] = ([(''geo:GEOIP'', False)], True)"
    by (simp add: claimUpdate_def claimUpdateAs_def)
  with manual_start [of "''geo:GEOIP''" "\<lparr>uw_claims = [], manual = []\<rparr>"]
  have "update_step \<lparr>uw_claims = [], manual = []\<rparr> geoipWorld"
    by (simp add: geoipWorld_def)
  then show ?thesis by (blast intro: updates_reachable.intros)
qed

lemma one_manual_update_witness:
  "map_of (releaseHookUpdate ''geo:GEOIP'' (uw_claims geoipWorld)) ''geo:GEOIP'' = Some False"
  using one_manual_update [OF geoipWorld_reachable, of "''geo:GEOIP''"] by (simp add: geoipWorld_def)

lemma pick_map:
  "map_of (fold (\<lambda>(n, p) eps. if pv_compatible p then eps else AList.update n p eps) m eps) name =
     (case map_of (filter (\<lambda>(_, p). \<not> pv_compatible p) (rev m)) name of
        Some p \<Rightarrow> Some p | None \<Rightarrow> map_of eps name)"
proof (induction m arbitrary: eps)
  case Nil
  then show ?case by simp
next
  case (Cons e m)
  obtain n p where e: "e = (n, p)" by (cases e)
  show ?case
    unfolding e by (simp add: Cons.IH update_conv' map_of_append map_add_def split: option.split)
qed

lemma map_of_rev_distinct: "gm_wf m \<Longrightarrow> map_of (rev m) = map_of m"
  unfolding gm_wf_def by (metis map_of_inject_set rev_map distinct_rev set_rev)

lemma pick_filter:
  assumes "gm_wf m"
  shows "map_of (filter (\<lambda>(_, p). \<not> pv_compatible p) (rev m)) name =
    (case map_of m name of Some p \<Rightarrow> if pv_compatible p then None else Some p | None \<Rightarrow> None)"
proof -
  have "rev (filter (\<lambda>(_, p). \<not> pv_compatible p) m) = filter (\<lambda>(_, p). \<not> pv_compatible p) (rev m)"
    by (simp add: rev_filter)
  then have "map_of (filter (\<lambda>(_, p). \<not> pv_compatible p) (rev m)) =
      map_of (filter (\<lambda>(_, p). \<not> pv_compatible p) m)"
    using map_of_rev_distinct [OF gm_wf_filter [OF assms]] by metis
  moreover have "map_of (filter (\<lambda>(_, p). \<not> pv_compatible p) m) name =
      (case map_of m name of Some p \<Rightarrow> if pv_compatible p then None else Some p | None \<Rightarrow> None)"
    using assms unfolding gm_wf_def
  proof (induction m)
    case Nil
    then show ?case by simp
  next
    case (Cons e m)
    then have "map_of m (fst e) = None" by (simp add: map_of_eq_None_iff)
    with Cons show ?case by (cases e) (auto split: option.splits)
  qed
  ultimately show ?thesis by simp
qed

text \<open>
  The provider a single lookup finds under a name is the one the whole listing has there: rule
  providers come before proxy providers, and those mihomo made itself never show.
\<close>

lemma lookup_agrees_with_listing:
  assumes "gm_wf (tp_proxies tp)" and "gm_wf (tp_rules tp)"
  shows "map_of (externalProviders tp) name = lookupExternalProvider tp name"
  by (simp add: externalProviders_def lookupExternalProvider_def pick_map pick_filter assms Let_def
      split: option.split)

definition twoProviders :: "nat tunnelProviders" where
  "twoProviders = \<lparr>tp_proxies = [(''a'', \<lparr>pv_compatible = False, pv_kind = ProxySet, pv_info = 1,
       pv_name = ''a'', pv_subscription = None\<rparr>)],
     tp_rules = [(''a'', \<lparr>pv_compatible = True, pv_kind = RuleSet, pv_info = 2,
       pv_name = ''a'', pv_subscription = None\<rparr>)]\<rparr>"

text \<open>
  An update of a provider leaves the claims as it found them, whether it succeeds, fails,
  panics, is refused or names no provider; while the resource is claimed nothing is updated; and the
  route is refreshed exactly after a success.
\<close>

lemma provider_update_releases:
  assumes "updateExternalProvider tp update refresh name cs w = (result, cs', w')"
  shows "map_of cs' = map_of cs \<and>
    (map_of cs (providerUpdateScope @ name) \<noteq> None \<or> lookupExternalProvider tp name = None \<longrightarrow>
       w' = w \<and> (\<exists>e. result = Some (Some e))) \<and>
    (result = Some None \<longrightarrow>
       (\<exists>p v. lookupExternalProvider tp name = Some p \<and> update p w = (Some None, v) \<and>
          w' = refresh v))"
proof (cases "lookupExternalProvider tp name")
  case None
  with assms show ?thesis by (auto simp: updateExternalProvider_def)
next
  case (Some p)
  let ?key = "providerUpdateScope @ name"
  obtain cs1 ok where claim: "claimUpdate ?key cs = (cs1, ok)" by fastforce
  show ?thesis
  proof (cases ok)
    case False
    with claim have "cs1 = cs" "map_of cs ?key \<noteq> None"
      using ct.refused [of ?key False cs cs1] by (simp_all add: claimUpdate_def)
    with False Some claim assms show ?thesis by (auto simp: updateExternalProvider_def)
  next
    case True
    with claim have "map_of (releaseUpdate ?key cs1) = map_of cs" "map_of cs ?key = None"
      using ct.bracket [of ?key False cs cs1] ct.claimed [of ?key False cs cs1]
      by (simp_all add: claimUpdate_def)
    with True Some claim assms show ?thesis
      by (auto simp: updateExternalProvider_def Let_def split: prod.splits option.splits)
  qed
qed

definition timeoutError :: fetchError where
  "timeoutError = \<lparr>fe_message = ''503 Service Unavailable'', fe_unknownAuthority = False,
     fe_hostname = False, fe_invalidCertificate = False, fe_certificateVerification = False,
     fe_recordHeader = False, fe_alert = False, fe_dns = False, fe_ipNotFound = False,
     fe_contextDeadline = True, fe_osDeadline = False, fe_netError = True, fe_netTimeout = True,
     fe_opError = False, fe_connRefused = False, fe_connReset = False, fe_eof = False,
     fe_unexpectedEOF = False, fe_urlError = True\<rparr>"

text \<open>
  Clearing the effects of a profile removes one directory, named by nothing but decimal digits
  directly below the providers directory, and then at most that directory itself if it is empty: no
  identifier the host sends reaches another path, and none does anything before the core is set up.
\<close>

lemma clear_effect_confined:
  assumes "\<And>path fs. snd (rmAll path fs) = path # fs" and "\<And>path fs. rmdir path fs = path # fs"
  shows "let root = homeDir @ [''profiles'', ''providers'']; touched =
      snd (handleClearEffect isInit homeDir rmAll rmdir profileId []) in
    (if isInit \<and> 0 < profileId
     then \<exists>digits. digits \<noteq> [] \<and> list_all isDecimal digits \<and>
        touched \<in> {[root @ [digits]], [root, root @ [digits]]}
     else touched = [])"
proof -
  have digits: "format_int profileId \<noteq> [] \<and> list_all isDecimal (format_int profileId)"
    if "0 < profileId"
    using that by (simp add: format_int_def dec_digits_nonempty dec_digits_decimal)
  obtain r where r: "rmAll (homeDir @ [''profiles'', ''providers'', format_int profileId]) [] =
      (r, [homeDir @ [''profiles'', ''providers'', format_int profileId]])"
    using assms(1) by (metis prod.collapse)
  show ?thesis
  proof (cases "isInit \<and> 0 < profileId")
    case False
    then show ?thesis by (auto simp: handleClearEffect_def Let_def)
  next
    case True
    then have "snd (handleClearEffect isInit homeDir rmAll rmdir profileId []) \<in>
        {[homeDir @ [''profiles'', ''providers''] @ [format_int profileId]],
         [homeDir @ [''profiles'', ''providers''],
          homeDir @ [''profiles'', ''providers''] @ [format_int profileId]]}"
      by (cases r) (simp_all add: handleClearEffect_def providerPaths_def r assms(2))
    with True digits show ?thesis by (simp add: Let_def) blast
  qed
qed

end
