(* ===== verification/Proxies.thy ===== *)
theory Proxies
  imports Route Slots
begin

section \<open>Groups, selection and delay tests (\<open>core/proxy.go\<close>, \<open>core/delay.go\<close>)\<close>

text \<open>
  The groups the host lists, the selection of a member with the move of the route that follows it,
  the validation of proxies, and the delay tests. mihomo's groups are read through \<open>groupApi\<close>: what
  \<open>Now\<close>, \<open>Set\<close> and \<open>ForceSet\<close> do to the state \<open>'g\<close> of one group.
\<close>

subsection \<open>Listing\<close>

definition globalProxyName :: string where "globalProxyName = ''GLOBAL''"

definition proxyGroupNames :: "string list \<Rightarrow> (string \<Rightarrow> adapterType option) \<Rightarrow> string list" where
  "proxyGroupNames nameList typeOf =
     (let isGroup = (\<lambda>name. case typeOf name of None \<Rightarrow> False | Some t \<Rightarrow> isProxyGroupType t);
          (hasGlobal, names) =
            fold (\<lambda>name (hasGlobal, names).
                (hasGlobal \<or> name = globalProxyName, if isGroup name then names @ [name] else names))
              nameList (False, [])
      in if \<not> hasGlobal \<and> isGroup globalProxyName then globalProxyName # names else names)"

record nodeView =
  nv_name :: string
  nv_type :: string
  nv_provider :: string

datatype view = NodeView nodeView | GroupView bytes

text \<open>
  \<open>groupView\<close>: \<open>encoded\<close> is the group's own JSON (\<open>Adapter().MarshalJSON()\<close>), \<open>hide\<close> decodes an object,
  sets its key \<open>hidden\<close> and encodes it again, \<open>nameJson\<close> is the encoded name.
\<close>

definition groupView ::
  "(string, bytes) result \<Rightarrow> bool \<Rightarrow> (bytes \<Rightarrow> (string, bytes) result) \<Rightarrow> (string, bytes) result \<Rightarrow>
     (string, bytes) result" where
  "groupView encoded builtInGlobal hide nameJson =
     (case encoded of
        Inl e \<Rightarrow> Inl e
      | Inr data \<Rightarrow>
          (case (if builtInGlobal then hide data else Inr data) of
             Inl e \<Rightarrow> Inl e
           | Inr data \<Rightarrow>
               if length data < 2 \<or> data ! 0 \<noteq> CHR 0x7B \<or> last data \<noteq> CHR 0x7D
               then Inl (''encoding is not an object: '' @ take 32 data)
               else (case nameJson of
                       Inl e \<Rightarrow> Inl e
                     | Inr name \<Rightarrow>
                         Inr (butlast data @ (if length data > 2 then '','' else []) @
                           [CHR 0x22] @ ''name'' @ [CHR 0x22] @ '':'' @ name @ [CHR 0x7D]))))"

definition isBuiltInGlobal :: "bool \<Rightarrow> string \<Rightarrow> string list \<Rightarrow> string \<Rightarrow> bool" where
  "isBuiltInGlobal isGroup name providerNames reservedName \<longleftrightarrow>
     isGroup \<and> name = globalProxyName \<and> reservedName \<in> set providerNames"

definition proxyView :: "proxy \<Rightarrow> (string, bytes) result \<Rightarrow> view" where
  "proxyView p grouped =
     (let node = \<lparr>nv_name = px_name p, nv_type = px_type_name p, nv_provider = px_provider p\<rparr> in
      if \<not> isProxyGroupType (px_type p) then NodeView node
      else (case grouped of Inl _ \<Rightarrow> NodeView node | Inr data \<Rightarrow> GroupView data))"

definition handleGetProxies ::
  "string list \<Rightarrow> proxies \<Rightarrow> (proxy \<Rightarrow> (string, bytes) result) \<Rightarrow> string list \<times> (string, view) gomap" where
  "handleGetProxies nameList ps grouped =
     (proxyGroupNames nameList (\<lambda>name. map_option px_type (map_of ps name)),
      map (\<lambda>(name, p). (name, proxyView p (grouped p))) ps)"

subsection \<open>Adapters\<close>

text \<open>
  \<open>adapterAs\<close>: a proxy of mihomo's \<open>adapter\<close> package holds an adapter, of which \<open>asType\<close> is the type assertion;
  other implementations of the interface hold none.
\<close>

datatype 'a outboundProxy = AdapterProxy 'a | ForeignProxy

definition adapterAs :: "('a \<Rightarrow> 't option) \<Rightarrow> 'a outboundProxy \<Rightarrow> 't option" where
  "adapterAs asType p = (case p of AdapterProxy a \<Rightarrow> asType a | ForeignProxy \<Rightarrow> None)"

definition closeQuicSessions :: "('a \<Rightarrow> 't option) \<Rightarrow> ('t \<Rightarrow> 'w \<Rightarrow> 'w) \<Rightarrow> 'a outboundProxy list \<Rightarrow> 'w \<Rightarrow> 'w" where
  "closeQuicSessions asHysteria2 close ps w =
     fold (\<lambda>p w. case adapterAs asHysteria2 p of Some hy2 \<Rightarrow> close hy2 w | None \<Rightarrow> w) ps w"

lemma closeQuicSessions_closes:
  "closeQuicSessions asHysteria2 (\<lambda>hy2 closed. closed @ [hy2]) ps closed =
     closed @ List.map_filter (adapterAs asHysteria2) ps"
  by (induction ps arbitrary: closed)
    (auto simp: closeQuicSessions_def map_filter_simps split: option.split)

text \<open>\<open>handleConvertProxies\<close>, with the reading of files and mihomo's converter.\<close>

definition handleConvertProxies ::
  "(string \<Rightarrow> (string, bytes) result) \<Rightarrow> (bytes \<Rightarrow> (string, 'p list) result) \<Rightarrow> string \<Rightarrow> (string, 'p list) result" where
  "handleConvertProxies ReadFile ConvertsV2Ray path =
     (case ReadFile path of Inl e \<Rightarrow> Inl e | Inr buf \<Rightarrow> ConvertsV2Ray buf)"

subsection \<open>Selecting\<close>

record 'g groupApi =
  ga_now :: "'g \<Rightarrow> string"
  ga_set :: "string \<Rightarrow> 'g \<Rightarrow> (string, 'g) result"
  ga_force :: "string \<Rightarrow> 'g \<Rightarrow> 'g"

text \<open>What a name stands for: no adapter of mihomo's, one that cannot select, or one that can.\<close>

datatype 'g groupEntry = NotAdapter | NotSelectable | Selectable 'g

type_synonym 'g groups = "(string, 'g groupEntry) gomap"

definition errGroupNotFound :: string where "errGroupNotFound = ''Not found group''"
definition errGroupInvalidType :: string where "errGroupInvalidType = ''Group has invalid proxy type''"
definition errGroupNotSelect :: string where "errGroupNotSelect = ''Group is not selectable''"

definition selectableGroup :: "'g groups \<Rightarrow> string \<Rightarrow> (string, 'g) result" where
  "selectableGroup gs groupName =
     (case map_of gs groupName of
        None \<Rightarrow> Inl errGroupNotFound
      | Some NotAdapter \<Rightarrow> Inl errGroupInvalidType
      | Some NotSelectable \<Rightarrow> Inl errGroupNotSelect
      | Some (Selectable g) \<Rightarrow> Inr g)"

record ChangeProxyResult =
  cp_message :: string
  cp_changed :: bool

text \<open>\<open>viewOf\<close> is what the tunnel shows of the groups, for the refresh of the route.\<close>

definition handleChangeProxy ::
  "'g groupApi \<Rightarrow> ('g groups \<Rightarrow> 's tunnelView) \<Rightarrow> string \<Rightarrow> string \<Rightarrow> 'g groups \<Rightarrow> 's routeTracker \<Rightarrow>
     ChangeProxyResult \<times> 'g groups \<times> 's routeTracker \<times> RouteState option" where
  "handleChangeProxy api viewOf groupName proxyName gs t =
     (case selectableGroup gs groupName of
        Inl e \<Rightarrow> (\<lparr>cp_message = e, cp_changed = False\<rparr>, gs, t, None)
      | Inr g \<Rightarrow>
          (let before = ga_now api g in
           case (if proxyName = [] then Inr (ga_force api proxyName g) else ga_set api proxyName g) of
             Inl e \<Rightarrow> (\<lparr>cp_message = e, cp_changed = False\<rparr>, gs, t, None)
           | Inr g' \<Rightarrow>
               (let gs = AList.update groupName (Selectable g') gs;
                    (t, published) = refreshRouteLocked (viewOf gs) RouteUnchanged t
                in (\<lparr>cp_message = [], cp_changed = (ga_now api g' \<noteq> before)\<rparr>, gs, t, published))))"

definition patchSelectGroup :: "'g groupApi \<Rightarrow> (string, string) gomap \<Rightarrow> 'g groups \<Rightarrow> 'g groups" where
  "patchSelectGroup api mapping gs =
     fold (\<lambda>(name, selected) gs.
        case map_of gs name of
          Some (Selectable g) \<Rightarrow> AList.update name (Selectable (ga_force api selected g)) gs
        | _ \<Rightarrow> gs) mapping gs"

subsection \<open>Validating\<close>

datatype 'v yamlValue = YamlString string | YamlOther 'v

type_synonym 'v proxyMapping = "(string, 'v yamlValue) gomap"

definition validationNameSuffix :: string where "validationNameSuffix = CHR 0x00 # ''validate''"

text \<open>\<open>strings.ReplaceAll(s, sub, "")\<close> for a text that is not empty.\<close>

function remove_text :: "string \<Rightarrow> string \<Rightarrow> string" where
  "remove_text sub s =
     (if sub = [] then s
      else (case s of
              [] \<Rightarrow> []
            | c # r \<Rightarrow> if has_prefix sub s then remove_text sub (drop (length sub) s)
                      else c # remove_text sub r))"
  by pat_completeness auto
termination
  by (relation "measure (\<lambda>(_, s). length s)") auto

declare remove_text.simps [simp del]

definition validationProbe :: "'v proxyMapping \<Rightarrow> 'v proxyMapping" where
  "validationProbe mapping =
     (let name = (case map_of mapping ''name'' of Some (YamlString n) \<Rightarrow> n | _ \<Rightarrow> []) in
      if map_of mapping ''type'' \<in> {Some (YamlString ''tailscale''), Some (YamlString ''easytier'')}
      then AList.update ''name'' (YamlString (name @ validationNameSuffix)) mapping
      else mapping)"

definition handleValidateProxies ::
  "('v proxyMapping \<Rightarrow> string option) \<Rightarrow> 'v proxyMapping list \<Rightarrow> (nat \<times> string) list" where
  "handleValidateProxies parseError mappings =
     List.map_filter (\<lambda>(i, mapping).
        map_option (\<lambda>e. (i, remove_text validationNameSuffix e)) (parseError (validationProbe mapping)))
       (enumerate 0 mappings)"

subsection \<open>Delay tests\<close>

definition delayTestConcurrency :: nat where "delayTestConcurrency = 50"

definition defaultTestURL :: string where
  "defaultTestURL = ''https://www.gstatic.com/generate_204''"

definition defaultDelayTestTimeout :: int where "defaultDelayTestTimeout = 5000 * millisecond"

definition delayTimedOut :: int where "delayTimedOut = -1"

definition delayFailed :: int where "delayFailed = -2"

text \<open>The URL the core keeps, and mihomo's own \<open>constant.DefaultTestURL\<close>.\<close>

record testUrls =
  testURL :: "string option"
  mihomoTestURL :: string

definition setTestURL :: "string \<Rightarrow> testUrls \<Rightarrow> testUrls" where
  "setTestURL url s = (if url = [] then s else s\<lparr>mihomoTestURL := url, testURL := Some url\<rparr>)"

definition currentTestURL :: "testUrls \<Rightarrow> string" where
  "currentTestURL s =
     (case testURL s of
        Some url \<Rightarrow> if url \<noteq> [] then url else defaultTestURL
      | None \<Rightarrow> defaultTestURL)"

definition delayValue :: "16 word \<Rightarrow> bool \<Rightarrow> int" where
  "delayValue delay timedOut =
     (if 0 < delay then uint delay else if timedOut then delayTimedOut else delayFailed)"

text \<open>A provider: the timeout it configures for a URL, if it has one, and the names of its proxies.\<close>

record testProvider =
  tp_timeout :: "string \<Rightarrow> int option"
  tp_names :: "string list"

definition longerTimeout :: "string \<Rightarrow> string \<Rightarrow> testProvider \<Rightarrow> int \<Rightarrow> int" where
  "longerTimeout name url pd longest =
     (case tp_timeout pd url of
        None \<Rightarrow> longest
      | Some timeout \<Rightarrow>
          if timeout \<le> longest then longest
          else if name \<in> set (tp_names pd) then timeout else longest)"

definition configuredTestTimeout :: "testProvider list \<Rightarrow> string \<Rightarrow> string \<Rightarrow> int \<times> bool" where
  "configuredTestTimeout providers name url =
     (let longest = fold (longerTimeout name url) providers 0 in (longest, 0 < longest))"

text \<open>
  \<open>missingAt\<close> is the time of the last report in nanoseconds, \<open>swapped\<close> the outcome of the
  compare-and-swap. The result: whether the error is logged, and the time kept.
\<close>

definition reportMissingDelayTestProxy :: "int \<Rightarrow> bool \<Rightarrow> int \<Rightarrow> bool \<times> int" where
  "reportMissingDelayTestProxy now swapped missingAt =
     (if missingAt \<noteq> 0 \<and> now - missingAt < 1000 * millisecond then (False, missingAt)
      else if \<not> swapped then (False, missingAt) else (True, now))"

record Delay =
  dl_url :: string
  dl_name :: string
  dl_value :: int

text \<open>
  What a test meets: whether a slot came within the timeout, the delay measured (or \<open>None\<close> for an
  error) with whether the deadline had passed, the clock and the compare-and-swap of the report.
\<close>

record delayWorld =
  dw_slot :: "int \<Rightarrow> bool"
  dw_test :: "proxy \<Rightarrow> string \<Rightarrow> int \<Rightarrow> 16 word option \<times> bool"
  dw_now :: int
  dw_swapped :: bool

record TestDelayParams =
  td_name :: string
  td_url :: string
  td_millis :: int

definition handleTestDelay ::
  "delayWorld \<Rightarrow> proxies \<Rightarrow> testProvider list \<Rightarrow> testUrls \<Rightarrow> TestDelayParams \<Rightarrow> int \<Rightarrow>
     Delay option \<times> bool \<times> int" where
  "handleTestDelay w ps providers urls params missingAt =
     (let url = (if td_url params = [] then currentTestURL urls else td_url params);
          result = \<lparr>dl_url = url, dl_name = td_name params, dl_value = delayFailed\<rparr>
      in case lookupProxy ps (td_name params) of
           None \<Rightarrow> (Some result, reportMissingDelayTestProxy (dw_now w) (dw_swapped w) missingAt)
         | Some p \<Rightarrow>
             (let (timeout, configured) = configuredTestTimeout providers (px_name p) url;
                  timeout = (if \<not> configured
                             then timeoutFromMillis (td_millis params) defaultDelayTestTimeout
                             else timeout)
              in if \<not> dw_slot w timeout then (None, False, missingAt)
                 else (case dw_test w p url timeout of
                         (measured, timedOut) \<Rightarrow>
                           (Some (result\<lparr>dl_value := delayValue
                              (case measured of None \<Rightarrow> 0 | Some d \<Rightarrow> d) timedOut\<rparr>),
                            False, missingAt))))"

subsection \<open>What listing promises\<close>

lemma group_fold:
  "fold (\<lambda>name (hasGlobal, names).
       (hasGlobal \<or> name = g, if P name then names @ [name] else names)) xs (b, ys) =
     (b \<or> g \<in> set xs, ys @ filter P xs)"
  by (induction xs arbitrary: b ys) auto

text \<open>
  The host is listed exactly the groups among the configured names, in their order, and the
  group GLOBAL in front of them if it is a group that the configuration does not place.
\<close>

lemma group_names_listed:
  "proxyGroupNames nameList typeOf =
     (let isGroup = (\<lambda>name. \<exists>t. typeOf name = Some t \<and> isProxyGroupType t) in
      (if globalProxyName \<notin> set nameList \<and> isGroup globalProxyName then [globalProxyName] else [])
        @ filter isGroup nameList)"
proof -
  have "(case typeOf name of None \<Rightarrow> False | Some t \<Rightarrow> isProxyGroupType t) =
      (\<exists>t. typeOf name = Some t \<and> isProxyGroupType t)" for name
    by (simp split: option.split)
  then show ?thesis
    unfolding proxyGroupNames_def Let_def by (simp add: group_fold)
qed

subsection \<open>What selecting promises\<close>

text \<open>
  \<open>shownPicks\<close>: what the groups show of their picks. \<open>tunnel_of\<close> says that the tunnel shows them
  so, and that the rest of what it shows does not hang on the selection.
\<close>

definition shownPicks :: "'g groupApi \<Rightarrow> 'g groups \<Rightarrow> (string, string) gomap" where
  "shownPicks api gs =
     List.map_filter (\<lambda>(name, e). map_option (Pair name)
       (case e of Selectable g \<Rightarrow> Some (ga_now api g) | _ \<Rightarrow> None)) gs"

definition tunnel_of :: "'g groupApi \<Rightarrow> ('g groups \<Rightarrow> 's tunnelView) \<Rightarrow> bool" where
  "tunnel_of api viewOf \<longleftrightarrow>
     (\<forall>gs. fst (readPicks (viewOf gs)) = shownPicks api gs) \<and>
     (\<exists>vs rs. gm_wf vs \<and> gm_wf rs \<and>
        (\<forall>gs. snd (readPicks (viewOf gs)) = vs \<and> readRuleSets (viewOf gs) = rs))"

lemma map_of_filter_keys:
  "gm_wf m \<Longrightarrow> map_of (List.map_filter (\<lambda>(k, v). map_option (Pair k) (f v)) m) k =
     (case map_of m k of None \<Rightarrow> None | Some v \<Rightarrow> f v)"
  unfolding gm_wf_def
proof (induction m)
  case Nil
  then show ?case by (simp add: map_filter_simps)
next
  case (Cons kv m)
  obtain a b where kv: "kv = (a, b)" by (cases kv)
  show ?case
  proof (cases "a = k")
    case True
    with Cons.prems kv have "k \<notin> fst ` set m" by simp
    then have "map_of m k = None" by (simp add: map_of_eq_None_iff)
    with Cons kv True show ?thesis
      by (cases "f b") (auto simp: map_filter_simps)
  next
    case False
    with Cons kv show ?thesis
      by (cases "f b") (auto simp: map_filter_simps)
  qed
qed

lemma map_of_shownPicks:
  "gm_wf gs \<Longrightarrow> map_of (shownPicks api gs) name =
     (case map_of gs name of Some (Selectable g) \<Rightarrow> Some (ga_now api g) | _ \<Rightarrow> None)"
  by (simp add: shownPicks_def map_of_filter_keys split: option.split)

lemma shownPicks_update:
  assumes "gm_wf gs" and "map_of gs name = Some (Selectable g)"
  shows "map_of (shownPicks api (AList.update name (Selectable g') gs)) =
      map_of (shownPicks api gs) \<longleftrightarrow> ga_now api g' = ga_now api g"
proof -
  have upd: "map_of (shownPicks api (AList.update name (Selectable g') gs)) n =
      (if n = name then Some (ga_now api g') else map_of (shownPicks api gs) n)" for n
    using assms by (simp add: map_of_shownPicks gm_wf_update update_conv')
  have "map_of (shownPicks api gs) name = Some (ga_now api g)"
    using assms by (simp add: map_of_shownPicks)
  then show ?thesis
    by (auto simp: fun_eq_iff upd split: if_splits)
qed

lemma gm_wf_shownPicks: "gm_wf gs \<Longrightarrow> gm_wf (shownPicks api gs)"
  by (simp add: shownPicks_def gm_wf_map_filter)

lemma moved_by_selection:
  assumes "tunnel_of api viewOf" and "gm_wf gs" and "map_of gs name = Some (Selectable g)"
  shows "tunnelMoved (viewOf (AList.update name (Selectable g') gs))
      (fst (refreshRouteLocked (viewOf gs) c t)) \<longleftrightarrow> ga_now api g' \<noteq> ga_now api g"
proof -
  let ?gs = "AList.update name (Selectable g') gs"
  obtain vs rs where rest: "gm_wf vs" "gm_wf rs"
    "snd (readPicks (viewOf gs')) = vs" "readRuleSets (viewOf gs') = rs" for gs'
    using assms(1) unfolding tunnel_of_def by blast
  have shown: "fst (readPicks (viewOf gs')) = shownPicks api gs'" for gs'
    using assms(1) unfolding tunnel_of_def by blast
  have pair: "readPicks (viewOf gs') = (shownPicks api gs', vs)" for gs'
    using shown rest(3) by (metis prod.collapse)
  have "maps_equal (shownPicks api ?gs) (shownPicks api gs) \<longleftrightarrow> ga_now api g' = ga_now api g"
    using shownPicks_update [OF assms(2,3)] assms(2)
    by (simp add: maps_equal_iff gm_wf_shownPicks gm_wf_update)
  then show ?thesis
    unfolding tunnelMoved_def
    by (simp add: pair rest refresh_snapshot maps_equal_refl)
qed

lemma changeProxy_cases:
  assumes "handleChangeProxy api viewOf groupName proxyName gs t = (r, gs', t', pub)"
  obtains (failed) "\<not> cp_changed r" "gs' = gs" "t' = t" "pub = None"
  | (selected) g g' where "map_of gs groupName = Some (Selectable g)"
      "gs' = AList.update groupName (Selectable g') gs"
      "(t', pub) = refreshRouteLocked (viewOf gs') RouteUnchanged t"
      "cp_changed r \<longleftrightarrow> ga_now api g' \<noteq> ga_now api g"
  using assms unfolding handleChangeProxy_def selectableGroup_def
  by (fastforce simp: Let_def split: option.splits groupEntry.splits sum.splits if_splits prod.splits)

lemma refresh_after_selection:
  assumes "(t', pub) = refreshRouteLocked tv RouteUnchanged t"
  shows "version t' = version t + (if tunnelMoved tv t then 1 else 0) \<and> epoch t' = epoch t \<and>
    pub = (if tunnelMoved tv t \<and> watched t then Some (routeState t') else None)"
proof -
  have t': "t' = fst (refreshRouteLocked tv RouteUnchanged t)"
    and pub: "pub = snd (refreshRouteLocked tv RouteUnchanged t)"
    using assms by (metis fst_conv, metis snd_conv)
  show ?thesis
    unfolding t' pub refresh_published
    by (simp add: refresh_stamp effectiveChange_def max_routeMoved)
qed


text \<open>The witness: one selector \<open>''g''\<close> whose state is its pick, over one provider.\<close>

definition pickApi :: "string groupApi" where
  "pickApi = \<lparr>ga_now = (\<lambda>g. g), ga_set = (\<lambda>n g. if n = ''z'' then Inl ''no'' else Inr n),
     ga_force = (\<lambda>n g. n)\<rparr>"

definition pickView :: "string groups \<Rightarrow> unit tunnelView" where
  "pickView gs = \<lparr>tv_proxies = map (\<lambda>(n, e). (n, \<lparr>px_name = n, px_type = Selector,
       px_type_name = ''Selector'', px_addr = [],
       px_now = (case e of Selectable g \<Rightarrow> Some g | _ \<Rightarrow> None), px_provider = []\<rparr>)) gs,
     tv_providers = [(''p'', 5)], tv_ruleProviders = []\<rparr>"

lemma pickView_tunnel: "tunnel_of pickApi pickView"
proof -
  have picks: "fst (readPicks (pickView gs)) = shownPicks pickApi gs" for gs
    by (induction gs)
      (auto simp: readPicks_def pickView_def shownPicks_def pickApi_def map_filter_simps
        split: groupEntry.split)
  have rest: "snd (readPicks (pickView gs)) = [(''p'', 5)]" "readRuleSets (pickView gs) = []" for gs
    by (simp_all add: readPicks_def pickView_def readRuleSets_def)
  have "gm_wf [(''p'', 5 :: 32 word)]" "gm_wf ([] :: (string \<times> unit) list)"
    by (simp_all add: gm_wf_def)
  with picks rest show ?thesis
    unfolding tunnel_of_def by blast
qed


subsection \<open>What a delay test answers\<close>

text \<open>What the providers configure for one node and URL.\<close>

definition offeredTimeouts :: "testProvider list \<Rightarrow> string \<Rightarrow> string \<Rightarrow> int set" where
  "offeredTimeouts providers name url =
     {t. \<exists>pd \<in> set providers. tp_timeout pd url = Some t \<and> name \<in> set (tp_names pd)}"

lemma finite_offered [simp]: "finite (offeredTimeouts providers name url)"
proof -
  have "offeredTimeouts providers name url \<subseteq> (\<lambda>pd. the (tp_timeout pd url)) ` set providers"
    by (force simp: offeredTimeouts_def image_iff)
  then show ?thesis by (rule finite_subset) simp
qed

lemma longest_fold:
  "fold (longerTimeout name url) providers longest =
     Max (insert longest (offeredTimeouts providers name url))"
proof (induction providers arbitrary: longest)
  case Nil
  then show ?case by (simp add: offeredTimeouts_def)
next
  case (Cons pd pds)
  let ?new = "{t. tp_timeout pd url = Some t \<and> name \<in> set (tp_names pd)}"
  have split: "offeredTimeouts (pd # pds) name url = ?new \<union> offeredTimeouts pds name url"
    by (auto simp: offeredTimeouts_def)
  show ?case
  proof (cases "\<exists>t. tp_timeout pd url = Some t \<and> name \<in> set (tp_names pd)")
    case True
    then obtain t where t: "tp_timeout pd url = Some t" "name \<in> set (tp_names pd)" by blast
    then have "?new = {t}" by auto
    with t Cons split show ?thesis
      by (cases "offeredTimeouts pds name url = {}")
        (auto simp: longerTimeout_def Max_insert max_def)
  next
    case False
    then have "?new = {}" "longerTimeout name url pd longest = longest"
      by (auto simp: longerTimeout_def split: option.split)
    with Cons split show ?thesis by simp
  qed
qed

text \<open>The time a test of \<open>p\<close> may take: the longest configured one, else the one the host gave.\<close>

definition testTime :: "testProvider list \<Rightarrow> string \<Rightarrow> string \<Rightarrow> int \<Rightarrow> int" where
  "testTime providers name url millis =
     (let longest = Max (insert 0 (offeredTimeouts providers name url)) in
      if 0 < longest then longest else timeoutFromMillis millis defaultDelayTestTimeout)"

lemma configured_is_testTime:
  "configuredTestTimeout providers name url = (longest, configured) \<Longrightarrow>
     (if \<not> configured then timeoutFromMillis millis defaultDelayTestTimeout else longest) =
       testTime providers name url millis"
  by (auto simp: configuredTestTimeout_def testTime_def longest_fold Let_def)

lemma delayValue_range:
  "delayValue d timedOut =
     (if d \<noteq> 0 then uint d else if timedOut then delayTimedOut else delayFailed)"
  "d \<noteq> 0 \<Longrightarrow> 1 \<le> uint d \<and> uint (d :: 16 word) \<le> 65535"
proof -
  show "delayValue d timedOut =
     (if d \<noteq> 0 then uint d else if timedOut then delayTimedOut else delayFailed)"
    by (simp add: delayValue_def word_gt_0)
  assume "d \<noteq> 0"
  moreover have "uint d < 65536" "0 \<le> uint d"
    using uint_bounded [of d] by simp_all
  moreover have "uint d \<noteq> 0"
    using \<open>d \<noteq> 0\<close> by (metis unsigned_eq_0_iff)
  ultimately show "1 \<le> uint d \<and> uint d \<le> 65535"
    by (smt (verit))
qed

text \<open>
  The test of a known node runs for the longest time any provider of that node configures for
  the URL, else for the host's. It is left unanswered exactly if it gets no slot in that time; an
  answer is the measured delay from 1 to 65535 ms, or minus one if the deadline passed without
  one, or minus two, and never the failure of a test that measured one.
\<close>

lemma test_delay_answers:
  assumes "lookupProxy ps (td_name params) = Some p"
    and "url = (if td_url params = [] then currentTestURL urls else td_url params)"
    and "time = testTime providers (px_name p) url (td_millis params)"
  shows "case fst (handleTestDelay w ps providers urls params missingAt) of
      None \<Rightarrow> \<not> dw_slot w time
    | Some a \<Rightarrow> dw_slot w time \<and> dl_url a = url \<and>
        (case dw_test w p url time of (measured, timedOut) \<Rightarrow>
           if measured = None \<or> measured = Some 0
           then dl_value a = (if timedOut then -1 else -2)
           else measured = Some (word_of_int (dl_value a)) \<and> 1 \<le> dl_value a \<and> dl_value a \<le> 65535)"
proof -
  obtain longest configured where conf:
    "configuredTestTimeout providers (px_name p) url = (longest, configured)"
    by (metis prod.exhaust)
  note time = configured_is_testTime [OF conf, of "td_millis params", folded assms(3)]
  obtain measured timedOut where test: "dw_test w p url time = (measured, timedOut)"
    by (metis prod.exhaust)
  have res: "fst (handleTestDelay w ps providers urls params missingAt) =
      (if \<not> dw_slot w time then None
       else Some \<lparr>dl_url = url, dl_name = td_name params,
              dl_value = delayValue (case measured of None \<Rightarrow> 0 | Some d \<Rightarrow> d) timedOut\<rparr>)"
    using assms(1) conf test time
    unfolding handleTestDelay_def Let_def assms(2) [symmetric]
    by (simp del: if_not_P if_P)
  show ?thesis
  proof (cases "measured = None \<or> measured = Some 0")
    case True
    with res test show ?thesis
      by (auto simp: delayValue_range delayTimedOut_def delayFailed_def)
  next
    case False
    then obtain d where "measured = Some d" "d \<noteq> 0" by auto
    with res test delayValue_range(1) [of d timedOut] delayValue_range(2) [of d] show ?thesis by simp
  qed
qed

end
