(* ===== verification/Netip.thy ===== *)
theory Netip
  imports GoStrings "HOL-Library.Word"
begin

section \<open>Addresses and prefixes (Go's \<open>net/netip\<close>)\<close>

text \<open>
  What the core uses of the standard library's addresses: the values, prefixes and their members.
\<close>

datatype addr = Addr4 "32 word" | Addr6 "128 word"

text \<open>\<open>Unmap\<close>: an IPv4-mapped address \<open>::ffff:a.b.c.d\<close> is its IPv4 address.\<close>

fun unmapAddr :: "addr \<Rightarrow> addr" where
  "unmapAddr (Addr4 a) = Addr4 a"
| "unmapAddr (Addr6 a) = (if drop_bit 32 a = 0xFFFF then Addr4 (ucast a) else Addr6 a)"

record prefix =
  prefixAddr :: addr
  prefixBits :: nat

definition prefixContains :: "prefix \<Rightarrow> addr \<Rightarrow> bool" where
  "prefixContains p a =
     (case (prefixAddr p, a) of
        (Addr4 b, Addr4 a) \<Rightarrow> drop_bit (32 - prefixBits p) b = drop_bit (32 - prefixBits p) a
      | (Addr6 b, Addr6 a) \<Rightarrow> drop_bit (128 - prefixBits p) b = drop_bit (128 - prefixBits p) a
      | _ \<Rightarrow> False)"

end
