(* ===== verification/Config.thy ===== *)
theory Config
  imports Proxies Providers TunSettle Netip "HOL-Library.List_Lexorder" "HOL-Library.Char_ord"
begin

section \<open>The applied config and the state around it (\<open>core/config.go\<close>, \<open>core/egress.go\<close>)\<close>

text \<open>
  The part of mihomo's config that the core reads and patches, the calls into mihomo as values that
  a core logs in order, and the state the handlers under \<open>configMu\<close> share. Modes, levels and stacks
  are mihomo's integers; listeners and the TUIC server are opaque (\<open>'x\<close>).
\<close>

subsection \<open>The config\<close>

record Tun =
  Enable :: bool
  Device :: string
  Stack :: int
  AutoRoute :: bool
  AutoDetectInterface :: bool
  InetAddress :: "prefix list"    \<comment> \<open>\<open>Inet4Address\<close> and \<open>Inet6Address\<close>\<close>

record 'x General =
  Port :: int
  SocksPort :: int
  RedirPort :: int
  TProxyPort :: int
  MixedPort :: int
  ShadowSocksConfig :: string
  VmessConfig :: string
  TuicServer :: 'x
  AllowLan :: bool
  BindAddress :: string
  SkipAuthPrefixes :: "prefix list"
  LanAllowedIPs :: "prefix list"
  LanDisAllowedIPs :: "prefix list"
  Authentication :: "string list"
  Interface :: string
  TunOf :: Tun
  Mode :: int
  LogLevel :: int
  IPv6 :: bool
  FindProcessMode :: int
  TCPConcurrent :: bool
  UnifiedDelay :: bool

record Controller =
  ExternalController :: string
  ExternalControllerTLS :: string
  ExternalControllerUnix :: string
  ExternalControllerPipe :: string
  ExternalControllerRoutingMark :: int
  ExternalDohServer :: string
  Secret :: string
  AllowOrigins :: "string list"
  AllowPrivateNetwork :: bool

record TLSConfig =
  Certificate :: string
  PrivateKey :: string
  ClientAuthType :: string
  ClientAuthCert :: string
  EchKey :: string

record authUser =
  User :: string
  Pass :: string

record 'x config =
  general :: "'x General"
  controller :: Controller
  tlsOf :: "TLSConfig option"
  listenersOf :: 'x
  users :: "authUser list"
  WriteToSystem :: bool           \<comment> \<open>of the NTP section\<close>

record RouteConfig =
  rcController :: Controller
  rcTLS :: "TLSConfig option"
  rcIsDebug :: bool

definition debugLevel :: int where "debugLevel = 0"   \<comment> \<open>\<open>log.DEBUG\<close>\<close>

definition routeConfig :: "'x config \<Rightarrow> RouteConfig" where
  "routeConfig cfg = \<lparr>rcController = controller cfg, rcTLS = tlsOf cfg,
     rcIsDebug = (LogLevel (general cfg) = debugLevel)\<rparr>"

definition withPlatformLimits :: "bool \<Rightarrow> 'x config \<Rightarrow> 'x config" where
  "withPlatformLimits systemTimeWritable cfg =
     (if WriteToSystem cfg \<and> \<not> systemTimeWritable then cfg\<lparr>WriteToSystem := False\<rparr> else cfg)"

record tunSchema =
  ts_enable :: bool
  ts_device :: "string option"
  ts_stack :: "int option"
  ts_autoRoute :: "bool option"

text \<open>A field that the host may leave out.\<close>

definition given :: "'a option \<Rightarrow> ('a \<Rightarrow> 'b \<Rightarrow> 'b) \<Rightarrow> 'b \<Rightarrow> 'b" where
  "given p f = (case p of None \<Rightarrow> id | Some a \<Rightarrow> f a)"

lemma given_simps [simp]: "given None f c = c" "given (Some a) f c = f a c"
  by (simp_all add: given_def)

definition patchTun :: "tunSchema \<Rightarrow> Tun \<Rightarrow> Tun" where
  "patchTun params target =
     (let target = target\<lparr>Enable := ts_enable params\<rparr>;
          target = given (ts_autoRoute params) (\<lambda>v t. t\<lparr>AutoRoute := v\<rparr>) target;
          target = given (ts_device params) (\<lambda>v t. t\<lparr>Device := v\<rparr>) target
      in given (ts_stack params) (\<lambda>v t. t\<lparr>Stack := v\<rparr>) target)"

lemma patchTun_enable [simp]: "Enable (patchTun params t) = ts_enable params"
  by (simp add: patchTun_def Let_def given_def split: option.split)

text \<open>\<open>strings.Cut\<close> at the first colon.\<close>

definition cutColon :: "string \<Rightarrow> (string \<times> string) option" where
  "cutColon line =
     (if CHR 0x3A \<in> set line
      then Some (takeWhile (\<lambda>c. c \<noteq> CHR 0x3A) line, tl (dropWhile (\<lambda>c. c \<noteq> CHR 0x3A) line))
      else None)"

definition parseUsers :: "string list \<Rightarrow> authUser list" where
  "parseUsers authentication =
     List.map_filter (\<lambda>line. map_option (\<lambda>(user, pass). \<lparr>User = user, Pass = pass\<rparr>) (cutColon line))
       authentication"

subsection \<open>Calls into mihomo\<close>

datatype 'x mihomoCall =
    PatchInboundListeners 'x | SetAllowLan bool | SetSkipAuthPrefixes "prefix list"
  | SetAllowedIPs "prefix list" | SetDisAllowedIPs "prefix list" | SetBindAddress string
  | ReCreateHTTP int | ReCreateSocks int | ReCreateRedir int | ReCreateTProxy int
  | ReCreateMixed int | ReCreateShadowSocks string | ReCreateVmess string | ReCreateTuic 'x
  | ReCreateTun Tun | StopListener | ResetConnection | ResetQuic | CloseQuic | ClearDns
  | CloseConnections | ApplyHub "'x config" | StopGeoUpdater | ExecutorShutdown
  | InvalidateProxies | SetFindProcessMode int | SetTcpConcurrent bool | SetUnifiedDelay bool
  | SetMode int | SetLogLevel int | SetDisableIPv6 bool | ReCreateServer RouteConfig
  | SetAuthenticator "authUser list" | SetDefaultTestTimeout int | ScheduleMemoryRelease
  | SetHomeDir string | InitOwnership string | ClearSpilled | StopLog

text \<open>The dialer's variables: the default interface, and whether the TUN's finder is installed.\<close>

record dialerVars =
  DefaultInterface :: string
  finderSet :: bool

text \<open>
  What mihomo and the system answer: \<open>on_apply\<close> and \<open>on_tun\<close> and \<open>on_stop\<close> are what applying a
  config, making the TUN and stopping do to the dialer's variables; the rest may depend on all calls
  made so far.
\<close>

record ('x, 's, 'g) outside =
  android :: bool
  egressPinPlatform :: bool
  findEgress :: "'x mihomoCall list \<Rightarrow> 'x config \<Rightarrow> string"
  on_apply :: "'x config \<Rightarrow> dialerVars \<Rightarrow> dialerVars"
  on_tun :: "Tun \<Rightarrow> dialerVars \<Rightarrow> dialerVars"
  on_stop :: "dialerVars \<Rightarrow> dialerVars"
  shownTunnel :: "'x mihomoCall list \<Rightarrow> 'g groups \<Rightarrow> 's tunnelView"
  groupsOf :: "'x config \<Rightarrow> 'g groups"
  groupsApi :: "'g groupApi"
  upInterface :: "'x mihomoCall list \<Rightarrow> (string \<times> string list) option"

record ('x, 's, 'g) core =
  isInit :: bool
  isRunning :: bool
  tunEnabled :: bool
  sdkVersion :: int
  currentConfig :: "'x config option"
  egressPin :: string
  dialer :: dialerVars
  tunGate :: tunWorld
  aftershocks :: "nat list"       \<comment> \<open>the holds of aftershocks still to come\<close>
  lastDefaultInterface :: string
  tracker :: "'s routeTracker"
  callSeq :: u64
  sent :: "RouteState list"       \<comment> \<open>the route states published\<close>
  proxyGroups :: "'g groups"
  urls :: testUrls
  skipCertVerify :: bool
  geo :: geoState
  calls :: "'x mihomoCall list"

definition say :: "'x mihomoCall list \<Rightarrow> ('x, 's, 'g) core \<Rightarrow> ('x, 's, 'g) core" where
  "say cs c = c\<lparr>calls := calls c @ cs\<rparr>"

definition moveRoute ::
  "('x, 's, 'g) outside \<Rightarrow> routeChange \<Rightarrow> ('x, 's, 'g) core \<Rightarrow> ('x, 's, 'g) core" where
  "moveRoute env change c =
     (let (t, pub) = changeRoute (shownTunnel env (calls c) (proxyGroups c)) change (tracker c)
      in c\<lparr>tracker := t, sent := sent c @ (case pub of None \<Rightarrow> [] | Some st \<Rightarrow> [st])\<rparr>)"

end
