(* ===== verification/Lifecycle.thy ===== *)
theory Lifecycle
  imports Config
begin

section \<open>Start, stop, apply and update (\<open>core/lifecycle.go\<close>, \<open>core/config.go\<close>, \<open>core/egress.go\<close>)\<close>

text \<open>
  The handlers that run under \<open>configMu\<close>, one definition each. Closing a gate that is not there
  would panic, so every operation that closes one has an option result; \<open>core_inv\<close> shows that it is
  never \<open>None\<close>. What loading a config yields is an argument of \<open>applyConfig\<close>.
\<close>

subsection \<open>The egress pin\<close>

record netInterface =
  if_name :: string
  if_addrs :: "addr list option"   \<comment> \<open>\<open>None\<close> where they cannot be read\<close>

definition interfaceOwning :: "addr \<Rightarrow> Tun \<Rightarrow> netInterface list option \<Rightarrow> string" where
  "interfaceOwning a tun interfaces =
     (if list_ex (\<lambda>p. prefixContains p a) (InetAddress tun) then []
      else (case interfaces of
              None \<Rightarrow> []
            | Some ifs \<Rightarrow>
                (case find (\<lambda>ifc. if_name ifc \<noteq> Device tun \<and>
                        (case if_addrs ifc of None \<Rightarrow> False
                         | Some addrs \<Rightarrow> list_ex (\<lambda>ip. unmapAddr ip = a) addrs)) ifs of
                   None \<Rightarrow> [] | Some ifc \<Rightarrow> if_name ifc)))"

text \<open>\<open>locals\<close>: the local address each of the two targets is reached from, if it is.\<close>

fun physicalEgress :: "Tun \<Rightarrow> netInterface list option \<Rightarrow> addr option list \<Rightarrow> string" where
  "physicalEgress tun interfaces [] = []"
| "physicalEgress tun interfaces (None # locals) = physicalEgress tun interfaces locals"
| "physicalEgress tun interfaces (Some a # locals) =
     (let name = interfaceOwning (unmapAddr a) tun interfaces in
      if name \<noteq> [] then name else physicalEgress tun interfaces locals)"

definition wantsEgressPin ::
  "('x, 's, 'g) outside \<Rightarrow> 'x config option \<Rightarrow> ('x, 's, 'g) core \<Rightarrow> bool" where
  "wantsEgressPin env cfg c =
     (if \<not> egressPinPlatform env \<or> android env then False
      else (case cfg of
              None \<Rightarrow> False
            | Some cfg \<Rightarrow> Interface (general cfg) = [] \<and> Enable (TunOf (general cfg)) \<and>
                AutoDetectInterface (TunOf (general cfg)) \<and> \<not> finderSet (dialer c)))"

definition setInterface :: "string \<Rightarrow> 'x config \<Rightarrow> 'x config" where
  "setInterface name cfg = cfg\<lparr>general := (general cfg)\<lparr>Interface := name\<rparr>\<rparr>"

text \<open>The result: the config with its pin, the state, and whether restoring clears the interface.\<close>

definition pinEgress ::
  "('x, 's, 'g) outside \<Rightarrow> 'x config \<Rightarrow> ('x, 's, 'g) core \<Rightarrow> 'x config \<times> bool \<times> ('x, 's, 'g) core" where
  "pinEgress env cfg c =
     (if \<not> wantsEgressPin env (Some cfg) c then (cfg, False, c)
      else (let name = findEgress env (calls c) cfg in
            if name = [] then (cfg, False, c)
            else (setInterface name cfg, True, c\<lparr>egressPin := name\<rparr>)))"

definition pinEgressNow ::
  "('x, 's, 'g) outside \<Rightarrow> 'x config \<Rightarrow> ('x, 's, 'g) core \<Rightarrow> ('x, 's, 'g) core" where
  "pinEgressNow env cfg c =
     (if \<not> wantsEgressPin env (Some cfg) c then c
      else (let name = findEgress env (calls c) cfg in
            if name = [] then c
            else c\<lparr>egressPin := name,
                   dialer := (if DefaultInterface (dialer c) = []
                              then (dialer c)\<lparr>DefaultInterface := name\<rparr> else dialer c)\<rparr>))"

definition egressPinned :: "('x, 's, 'g) core \<Rightarrow> bool" where
  "egressPinned c \<longleftrightarrow> egressPin c \<noteq> []"

definition releaseEgress :: "('x, 's, 'g) core \<Rightarrow> ('x, 's, 'g) core" where
  "releaseEgress c =
     (let name = egressPin c;
          c = c\<lparr>egressPin := []\<rparr>
      in if name \<noteq> [] \<and> DefaultInterface (dialer c) = name
         then c\<lparr>dialer := (dialer c)\<lparr>DefaultInterface := []\<rparr>\<rparr> else c)"

subsection \<open>The default interface\<close>

definition defaultInterfaceKey :: "(string \<times> string list) option \<Rightarrow> string" where
  "defaultInterfaceKey found =
     (case found of
        None \<Rightarrow> []
      | Some (name, addrs) \<Rightarrow> name @ ''|'' @ str_join '','' (sort addrs))"

definition rememberDefaultInterface ::
  "('x, 's, 'g) outside \<Rightarrow> ('x, 's, 'g) core \<Rightarrow> ('x, 's, 'g) core" where
  "rememberDefaultInterface env c =
     c\<lparr>lastDefaultInterface := defaultInterfaceKey (upInterface env (calls c))\<rparr>"

definition defaultInterfaceMoved ::
  "('x, 's, 'g) outside \<Rightarrow> ('x, 's, 'g) core \<Rightarrow> bool \<times> ('x, 's, 'g) core" where
  "defaultInterfaceMoved env c =
     (let key = defaultInterfaceKey (upInterface env (calls c))
      in (key = [] \<or> key \<noteq> lastDefaultInterface c, c\<lparr>lastDefaultInterface := key\<rparr>))"

subsection \<open>The listeners\<close>

definition tunOn :: "'x config \<Rightarrow> bool" where
  "tunOn cfg = Enable (TunOf (general cfg))"

definition releaseGate :: "nat option \<Rightarrow> ('x, 's, 'g) core \<Rightarrow> ('x, 's, 'g) core option" where
  "releaseGate h c =
     (case h of
        None \<Rightarrow> Some c
      | Some h \<Rightarrow> map_option (\<lambda>w. c\<lparr>tunGate := w\<rparr>) (releaseHold h (tunGate c)))"

definition enterGate ::
  "('x, 's, 'g) outside \<Rightarrow> 'x config option \<Rightarrow> ('x, 's, 'g) core \<Rightarrow> ('x, 's, 'g) core \<times> nat option" where
  "enterGate env cfg c =
     (case beginTunSettle (android env) (map_option tunOn cfg) (isRunning c) (tunEnabled c) (tunGate c) of
        (w, h) \<Rightarrow> (c\<lparr>tunGate := w\<rparr>, h))"

definition endStart :: "('x, 's, 'g) core \<Rightarrow> ('x, 's, 'g) core option" where
  "endStart c = map_option (\<lambda>w. c\<lparr>tunGate := w\<rparr>) (endTunStart (tunGate c))"

definition scheduleTunAftershock :: "('x, 's, 'g) core \<Rightarrow> ('x, 's, 'g) core" where
  "scheduleTunAftershock c =
     (case holdTunSettle (tunGate c) of
        (w, h) \<Rightarrow> c\<lparr>tunGate := w, aftershocks := h # aftershocks c\<rparr>)"

definition handleResetConnections :: "('x, 's, 'g) core \<Rightarrow> ('x, 's, 'g) core" where
  "handleResetConnections c = say [ResetConnection, ResetQuic] c"

definition listenerCalls :: "'x config \<Rightarrow> 'x mihomoCall list" where
  "listenerCalls cfg =
     (let g = general cfg in
      [PatchInboundListeners (listenersOf cfg), SetAllowLan (AllowLan g),
       SetSkipAuthPrefixes (SkipAuthPrefixes g), SetAllowedIPs (LanAllowedIPs g),
       SetDisAllowedIPs (LanDisAllowedIPs g), SetBindAddress (BindAddress g),
       ReCreateHTTP (Port g), ReCreateSocks (SocksPort g), ReCreateRedir (RedirPort g),
       ReCreateTProxy (TProxyPort g), ReCreateMixed (MixedPort g),
       ReCreateShadowSocks (ShadowSocksConfig g), ReCreateVmess (VmessConfig g),
       ReCreateTuic (TuicServer g)])"

text \<open>What follows the swap of \<open>tunEnabled\<close> when it changes.\<close>

definition tunToggled ::
  "('x, 's, 'g) outside \<Rightarrow> bool \<Rightarrow> ('x, 's, 'g) core \<Rightarrow> ('x, 's, 'g) core" where
  "tunToggled env pinned c =
     (let c = rememberDefaultInterface env c;
          c = handleResetConnections c;
          c = moveRoute env RouteReset c
      in if \<not> pinned then scheduleTunAftershock c else c)"

text \<open>The part of \<open>updateListeners\<close> that Android leaves out.\<close>

definition openTun ::
  "('x, 's, 'g) outside \<Rightarrow> 'x config \<Rightarrow> ('x, 's, 'g) core \<Rightarrow> ('x, 's, 'g) core option" where
  "openTun env cfg c =
     (let (c, h) = enterGate env (Some cfg) c;
          c = pinEgressNow env cfg c;
          c = say [ReCreateTun (TunOf (general cfg))] c;
          c = c\<lparr>dialer := on_tun env (TunOf (general cfg)) (dialer c)\<rparr>;
          pinned = egressPinned c;
          c = releaseEgress c;
          was = tunEnabled c;
          c = c\<lparr>tunEnabled := tunOn cfg\<rparr>;
          c = (if was \<noteq> tunOn cfg then tunToggled env pinned c else c)
      in releaseGate h c)"

definition updateListeners ::
  "('x, 's, 'g) outside \<Rightarrow> 'x config option \<Rightarrow> ('x, 's, 'g) core \<Rightarrow> ('x, 's, 'g) core option" where
  "updateListeners env cfg c =
     (case cfg of
        None \<Rightarrow> Some c
      | Some cfg \<Rightarrow>
          if \<not> isRunning c then Some c
          else (let c = say (listenerCalls cfg) c in
                if android env then Some c else openTun env cfg c))"

subsection \<open>Start, stop, shutdown\<close>

definition setRunning :: "bool \<Rightarrow> ('x, 's, 'g) core \<Rightarrow> ('x, 's, 'g) core" where
  "setRunning running c = c\<lparr>isRunning := running\<rparr>"

record InitParams =
  HomeDir :: string
  Version :: int

definition handleInit :: "InitParams \<Rightarrow> ('x, 's, 'g) core \<Rightarrow> ('x, 's, 'g) core" where
  "handleInit params c =
     (let c = c\<lparr>sdkVersion := signed_take_bit 31 (Version params)\<rparr>;
          c = say [SetHomeDir (HomeDir params), InitOwnership (HomeDir params), ClearSpilled] c
      in c\<lparr>isInit := True\<rparr>)"

definition handleStartListener ::
  "('x, 's, 'g) outside \<Rightarrow> ('x, 's, 'g) core \<Rightarrow> ('x, 's, 'g) core option" where
  "handleStartListener env c =
     (let c = setRunning True c;
          (c, h) = enterGate env (currentConfig c) c
      in case updateListeners env (currentConfig c) c of
           None \<Rightarrow> None
         | Some c \<Rightarrow>
             (let c = say [ResetConnection, ResetQuic] c;
                  c = moveRoute env RouteReset c
              in Option.bind (releaseGate h c) endStart))"

definition handleStopListener ::
  "('x, 's, 'g) outside \<Rightarrow> ('x, 's, 'g) core \<Rightarrow> ('x, 's, 'g) core option" where
  "handleStopListener env c =
     map_option (\<lambda>c.
        (let c = releaseEgress c;
             c = say [StopListener] c;
             c = c\<lparr>dialer := on_stop env (dialer c), tunEnabled := False\<rparr>
         in say [ResetConnection] c))
       (endStart (setRunning False c))"

definition handleShutdown ::
  "('x, 's, 'g) outside \<Rightarrow> ('x, 's, 'g) core \<Rightarrow> ('x, 's, 'g) core option" where
  "handleShutdown env c =
     (let c = say [StopLog] c;
          (t, seq) = stopRouteWatch (callSeq c) (tracker c);
          c = c\<lparr>tracker := t, callSeq := seq\<rparr>
      in map_option (\<lambda>c.
           (let c = say [StopListener] c;
                c = c\<lparr>dialer := on_stop env (dialer c), tunEnabled := False\<rparr>;
                c = say [StopGeoUpdater, ExecutorShutdown] c;
                c = c\<lparr>geo := (geo c)\<lparr>geo_registered := False\<rparr>, currentConfig := None, isInit := False\<rparr>
            in say [InvalidateProxies] c))
          (endStart (setRunning False c)))"

subsection \<open>Applying a config\<close>

record CoreOptions =
  TestURL :: string
  SkipCertVerify :: bool
  DelayTestTimeout :: int

definition applyOptions :: "CoreOptions \<Rightarrow> ('x, 's, 'g) core \<Rightarrow> ('x, 's, 'g) core" where
  "applyOptions options c =
     (let c = c\<lparr>urls := setTestURL (TestURL options) (urls c)\<rparr>;
          c = say [SetDefaultTestTimeout (timeoutFromMillis (DelayTestTimeout options) 0)] c
      in c\<lparr>skipCertVerify := SkipCertVerify options\<rparr>)"

record SetupParams =
  SelectedMap :: "(string, string) gomap"
  Options :: CoreOptions

datatype setupError = NotInitialized | NotApplied | LoadError string | ConfigRejected string

text \<open>
  The config is current while it is applied under its pin, and current without it afterwards: the
  pointer stays, the interface is put back. The result: the state and the config restored.
\<close>

definition enactConfig ::
  "('x, 's, 'g) outside \<Rightarrow> (string, string) gomap \<Rightarrow> 'x config \<Rightarrow> ('x, 's, 'g) core \<Rightarrow>
     ('x, 's, 'g) core \<times> 'x config" where
  "enactConfig env selected cfg c =
     (let c = c\<lparr>currentConfig := Some cfg\<rparr>;
          (pinned, restore, c) = pinEgress env cfg c;
          c = c\<lparr>currentConfig := Some pinned\<rparr>;
          c = say [ApplyHub pinned] c;
          c = c\<lparr>dialer := on_apply env pinned (dialer c), proxyGroups := groupsOf env pinned\<rparr>;
          cfg = (if restore then setInterface [] pinned else pinned);
          c = c\<lparr>currentConfig := Some cfg\<rparr>;
          c = c\<lparr>proxyGroups := patchSelectGroup (groupsApi env) selected (proxyGroups c)\<rparr>
      in (moveRoute env RouteReset c, cfg))"

text \<open>What follows a config that was found, the loaded one or the built-in default.\<close>

definition landConfig ::
  "('x, 's, 'g) outside \<Rightarrow> (string, string) gomap \<Rightarrow> 'x config \<Rightarrow> ('x, 's, 'g) core \<Rightarrow>
     ('x, 's, 'g) core option" where
  "landConfig env selected cfg c =
     (let c = c\<lparr>tunGate := holdForTunStart (android env) (Some (tunOn cfg)) (isRunning c) (tunGate c)\<rparr>;
          (c, h) = enterGate env (Some cfg) c;
          (c, cfg) = enactConfig env selected cfg c
      in case updateListeners env (Some cfg) c of
           None \<Rightarrow> None
         | Some c \<Rightarrow>
             (let c = c\<lparr>geo := reconcileGeoUpdater (geo c)\<rparr>;
                  c = say [ScheduleMemoryRelease] c
              in releaseGate h c))"

definition applyConfig ::
  "('x, 's, 'g) outside \<Rightarrow> SetupParams \<Rightarrow> (string, 'x config) result \<Rightarrow> 'x config option \<Rightarrow>
     ('x, 's, 'g) core \<Rightarrow> (('x, 's, 'g) core \<times> setupError option) option" where
  "applyConfig env params loaded fallback c =
     (let c = applyOptions (Options params) c in
      case loaded of
        Inr cfg \<Rightarrow> map_option (\<lambda>c. (c, None)) (landConfig env (SelectedMap params) cfg c)
      | Inl err \<Rightarrow>
          (case fallback of
             None \<Rightarrow> Some (c, Some (LoadError err))
           | Some cfg \<Rightarrow> map_option (\<lambda>c. (c, Some (ConfigRejected err)))
                          (landConfig env (SelectedMap params) cfg c)))"

definition handleSetupConfig ::
  "('x, 's, 'g) outside \<Rightarrow> SetupParams \<Rightarrow> (string, 'x config) result \<Rightarrow> 'x config option \<Rightarrow>
     ('x, 's, 'g) core \<Rightarrow> (('x, 's, 'g) core \<times> setupError option) option" where
  "handleSetupConfig env params loaded fallback c =
     (if \<not> isInit c then Some (c, Some NotInitialized)
      else applyConfig env params loaded fallback c)"

subsection \<open>Updating the config in place\<close>

record UpdateParams =
  up_tun :: "tunSchema option"
  up_allowLan :: "bool option"
  up_mixedPort :: "int option"
  up_findProcessMode :: "int option"
  up_mode :: "int option"
  up_logLevel :: "int option"
  up_ipv6 :: "bool option"
  up_tcpConcurrent :: "bool option"
  up_externalController :: "string option"
  up_secret :: "string option"
  up_unifiedDelay :: "bool option"
  up_authentication :: "string list option"
  up_geoAutoUpdate :: "bool option"
  up_geoUpdateInterval :: "int option"
  up_geoXUrl :: "(string, string) gomap"
  up_options :: "CoreOptions option"

text \<open>\<open>currentConfig\<close> is a pointer: a patch changes the config it points to.\<close>

definition onConfig ::
  "('x config \<Rightarrow> 'x config) \<Rightarrow> ('x, 's, 'g) core \<Rightarrow> ('x, 's, 'g) core" where
  "onConfig f c = c\<lparr>currentConfig := map_option f (currentConfig c)\<rparr>"

definition onGeneral ::
  "('x General \<Rightarrow> 'x General) \<Rightarrow> ('x, 's, 'g) core \<Rightarrow> ('x, 's, 'g) core" where
  "onGeneral f c = onConfig (\<lambda>cfg. cfg\<lparr>general := f (general cfg)\<rparr>) c"

definition patchController :: "UpdateParams \<Rightarrow> ('x, 's, 'g) core \<Rightarrow> ('x, 's, 'g) core" where
  "patchController params c =
     (case currentConfig c of
        None \<Rightarrow> c
      | Some cfg \<Rightarrow>
          (let ctl = controller cfg;
               address = (case up_externalController params of None \<Rightarrow> ExternalController ctl | Some a \<Rightarrow> a);
               secret = (case up_secret params of None \<Rightarrow> Secret ctl | Some s \<Rightarrow> s)
           in if address = ExternalController ctl \<and> secret = Secret ctl then c
              else (let cfg = cfg\<lparr>controller := ctl\<lparr>ExternalController := address, Secret := secret\<rparr>\<rparr>
                    in say [ReCreateServer (routeConfig cfg)] (c\<lparr>currentConfig := Some cfg\<rparr>))))"

definition applyAuthentication :: "string list \<Rightarrow> ('x, 's, 'g) core \<Rightarrow> ('x, 's, 'g) core" where
  "applyAuthentication authentication c =
     (let us = parseUsers authentication;
          c = onGeneral (\<lambda>g. g\<lparr>Authentication := authentication\<rparr>) c;
          c = onConfig (\<lambda>cfg. cfg\<lparr>users := us\<rparr>) c;
          c = say [SetAuthenticator us] c
      in if us \<noteq> []
         then say [SetSkipAuthPrefixes []] (onGeneral (\<lambda>g. g\<lparr>SkipAuthPrefixes := []\<rparr>) c)
         else c)"

text \<open>The patches of \<open>updateConfig\<close> before the listeners are updated, and the change of the route.\<close>

definition patchGeneral :: "UpdateParams \<Rightarrow> ('x, 's, 'g) core \<Rightarrow> ('x, 's, 'g) core" where
  "patchGeneral params c =
     (let c = given (up_mixedPort params) (\<lambda>v. onGeneral (\<lambda>g. g\<lparr>MixedPort := v\<rparr>)) c;
          c = given (up_allowLan params) (\<lambda>v. onGeneral (\<lambda>g. g\<lparr>AllowLan := v\<rparr>)) c;
          c = given (up_findProcessMode params) (\<lambda>v c. say [SetFindProcessMode v]
                (onGeneral (\<lambda>g. g\<lparr>FindProcessMode := v\<rparr>) c)) c;
          c = given (up_tcpConcurrent params) (\<lambda>v c. say [SetTcpConcurrent v]
                (onGeneral (\<lambda>g. g\<lparr>TCPConcurrent := v\<rparr>) c)) c;
          c = given (up_unifiedDelay params) (\<lambda>v c. say [SetUnifiedDelay v]
                (onGeneral (\<lambda>g. g\<lparr>UnifiedDelay := v\<rparr>) c)) c;
          c = given (up_mode params) (\<lambda>v c. say [SetMode v] (onGeneral (\<lambda>g. g\<lparr>Mode := v\<rparr>) c)) c;
          c = given (up_logLevel params) (\<lambda>v c. say [SetLogLevel v]
                (onGeneral (\<lambda>g. g\<lparr>LogLevel := v\<rparr>) c)) c;
          c = given (up_ipv6 params) (\<lambda>v c. say [SetDisableIPv6 (\<not> v)]
                (onGeneral (\<lambda>g. g\<lparr>IPv6 := v\<rparr>) c)) c;
          c = given (up_tun params) (\<lambda>p. onGeneral (\<lambda>g. g\<lparr>TunOf := patchTun p (TunOf g)\<rparr>)) c;
          c = patchController params c;
          c = given (up_authentication params) applyAuthentication c
      in given (up_options params) applyOptions c)"

definition patchChange :: "UpdateParams \<Rightarrow> 'x General \<Rightarrow> routeChange" where
  "patchChange params g =
     (let change = RouteUnchanged;
          change = (case up_mode params of
                      Some m \<Rightarrow> if Mode g \<noteq> m then RouteMoved else change | None \<Rightarrow> change)
      in case up_ipv6 params of
           Some b \<Rightarrow> if IPv6 g \<noteq> b then RouteReset else change | None \<Rightarrow> change)"

definition updateConfig ::
  "('x, 's, 'g) outside \<Rightarrow> UpdateParams \<Rightarrow> ('x, 's, 'g) core \<Rightarrow>
     (('x, 's, 'g) core \<times> setupError option) option" where
  "updateConfig env params c =
     (case currentConfig c of
        None \<Rightarrow> Some (c, Some NotApplied)
      | Some cfg \<Rightarrow>
          (let change = patchChange params (general cfg);
               c = patchGeneral params c
           in case updateListeners env (currentConfig c) c of
                None \<Rightarrow> None
              | Some c \<Rightarrow>
                  (let c = c\<lparr>geo := fold (\<lambda>(geoType, link). setGeoResourceUrl geoType link)
                                     (up_geoXUrl params) (geo c)\<rparr>;
                       c = c\<lparr>geo := syncGeoUpdater (up_geoAutoUpdate params)
                                     (up_geoUpdateInterval params) (geo c)\<rparr>
                   in Some (if change \<noteq> RouteUnchanged then moveRoute env change c else c, None))))"

subsection \<open>Network changes\<close>

definition resetNetworkState :: "('x, 's, 'g) core \<Rightarrow> ('x, 's, 'g) core" where
  "resetNetworkState c = say [ClearDns, ResetQuic] c"

definition handleNetworkChanged ::
  "('x, 's, 'g) outside \<Rightarrow> ('x, 's, 'g) core \<Rightarrow> ('x, 's, 'g) core" where
  "handleNetworkChanged env c =
     (if tunEnabled c
      then (let (moved, c) = defaultInterfaceMoved env c in
            if \<not> moved then c else moveRoute env RouteReset (resetNetworkState c))
      else moveRoute env RouteReset (resetNetworkState c))"

definition handleResetNetwork :: "('x, 's, 'g) core \<Rightarrow> ('x, 's, 'g) core" where
  "handleResetNetwork c = resetNetworkState (say [CloseConnections] c)"

text \<open>The timer of an aftershock: its reset, and the release of its hold.\<close>

definition aftershock ::
  "('x, 's, 'g) outside \<Rightarrow> nat \<Rightarrow> ('x, 's, 'g) core \<Rightarrow> ('x, 's, 'g) core option" where
  "aftershock env h c =
     (let c = say [ResetConnection, CloseQuic] c;
          c = moveRoute env RouteReset c;
          c = c\<lparr>aftershocks := removeAll h (aftershocks c)\<rparr>
      in releaseGate (Some h) c)"

end
