(* ===== verification/LifecycleProofs.thy ===== *)
theory LifecycleProofs
  imports Lifecycle
begin

section \<open>What the lifecycle promises\<close>

text \<open>
  The gates of the handlers as a ghost set of holds, the effect of opening the TUN, the invariant of
  the core over every order of calls, and the properties of applying, starting and updating.
\<close>

subsection \<open>Gates\<close>

text \<open>\<open>gate_ok H c\<close>: the holds alive are those of the aftershocks to come and, apart from them, \<open>H\<close>.\<close>

definition gate_ok :: "nat set \<Rightarrow> ('x, 's, 'g) core \<Rightarrow> bool" where
  "gate_ok H c \<longleftrightarrow> tun_inv (tunGate c) \<and>
     set (liveHolds (tunGate c)) = set (aftershocks c) \<union> H \<and> H \<inter> set (aftershocks c) = {}"

lemma gate_ok_cong:
  "tunGate c' = tunGate c \<Longrightarrow> aftershocks c' = aftershocks c \<Longrightarrow> gate_ok H c' = gate_ok H c"
  by (simp add: gate_ok_def)

lemma gate_ok_upd [simp]:
  "gate_ok H (c\<lparr>isRunning := b\<rparr>) = gate_ok H c" "gate_ok H (c\<lparr>tunEnabled := b\<rparr>) = gate_ok H c"
  "gate_ok H (c\<lparr>isInit := b\<rparr>) = gate_ok H c" "gate_ok H (c\<lparr>sdkVersion := n\<rparr>) = gate_ok H c"
  "gate_ok H (c\<lparr>currentConfig := k\<rparr>) = gate_ok H c" "gate_ok H (c\<lparr>egressPin := s\<rparr>) = gate_ok H c"
  "gate_ok H (c\<lparr>dialer := d\<rparr>) = gate_ok H c" "gate_ok H (c\<lparr>lastDefaultInterface := s\<rparr>) = gate_ok H c"
  "gate_ok H (c\<lparr>tracker := t\<rparr>) = gate_ok H c" "gate_ok H (c\<lparr>callSeq := q\<rparr>) = gate_ok H c"
  "gate_ok H (c\<lparr>sent := rs\<rparr>) = gate_ok H c" "gate_ok H (c\<lparr>proxyGroups := gs\<rparr>) = gate_ok H c"
  "gate_ok H (c\<lparr>urls := u\<rparr>) = gate_ok H c" "gate_ok H (c\<lparr>skipCertVerify := b\<rparr>) = gate_ok H c"
  "gate_ok H (c\<lparr>geo := g\<rparr>) = gate_ok H c" "gate_ok H (c\<lparr>calls := ms\<rparr>) = gate_ok H c"
  by (simp_all add: gate_ok_def)

lemma hold_frame:
  assumes "tun_inv w" and "holdTunSettle w = (w', h)"
  shows "tun_inv w'" "liveHolds w' = h # liveHolds w" "h \<notin> set (liveHolds w)"
proof -
  show "tun_inv w'" using tun_inv_hold [OF assms(1)] assms(2) by simp
  show "liveHolds w' = h # liveHolds w"
    using assms(2) by (auto simp: holdTunSettle_def Let_def split: if_splits)
  have "h = nextHold w"
    using assms(2) by (auto simp: holdTunSettle_def Let_def split: if_splits)
  then show "h \<notin> set (liveHolds w)"
    using assms(1) by (auto simp: tun_inv_def hold_inv_def)
qed

lemma enterGate_ok:
  assumes "gate_ok H c" and "enterGate env cfg c = (c', h)"
  shows "\<exists>w. c' = c\<lparr>tunGate := w\<rparr> \<and> gate_ok (H \<union> set_option h) c' \<and> set_option h \<inter> H = {}"
proof -
  let ?r = "beginTunSettle (android env) (map_option tunOn cfg) (isRunning c) (tunEnabled c) (tunGate c)"
  obtain w k where r: "?r = (w, k)" by (cases ?r)
  with assms(2) have c': "c' = c\<lparr>tunGate := w\<rparr>" "h = k"
    by (simp_all add: enterGate_def)
  show ?thesis
  proof (cases k)
    case None
    with r have "w = tunGate c"
      by (auto simp: beginTunSettle_def split: if_splits prod.splits)
    with None assms(1) c' show ?thesis
      by (intro exI [of _ "tunGate c"]) (auto simp: gate_ok_def)
  next
    case (Some n)
    with r have "holdTunSettle (tunGate c) = (w, n)"
      by (auto simp: beginTunSettle_def split: if_splits prod.splits)
    with hold_frame [of "tunGate c" w n] assms(1) c' Some show ?thesis
      by (auto simp: gate_ok_def)
  qed
qed

lemma releaseHold_frame:
  assumes "tun_inv w"
  obtains w' where "releaseHold h w = Some w'" "tun_inv w'" "set (liveHolds w') = set (liveHolds w) - {h}"
proof -
  obtain w' where w': "releaseHold h w = Some w'" "tun_inv w'"
    using assms by (rule releaseHold_inv)
  moreover have "set (liveHolds w') = set (liveHolds w) - {h}"
    using w'(1) by (auto simp: releaseHold_def closeDone_def Let_def split: if_splits option.splits)
  ultimately show ?thesis using that by blast
qed

lemma releaseGate_ok:
  assumes "gate_ok (H \<union> set_option h) c" and "set_option h \<inter> H = {}"
  shows "\<exists>w. releaseGate h c = Some (c\<lparr>tunGate := w\<rparr>) \<and> gate_ok H (c\<lparr>tunGate := w\<rparr>)"
proof (cases h)
  case None
  with assms show ?thesis
    by (intro exI [of _ "tunGate c"]) (simp add: releaseGate_def)
next
  case (Some n)
  obtain w where "releaseHold n (tunGate c) = Some w" "tun_inv w"
      "set (liveHolds w) = set (liveHolds (tunGate c)) - {n}"
    using assms(1) releaseHold_frame [of "tunGate c" n] by (auto simp: gate_ok_def)
  with Some assms show ?thesis
    by (intro exI [of _ w]) (auto simp: releaseGate_def gate_ok_def)
qed

lemma endStart_ok:
  assumes "gate_ok H c"
  shows "\<exists>w. endStart c = Some (c\<lparr>tunGate := w\<rparr>) \<and> gate_ok H (c\<lparr>tunGate := w\<rparr>)"
proof -
  obtain w where w: "endTunStart (tunGate c) = Some w" "tun_inv w"
    using assms endTunStart_inv [of "tunGate c"] by (auto simp: gate_ok_def)
  then have "liveHolds w = liveHolds (tunGate c)"
    by (auto simp: endTunStart_def closeDone_def Let_def split: if_splits option.splits)
  with w assms show ?thesis
    by (intro exI [of _ w]) (simp add: endStart_def gate_ok_def)
qed

lemma schedule_ok:
  assumes "gate_ok H c"
  shows "\<exists>w h. scheduleTunAftershock c = c\<lparr>tunGate := w, aftershocks := h # aftershocks c\<rparr> \<and>
    gate_ok H (scheduleTunAftershock c)"
proof -
  obtain w h where r: "holdTunSettle (tunGate c) = (w, h)" by (cases "holdTunSettle (tunGate c)")
  with hold_frame [of "tunGate c" w h] assms show ?thesis
    by (auto simp: scheduleTunAftershock_def gate_ok_def)
qed

lemma holdForTunStart_ok:
  "gate_ok H c \<Longrightarrow> gate_ok H (c\<lparr>tunGate := holdForTunStart a k r (tunGate c)\<rparr>)"
  using tun_inv_hold_start [of "tunGate c" a k r]
  by (auto simp: gate_ok_def holdForTunStart_def Let_def)

lemma moveRoute_frame [simp]:
  "isRunning (moveRoute env ch c) = isRunning c" "tunEnabled (moveRoute env ch c) = tunEnabled c"
  "isInit (moveRoute env ch c) = isInit c"
  "currentConfig (moveRoute env ch c) = currentConfig c" "egressPin (moveRoute env ch c) = egressPin c"
  "dialer (moveRoute env ch c) = dialer c" "calls (moveRoute env ch c) = calls c"
  "tunGate (moveRoute env ch c) = tunGate c" "aftershocks (moveRoute env ch c) = aftershocks c"
  "gate_ok H (moveRoute env ch c) = gate_ok H c"
  by (simp_all add: moveRoute_def Let_def gate_ok_def split: prod.split)

lemma moveRoute_epoch [simp]:
  "epoch (tracker (moveRoute env ch c)) = epoch (tracker c) + (if ch = RouteReset then 1 else 0)"
  by (cases "refreshRouteLocked (shownTunnel env (calls c) (proxyGroups c)) ch (tracker c)")
    (use refresh_stamp(2) [of "shownTunnel env (calls c) (proxyGroups c)" ch "tracker c"] in
      \<open>simp add: moveRoute_def changeRoute_def effectiveChange_reset\<close>)

lemma say_frame [simp]:
  "isRunning (say ms c) = isRunning c" "tunEnabled (say ms c) = tunEnabled c" "isInit (say ms c) = isInit c"
  "currentConfig (say ms c) = currentConfig c" "egressPin (say ms c) = egressPin c"
  "dialer (say ms c) = dialer c" "calls (say ms c) = calls c @ ms" "tracker (say ms c) = tracker c"
  "tunGate (say ms c) = tunGate c" "aftershocks (say ms c) = aftershocks c" "geo (say ms c) = geo c"
  "proxyGroups (say ms c) = proxyGroups c" "callSeq (say ms c) = callSeq c"
  "gate_ok H (say ms c) = gate_ok H c"
  by (simp_all add: say_def)

subsection \<open>Opening the TUN\<close>

lemma pinEgressNow_frame [simp]:
  "isRunning (pinEgressNow env cfg c) = isRunning c" "tunEnabled (pinEgressNow env cfg c) = tunEnabled c"
  "isInit (pinEgressNow env cfg c) = isInit c"
  "currentConfig (pinEgressNow env cfg c) = currentConfig c" "calls (pinEgressNow env cfg c) = calls c"
  "tracker (pinEgressNow env cfg c) = tracker c"
  "gate_ok H (pinEgressNow env cfg c) = gate_ok H c"
  "pinEgressNow env cfg (c\<lparr>tunGate := w\<rparr>) = (pinEgressNow env cfg c)\<lparr>tunGate := w\<rparr>"
  by (simp_all add: pinEgressNow_def wantsEgressPin_def Let_def split: option.split)

lemma releaseEgress_frame [simp]:
  "isRunning (releaseEgress c) = isRunning c" "tunEnabled (releaseEgress c) = tunEnabled c"
  "isInit (releaseEgress c) = isInit c"
  "currentConfig (releaseEgress c) = currentConfig c" "calls (releaseEgress c) = calls c"
  "tracker (releaseEgress c) = tracker c" "egressPin (releaseEgress c) = []"
  "gate_ok H (releaseEgress c) = gate_ok H c"
  "DefaultInterface (dialer (releaseEgress c)) =
     (if egressPin c \<noteq> [] \<and> DefaultInterface (dialer c) = egressPin c then []
      else DefaultInterface (dialer c))"
  by (simp_all add: releaseEgress_def Let_def)

lemma tunToggled_ok:
  assumes "gate_ok H c"
  shows "gate_ok H (tunToggled env pinned c)"
proof -
  let ?c = "moveRoute env RouteReset (handleResetConnections (rememberDefaultInterface env c))"
  have "gate_ok H ?c"
    using assms by (simp add: handleResetConnections_def rememberDefaultInterface_def)
  then show ?thesis
    using schedule_ok [of H ?c] by (auto simp: tunToggled_def Let_def)
qed

lemma tunToggled_frame [simp]:
  "isRunning (tunToggled env pinned c) = isRunning c" "tunEnabled (tunToggled env pinned c) = tunEnabled c"
  "isInit (tunToggled env pinned c) = isInit c"
  "currentConfig (tunToggled env pinned c) = currentConfig c" "egressPin (tunToggled env pinned c) = egressPin c"
  "dialer (tunToggled env pinned c) = dialer c"
  "calls (tunToggled env pinned c) = calls c @ [ResetConnection, ResetQuic]"
  "epoch (tracker (tunToggled env pinned c)) = epoch (tracker c) + 1"
  by (simp_all add: tunToggled_def Let_def scheduleTunAftershock_def handleResetConnections_def
      rememberDefaultInterface_def split: prod.split)

text \<open>The dialer's variables once the TUN is made and the pin released.\<close>

definition openedInterface ::
  "('x, 's, 'g) outside \<Rightarrow> 'x config \<Rightarrow> ('x, 's, 'g) core \<Rightarrow> string" where
  "openedInterface env cfg c =
     (let p = pinEgressNow env cfg c; d = on_tun env (TunOf (general cfg)) (dialer p)
      in if egressPin p \<noteq> [] \<and> DefaultInterface d = egressPin p then [] else DefaultInterface d)"

lemma openTun_ok:
  assumes "gate_ok H c"
  obtains c' where "openTun env cfg c = Some c'" "gate_ok H c'"
    "isRunning c' = isRunning c" "isInit c' = isInit c" "currentConfig c' = currentConfig c"
    "tunEnabled c' = tunOn cfg" "egressPin c' = []"
    "epoch (tracker c') = epoch (tracker c) + (if tunEnabled c \<noteq> tunOn cfg then 1 else 0)"
    "DefaultInterface (dialer c') = openedInterface env cfg c"
    "\<exists>ms. set ms \<subseteq> {ReCreateTun (TunOf (general cfg)), ResetConnection, ResetQuic} \<and> calls c' = calls c @ ms"
proof -
  obtain c1 h where enter: "enterGate env (Some cfg) c = (c1, h)" by fastforce
  from enterGate_ok [OF assms this] obtain w1
    where c1: "c1 = c\<lparr>tunGate := w1\<rparr>" "gate_ok (H \<union> set_option h) c1" "set_option h \<inter> H = {}"
    by blast
  define c2 where "c2 = pinEgressNow env cfg c1"
  define c3 where "c3 = (say [ReCreateTun (TunOf (general cfg))] c2)
    \<lparr>dialer := on_tun env (TunOf (general cfg)) (dialer c2)\<rparr>"
  define c4 where "c4 = (releaseEgress c3)\<lparr>tunEnabled := tunOn cfg\<rparr>"
  define c5 where "c5 = (if tunEnabled c \<noteq> tunOn cfg then tunToggled env (egressPinned c3) c4 else c4)"
  have "gate_ok (H \<union> set_option h) c5"
    using c1(2) by (auto simp: c5_def c4_def c3_def c2_def intro!: tunToggled_ok)
  then obtain w where w: "releaseGate h c5 = Some (c5\<lparr>tunGate := w\<rparr>)" "gate_ok H (c5\<lparr>tunGate := w\<rparr>)"
    using releaseGate_ok [OF _ c1(3)] by blast
  have "tunEnabled c1 = tunEnabled c" by (simp add: c1(1))
  then have "openTun env cfg c = releaseGate h c5"
    by (simp add: openTun_def enter c5_def c4_def c3_def c2_def Let_def)
  with w(1) have opened: "openTun env cfg c = Some (c5\<lparr>tunGate := w\<rparr>)" by simp
  show ?thesis
  proof (rule that [OF opened w(2)])
    show "\<exists>ms. set ms \<subseteq> {ReCreateTun (TunOf (general cfg)), ResetConnection, ResetQuic} \<and>
        calls (c5\<lparr>tunGate := w\<rparr>) = calls c @ ms"
      by (auto simp: c5_def c4_def c3_def c2_def c1(1))
  qed (simp_all add: c5_def c4_def c3_def c2_def c1(1) openedInterface_def Let_def)
qed

subsection \<open>The listeners, applied configs and patches\<close>

lemma updateListeners_ok:
  assumes "gate_ok H c"
  obtains c' where "updateListeners env (Some cfg) c = Some c'" "gate_ok H c'"
    "isRunning c' = isRunning c" "isInit c' = isInit c" "currentConfig c' = currentConfig c"
    "tunEnabled c' = (if isRunning c \<and> \<not> android env then tunOn cfg else tunEnabled c)"
    "egressPin c' = (if isRunning c \<and> \<not> android env then [] else egressPin c)"
    "epoch (tracker c') = epoch (tracker c) +
       (if isRunning c \<and> \<not> android env \<and> tunEnabled c \<noteq> tunOn cfg then 1 else 0)"
    "DefaultInterface (dialer c') =
       (if isRunning c \<and> \<not> android env then openedInterface env cfg (say (listenerCalls cfg) c)
        else DefaultInterface (dialer c))"
    "\<exists>ms. set ms \<subseteq> {ReCreateTun (TunOf (general cfg)), ResetConnection, ResetQuic} \<and>
       calls c' = calls c @ (if isRunning c then listenerCalls cfg @ ms else [])"
    "isRunning c \<or> dialer c' = dialer c"
proof (cases "isRunning c \<and> \<not> android env")
  case False
  show ?thesis
    by (rule that [of "if isRunning c then say (listenerCalls cfg) c else c"])
      (use False assms in \<open>auto simp: updateListeners_def Let_def intro: exI [of _ "[]"]\<close>)
next
  case True
  have "gate_ok H (say (listenerCalls cfg) c)" using assms by simp
  from openTun_ok [OF this, of env cfg] obtain c' where c':
    "openTun env cfg (say (listenerCalls cfg) c) = Some c'" "gate_ok H c'"
    "isRunning c' = isRunning c" "isInit c' = isInit c" "currentConfig c' = currentConfig c"
    "tunEnabled c' = tunOn cfg" "egressPin c' = []"
    "epoch (tracker c') = epoch (tracker c) + (if tunEnabled c \<noteq> tunOn cfg then 1 else 0)"
    "DefaultInterface (dialer c') = openedInterface env cfg (say (listenerCalls cfg) c)"
    "\<exists>ms. set ms \<subseteq> {ReCreateTun (TunOf (general cfg)), ResetConnection, ResetQuic} \<and>
       calls c' = (calls c @ listenerCalls cfg) @ ms"
    by auto
  show ?thesis
    by (rule that [OF _ c'(2-5)])
      (use True c' in \<open>auto simp: updateListeners_def Let_def\<close>)
qed

text \<open>The pin that landing a config sets, and what the executor is given.\<close>

definition landedPin :: "('x, 's, 'g) outside \<Rightarrow> 'x config \<Rightarrow> ('x, 's, 'g) core \<Rightarrow> string" where
  "landedPin env cfg c = (if wantsEgressPin env (Some cfg) c then findEgress env (calls c) cfg else [])"

definition applied :: "'x config \<Rightarrow> string \<Rightarrow> 'x config" where
  "applied cfg pin = (if pin = [] then cfg else setInterface pin cfg)"

lemma setInterface_simps [simp]:
  "tunOn (setInterface name cfg) = tunOn cfg" "Interface (general (setInterface name cfg)) = name"
  "setInterface name (setInterface name' cfg) = setInterface name cfg"
  "Interface (general cfg) = [] \<Longrightarrow> setInterface [] cfg = cfg"
  by (simp_all add: setInterface_def tunOn_def)

lemma pinEgress_cases:
  "pinEgress env cfg c =
     (applied cfg (landedPin env cfg c), landedPin env cfg c \<noteq> [],
      if landedPin env cfg c = [] then c else c\<lparr>egressPin := landedPin env cfg c\<rparr>)"
  by (simp add: pinEgress_def landedPin_def applied_def Let_def)

lemma restored:
  "(if landedPin env cfg c \<noteq> [] then setInterface [] (applied cfg (landedPin env cfg c))
    else applied cfg (landedPin env cfg c)) = cfg"
  by (auto simp: landedPin_def applied_def wantsEgressPin_def split: if_splits)

text \<open>The state in which \<open>landConfig\<close> updates the listeners.\<close>

definition landed ::
  "('x, 's, 'g) outside \<Rightarrow> 'x config \<Rightarrow> ('x, 's, 'g) core \<Rightarrow> ('x, 's, 'g) core \<Rightarrow> bool" where
  "landed env cfg c c' \<longleftrightarrow>
     isRunning c' = isRunning c \<and> isInit c' = isInit c \<and> tunEnabled c' = tunEnabled c \<and>
     currentConfig c' = Some cfg \<and>
     egressPin c' = (let pin = landedPin env cfg c in if pin = [] then egressPin c else pin) \<and>
     dialer c' = on_apply env (applied cfg (landedPin env cfg c)) (dialer c) \<and>
     calls c' = calls c @ [ApplyHub (applied cfg (landedPin env cfg c))] \<and>
     epoch (tracker c') = epoch (tracker c) + 1"

lemma landedPin_cong:
  "calls c' = calls c \<Longrightarrow> dialer c' = dialer c \<Longrightarrow> landedPin env cfg c' = landedPin env cfg c"
  by (simp add: landedPin_def wantsEgressPin_def)

lemma enactConfig_ok:
  assumes "gate_ok H c"
  obtains c' where "enactConfig env selected cfg c = (c', cfg)" "gate_ok H c'" "landed env cfg c c'"
proof -
  let ?pin = "landedPin env cfg c"
  have pin: "landedPin env cfg (c\<lparr>currentConfig := k\<rparr>) = ?pin" for k
    by (rule landedPin_cong) simp_all
  show ?thesis
  proof (cases "?pin = []")
    case True
    then show ?thesis
      using that assms by (auto simp: enactConfig_def pinEgress_cases pin landed_def applied_def)
  next
    case False
    then have "Interface (general cfg) = []"
      by (auto simp: landedPin_def wantsEgressPin_def split: if_splits)
    with False show ?thesis
      using that assms by (auto simp: enactConfig_def pinEgress_cases pin landed_def applied_def)
  qed
qed

lemma landed_cong:
  "landed env cfg (c\<lparr>tunGate := w\<rparr>) c' = landed env cfg c c'"
  by (simp add: landed_def Let_def landedPin_cong [of "c\<lparr>tunGate := w\<rparr>" c])

lemma landConfig_ok:
  assumes "gate_ok H c"
  obtains c1 c' where "landConfig env selected cfg c = Some c'" "gate_ok H c'" "landed env cfg c c1"
    "isRunning c' = isRunning c" "isInit c' = isInit c" "currentConfig c' = Some cfg"
    "tunEnabled c' = (if isRunning c \<and> \<not> android env then tunOn cfg else tunEnabled c)"
    "egressPin c' = (if isRunning c \<and> \<not> android env then [] else egressPin c1)"
    "epoch (tracker c') = epoch (tracker c) +
       (if isRunning c \<and> \<not> android env \<and> tunEnabled c \<noteq> tunOn cfg then 2 else 1)"
    "DefaultInterface (dialer c') =
       (if isRunning c \<and> \<not> android env then openedInterface env cfg (say (listenerCalls cfg) c1)
        else DefaultInterface (dialer c1))"
    "isRunning c \<or> dialer c' = dialer c1 \<and> calls c' = calls c1 @ [ScheduleMemoryRelease]"
proof -
  define c0 where "c0 = c\<lparr>tunGate := holdForTunStart (android env) (Some (tunOn cfg)) (isRunning c) (tunGate c)\<rparr>"
  have gate0: "gate_ok H c0" using assms by (simp add: c0_def holdForTunStart_ok)
  obtain c2 h where enter: "enterGate env (Some cfg) c0 = (c2, h)" by fastforce
  from enterGate_ok [OF gate0 this] obtain w
    where c2: "c2 = c0\<lparr>tunGate := w\<rparr>" "gate_ok (H \<union> set_option h) c2" "set_option h \<inter> H = {}"
    by blast
  obtain c1 where c1: "enactConfig env selected cfg c2 = (c1, cfg)" "gate_ok (H \<union> set_option h) c1"
      "landed env cfg c2 c1"
    using enactConfig_ok [OF c2(2)] by blast
  have land: "landed env cfg c c1"
    using c1(3) by (simp add: c2(1) c0_def landed_cong)
  obtain c6 where c6: "updateListeners env (Some cfg) c1 = Some c6" "gate_ok (H \<union> set_option h) c6"
    "isRunning c6 = isRunning c1" "isInit c6 = isInit c1" "currentConfig c6 = currentConfig c1"
    "tunEnabled c6 = (if isRunning c1 \<and> \<not> android env then tunOn cfg else tunEnabled c1)"
    "egressPin c6 = (if isRunning c1 \<and> \<not> android env then [] else egressPin c1)"
    "epoch (tracker c6) = epoch (tracker c1) +
       (if isRunning c1 \<and> \<not> android env \<and> tunEnabled c1 \<noteq> tunOn cfg then 1 else 0)"
    "DefaultInterface (dialer c6) =
       (if isRunning c1 \<and> \<not> android env then openedInterface env cfg (say (listenerCalls cfg) c1)
        else DefaultInterface (dialer c1))"
    "\<exists>ms. set ms \<subseteq> {ReCreateTun (TunOf (general cfg)), ResetConnection, ResetQuic} \<and>
       calls c6 = calls c1 @ (if isRunning c1 then listenerCalls cfg @ ms else [])"
    "isRunning c1 \<or> dialer c6 = dialer c1"
    by (rule updateListeners_ok [OF c1(2), of env cfg])
  define c7 where "c7 = say [ScheduleMemoryRelease] (c6\<lparr>geo := reconcileGeoUpdater (geo c6)\<rparr>)"
  have "gate_ok (H \<union> set_option h) c7" using c6(2) by (simp add: c7_def)
  then obtain w' where w': "releaseGate h c7 = Some (c7\<lparr>tunGate := w'\<rparr>)" "gate_ok H (c7\<lparr>tunGate := w'\<rparr>)"
    using releaseGate_ok [OF _ c2(3)] by blast
  have "landConfig env selected cfg c = Some (c7\<lparr>tunGate := w'\<rparr>)"
    by (simp add: landConfig_def Let_def c0_def [symmetric] enter c1(1) c6(1) c7_def [symmetric] w'(1))
  then show ?thesis
    by (rule that [OF _ w'(2) land])
      (use land c6 in \<open>(cases "isRunning c"; simp add: landed_def c7_def)+\<close>)
qed

text \<open>A patch changes the config, the options and what mihomo is told, nothing else.\<close>

definition keyOf :: "('x, 's, 'g) core \<Rightarrow>
    (bool \<times> bool \<times> bool \<times> string) \<times> dialerVars \<times> tunWorld \<times> nat list \<times> 's routeTracker" where
  "keyOf c = ((isRunning c, isInit c, tunEnabled c, egressPin c), dialer c, tunGate c, aftershocks c,
     tracker c)"

lemma keyOf_say [simp]: "keyOf (say ms c) = keyOf c"
  by (simp add: keyOf_def)

lemma keyOf_onConfig [simp]: "keyOf (onConfig f c) = keyOf c" "keyOf (onGeneral g c) = keyOf c"
  by (simp_all add: keyOf_def onConfig_def onGeneral_def)

lemma keyOf_patches [simp]:
  "keyOf (patchController params c) = keyOf c" "keyOf (applyOptions options c) = keyOf c"
  "keyOf (applyAuthentication us c) = keyOf c"
proof -
  have upd: "keyOf (c\<lparr>currentConfig := k\<rparr>) = keyOf c" "keyOf (c\<lparr>urls := u\<rparr>) = keyOf c"
    "keyOf (c\<lparr>skipCertVerify := b\<rparr>) = keyOf c" for c :: "('x, 's, 'g) core" and k u b
    by (simp_all add: keyOf_def)
  show "keyOf (patchController params c) = keyOf c"
    by (simp add: patchController_def Let_def upd split: option.split)
  show "keyOf (applyOptions options c) = keyOf c"
    by (simp add: applyOptions_def Let_def upd)
  show "keyOf (applyAuthentication us c) = keyOf c"
    by (simp add: applyAuthentication_def Let_def)
qed

lemma given_keeps: "(\<And>v c. F (f v c) = F c) \<Longrightarrow> F (given p f c) = F c"
  by (cases p) simp_all

lemma patchGeneral_key: "keyOf (patchGeneral params c) = keyOf c"
  unfolding patchGeneral_def Let_def
  by (simp add: given_keeps [where F = keyOf])

definition tunOnOf :: "('x, 's, 'g) core \<Rightarrow> bool option" where
  "tunOnOf c = map_option tunOn (currentConfig c)"

lemma tunOnOf_say [simp]: "tunOnOf (say ms c) = tunOnOf c"
  by (simp add: tunOnOf_def)

lemma tunOn_fun: "tunOn = (\<lambda>cfg. Enable (TunOf (general cfg)))"
  by (simp add: fun_eq_iff tunOn_def)

lemma tunOnOf_onGeneral [simp]:
  "(\<And>g. TunOf (f g) = TunOf g) \<Longrightarrow> tunOnOf (onGeneral f c) = tunOnOf c"
  "tunOnOf (onGeneral (\<lambda>g. g\<lparr>TunOf := patchTun p (TunOf g)\<rparr>) c) = map_option (\<lambda>_. ts_enable p) (tunOnOf c)"
  by (simp_all add: tunOnOf_def onGeneral_def onConfig_def option.map_comp o_def tunOn_fun)

lemma tunOnOf_patches [simp]:
  "tunOnOf (patchController params c) = tunOnOf c" "tunOnOf (applyOptions options c) = tunOnOf c"
  "tunOnOf (applyAuthentication us c) = tunOnOf c"
  by (simp_all add: patchController_def applyOptions_def applyAuthentication_def tunOnOf_def Let_def
      onConfig_def onGeneral_def option.map_comp o_def tunOn_fun split: option.split)

lemma patchGeneral_tunOn:
  "tunOnOf (patchGeneral params c) =
     (case up_tun params of None \<Rightarrow> tunOnOf c | Some p \<Rightarrow> map_option (\<lambda>_. ts_enable p) (tunOnOf c))"
  unfolding patchGeneral_def Let_def
  by (cases "up_tun params") (simp_all add: given_keeps [where F = tunOnOf])

lemma gate_ok_key: "keyOf c' = keyOf c \<Longrightarrow> gate_ok H c' = gate_ok H c"
  by (simp add: keyOf_def gate_ok_def)

text \<open>Whether the update turns the TUN on or off.\<close>

definition tunWanted :: "UpdateParams \<Rightarrow> 'x config \<Rightarrow> bool" where
  "tunWanted params cfg = (case up_tun params of None \<Rightarrow> tunOn cfg | Some p \<Rightarrow> ts_enable p)"

lemma updateConfig_ok:
  assumes "gate_ok H c" and "currentConfig c = Some cfg"
  obtains c' cfg' where "updateConfig env params c = Some (c', None)" "gate_ok H c'"
    "isRunning c' = isRunning c" "isInit c' = isInit c"
    "currentConfig c' = Some cfg'" "tunOn cfg' = tunWanted params cfg"
    "tunEnabled c' = (if isRunning c \<and> \<not> android env then tunOn cfg' else tunEnabled c)"
    "egressPin c' = (if isRunning c \<and> \<not> android env then [] else egressPin c)"
    "epoch (tracker c') = epoch (tracker c) +
       (if isRunning c \<and> \<not> android env \<and> tunEnabled c \<noteq> tunOn cfg' then 1 else 0) +
       (if patchChange params (general cfg) = RouteReset then 1 else 0)"
    "\<exists>ms. set ms \<subseteq> {ReCreateTun (TunOf (general cfg')), ResetConnection, ResetQuic} \<and>
       calls c' = calls (patchGeneral params c) @ (if isRunning c then listenerCalls cfg' @ ms else [])"
    "currentConfig (patchGeneral params c) = Some cfg'"
proof -
  define p where "p = patchGeneral params c"
  have key: "keyOf p = keyOf c" by (simp add: p_def patchGeneral_key)
  have on: "tunOnOf p = Some (tunWanted params cfg)"
    using patchGeneral_tunOn [of params c] assms(2)
    by (simp add: p_def tunWanted_def tunOnOf_def split: option.splits)
  then obtain cfg' where cfg': "currentConfig p = Some cfg'" "tunOn cfg' = tunWanted params cfg"
    by (auto simp: tunOnOf_def)
  have gate: "gate_ok H p" using assms(1) gate_ok_key [OF key] by simp
  obtain u where u: "updateListeners env (Some cfg') p = Some u" "gate_ok H u"
    "isRunning u = isRunning p" "isInit u = isInit p" "currentConfig u = currentConfig p"
    "tunEnabled u = (if isRunning p \<and> \<not> android env then tunOn cfg' else tunEnabled p)"
    "egressPin u = (if isRunning p \<and> \<not> android env then [] else egressPin p)"
    "epoch (tracker u) = epoch (tracker p) +
       (if isRunning p \<and> \<not> android env \<and> tunEnabled p \<noteq> tunOn cfg' then 1 else 0)"
    "\<exists>ms. set ms \<subseteq> {ReCreateTun (TunOf (general cfg')), ResetConnection, ResetQuic} \<and>
       calls u = calls p @ (if isRunning p then listenerCalls cfg' @ ms else [])"
    by (rule updateListeners_ok [OF gate, of env cfg'])
  define v where "v = u\<lparr>geo := syncGeoUpdater (up_geoAutoUpdate params) (up_geoUpdateInterval params)
      (fold (\<lambda>(geoType, link). setGeoResourceUrl geoType link) (up_geoXUrl params) (geo u))\<rparr>"
  define c' where "c' = (if patchChange params (general cfg) \<noteq> RouteUnchanged
    then moveRoute env (patchChange params (general cfg)) v else v)"
  have run: "updateConfig env params c = Some (c', None)"
    using assms(2) cfg'(1) u(1)
    by (simp add: updateConfig_def p_def [symmetric] c'_def v_def Let_def)
  have fields: "isRunning p = isRunning c" "isInit p = isInit c" "tunEnabled p = tunEnabled c"
    "egressPin p = egressPin c" "tracker p = tracker c"
    using key by (simp_all add: keyOf_def)
  show ?thesis
    by (rule that [OF run, of cfg'])
      (use u cfg' fields in \<open>simp_all add: c'_def v_def p_def [symmetric]\<close>)
qed

subsection \<open>Every order of calls\<close>

text \<open>
  The host's calls and the two timers: \<open>StartTimeout\<close> is the limit of a pending start, \<open>Aftershock\<close> the
  reset after a toggle. \<open>core_step\<close> runs one of them to its end, as \<open>configMu\<close> and the gates' own
  locks make it; a panic would be a call without a next state.
\<close>

datatype 'x hostCall =
    Init InitParams
  | Setup SetupParams "(string, 'x config) result" "'x config option"
  | Update UpdateParams
  | Start
  | Stop
  | Shutdown
  | NetworkChanged
  | StartTimeout
  | Aftershock nat

definition runCall ::
  "('x, 's, 'g) outside \<Rightarrow> 'x hostCall \<Rightarrow> ('x, 's, 'g) core \<Rightarrow> ('x, 's, 'g) core option" where
  "runCall env call c =
     (case call of
        Init params \<Rightarrow> Some (handleInit params c)
      | Setup params loaded fallback \<Rightarrow> map_option fst (handleSetupConfig env params loaded fallback c)
      | Update params \<Rightarrow> map_option fst (updateConfig env params c)
      | Start \<Rightarrow> handleStartListener env c
      | Stop \<Rightarrow> handleStopListener env c
      | Shutdown \<Rightarrow> handleShutdown env c
      | NetworkChanged \<Rightarrow> Some (handleNetworkChanged env c)
      | StartTimeout \<Rightarrow> endStart c
      | Aftershock h \<Rightarrow> if h \<in> set (aftershocks c) then aftershock env h c else Some c)"

definition initCore :: "dialerVars \<Rightarrow> 'g groups \<Rightarrow> testUrls \<Rightarrow> geoState \<Rightarrow> ('x, 's, 'g) core" where
  "initCore d gs u g = \<lparr>isInit = False, isRunning = False, tunEnabled = False, sdkVersion = 0,
     currentConfig = None, egressPin = [], dialer = d, tunGate = initTun, aftershocks = [],
     lastDefaultInterface = [], tracker = initTracker, callSeq = 0, sent = [], proxyGroups = gs,
     urls = u, skipCertVerify = False, geo = g, calls = []\<rparr>"

inductive core_reachable :: "('x, 's, 'g) outside \<Rightarrow> ('x, 's, 'g) core \<Rightarrow> bool"
  for env :: "('x, 's, 'g) outside" where
  boot: "core_reachable env (initCore d gs u g)"
| call: "core_reachable env c \<Longrightarrow> runCall env call c = Some c' \<Longrightarrow> core_reachable env c'"

definition core_inv :: "('x, 's, 'g) outside \<Rightarrow> ('x, 's, 'g) core \<Rightarrow> bool" where
  "core_inv env c \<longleftrightarrow>
     gate_ok {} c \<and>
     (tunEnabled c \<longleftrightarrow> isRunning c \<and> \<not> android env \<and> tunOnOf c = Some True) \<and>
     (egressPin c \<noteq> [] \<longrightarrow> \<not> android env \<and> (isRunning c \<longrightarrow> currentConfig c = None))"

lemma landed_pin: "landed env cfg c c1 \<Longrightarrow> egressPin c1 = egressPin c \<or> \<not> android env"
  by (auto simp: landed_def landedPin_def wantsEgressPin_def Let_def split: if_splits)

lemma core_inv_land:
  assumes "core_inv env c"
  obtains c' where "landConfig env selected cfg c = Some c'" "core_inv env c'"
proof -
  have "gate_ok {} c" using assms by (simp add: core_inv_def)
  then obtain c1 c' where c': "landConfig env selected cfg c = Some c'" "gate_ok {} c'" "landed env cfg c c1"
    "isRunning c' = isRunning c" "currentConfig c' = Some cfg"
    "tunEnabled c' = (if isRunning c \<and> \<not> android env then tunOn cfg else tunEnabled c)"
    "egressPin c' = (if isRunning c \<and> \<not> android env then [] else egressPin c1)"
    by (rule landConfig_ok [of _ _ env selected cfg])
  moreover have "core_inv env c'"
    using c' assms landed_pin [OF c'(3)] by (auto simp: core_inv_def tunOnOf_def)
  ultimately show ?thesis using that by blast
qed

lemma applyOptions_inv: "core_inv env (applyOptions options c) = core_inv env c"
  using keyOf_patches(2) [of options c] tunOnOf_patches(2) [of options c]
    gate_ok_key [of "applyOptions options c" c "{}"]
  by (auto simp: core_inv_def keyOf_def applyOptions_def Let_def)

lemma core_inv_setup:
  assumes "core_inv env c"
  obtains c' where "map_option fst (handleSetupConfig env params loaded fallback c) = Some c'" "core_inv env c'"
proof -
  let ?c = "applyOptions (Options params) c"
  have inv: "core_inv env ?c" using assms by (simp add: applyOptions_inv)
  show ?thesis
  proof (cases "isInit c")
    case False
    with that assms show ?thesis by (simp add: handleSetupConfig_def)
  next
    case True
    show ?thesis
    proof (cases loaded)
      case (Inr cfg)
      with True that show ?thesis
        by (rule_tac core_inv_land [OF inv, of "SelectedMap params" cfg])
          (simp add: handleSetupConfig_def applyConfig_def Let_def option.map_comp o_def)
    next
      case (Inl err)
      show ?thesis
      proof (cases fallback)
        case None
        with True Inl inv that show ?thesis
          by (simp add: handleSetupConfig_def applyConfig_def Let_def)
      next
        case (Some cfg)
        with True Inl that show ?thesis
          by (rule_tac core_inv_land [OF inv, of "SelectedMap params" cfg])
            (simp add: handleSetupConfig_def applyConfig_def Let_def option.map_comp o_def)
      qed
    qed
  qed
qed

lemma core_inv_update:
  assumes "core_inv env c"
  obtains c' where "map_option fst (updateConfig env params c) = Some c'" "core_inv env c'"
proof (cases "currentConfig c")
  case None
  with that assms show ?thesis by (simp add: updateConfig_def)
next
  case (Some cfg)
  have "gate_ok {} c" using assms by (simp add: core_inv_def)
  then obtain c' cfg' where c': "updateConfig env params c = Some (c', None)" "gate_ok {} c'"
    "isRunning c' = isRunning c" "currentConfig c' = Some cfg'"
    "tunEnabled c' = (if isRunning c \<and> \<not> android env then tunOn cfg' else tunEnabled c)"
    "egressPin c' = (if isRunning c \<and> \<not> android env then [] else egressPin c)"
    by (rule updateConfig_ok [OF _ Some, of _ env params])
  moreover have "core_inv env c'"
    using c' assms Some by (auto simp: core_inv_def tunOnOf_def)
  ultimately show ?thesis using that by simp
qed

text \<open>Starting, with and without a config.\<close>

lemma handleStart_ok:
  assumes "gate_ok H c"
  obtains c' where "handleStartListener env c = Some c'" "gate_ok H c'" "isRunning c'"
    "isInit c' = isInit c" "currentConfig c' = currentConfig c"
    "tunEnabled c' = (if \<not> android env \<and> currentConfig c \<noteq> None then tunOnOf c = Some True
       else tunEnabled c)"
    "egressPin c' = (if \<not> android env \<and> currentConfig c \<noteq> None then [] else egressPin c)"
    "epoch (tracker c') = epoch (tracker c) +
       (if tunEnabled c' \<noteq> tunEnabled c then 2 else 1)"
    "DefaultInterface (dialer c') =
       (case currentConfig c of
          None \<Rightarrow> DefaultInterface (dialer c)
        | Some cfg \<Rightarrow> if android env then DefaultInterface (dialer c)
            else openedInterface env cfg (say (listenerCalls cfg) c))"
proof -
  have gate: "gate_ok H (setRunning True c)" using assms by (simp add: setRunning_def)
  obtain c1 h where enter: "enterGate env (currentConfig c) (setRunning True c) = (c1, h)" by fastforce
  from enterGate_ok [OF gate this] obtain w where c1: "c1 = (setRunning True c)\<lparr>tunGate := w\<rparr>"
      "gate_ok (H \<union> set_option h) c1" "set_option h \<inter> H = {}"
    by blast
  have opened: "openedInterface env cfg (say ms (c1)) = openedInterface env cfg (say ms c)" for cfg ms
    by (simp add: openedInterface_def pinEgressNow_def wantsEgressPin_def c1(1) setRunning_def say_def
        Let_def)
  obtain c2 where c2: "updateListeners env (currentConfig c) c1 = Some c2" "gate_ok (H \<union> set_option h) c2"
    "isRunning c2" "isInit c2 = isInit c" "currentConfig c2 = currentConfig c"
    "tunEnabled c2 = (if \<not> android env \<and> currentConfig c \<noteq> None then tunOnOf c = Some True
       else tunEnabled c)"
    "egressPin c2 = (if \<not> android env \<and> currentConfig c \<noteq> None then [] else egressPin c)"
    "epoch (tracker c2) = epoch (tracker c) + (if tunEnabled c2 \<noteq> tunEnabled c then 1 else 0)"
    "DefaultInterface (dialer c2) =
       (case currentConfig c of
          None \<Rightarrow> DefaultInterface (dialer c)
        | Some cfg \<Rightarrow> if android env then DefaultInterface (dialer c)
            else openedInterface env cfg (say (listenerCalls cfg) c))"
  proof (cases "currentConfig c")
    case None
    show ?thesis
      by (rule that [of c1]) (use None c1 in \<open>simp_all add: updateListeners_def setRunning_def\<close>)
  next
    case (Some cfg)
    have fields: "isRunning c1" "isInit c1 = isInit c" "currentConfig c1 = currentConfig c"
      "tunEnabled c1 = tunEnabled c" "egressPin c1 = egressPin c" "tracker c1 = tracker c" "dialer c1 = dialer c"
      by (simp_all add: c1(1) setRunning_def)
    obtain u where u: "updateListeners env (Some cfg) c1 = Some u" "gate_ok (H \<union> set_option h) u"
      "isRunning u = isRunning c1" "isInit u = isInit c1" "currentConfig u = currentConfig c1"
      "tunEnabled u = (if isRunning c1 \<and> \<not> android env then tunOn cfg else tunEnabled c1)"
      "egressPin u = (if isRunning c1 \<and> \<not> android env then [] else egressPin c1)"
      "epoch (tracker u) = epoch (tracker c1) +
         (if isRunning c1 \<and> \<not> android env \<and> tunEnabled c1 \<noteq> tunOn cfg then 1 else 0)"
      "DefaultInterface (dialer u) =
         (if isRunning c1 \<and> \<not> android env then openedInterface env cfg (say (listenerCalls cfg) c1)
          else DefaultInterface (dialer c1))"
      by (rule updateListeners_ok [OF c1(2), of env cfg])
    show ?thesis
      by (rule that [of u]) (use Some opened fields u in \<open>simp_all add: tunOnOf_def split: if_splits\<close>)
  qed
  define c3 where "c3 = moveRoute env RouteReset (say [ResetConnection, ResetQuic] c2)"
  have "gate_ok (H \<union> set_option h) c3" using c2(2) by (simp add: c3_def)
  then obtain w3 where w3: "releaseGate h c3 = Some (c3\<lparr>tunGate := w3\<rparr>)" "gate_ok H (c3\<lparr>tunGate := w3\<rparr>)"
    using releaseGate_ok [OF _ c1(3)] by blast
  obtain w4 where w4: "endStart (c3\<lparr>tunGate := w3\<rparr>) = Some (c3\<lparr>tunGate := w3\<rparr>\<lparr>tunGate := w4\<rparr>)"
      "gate_ok H (c3\<lparr>tunGate := w3\<rparr>\<lparr>tunGate := w4\<rparr>)"
    using endStart_ok [OF w3(2)] by blast
  have same: "currentConfig (setRunning True c) = currentConfig c" "currentConfig c1 = currentConfig c"
    by (simp_all add: c1(1) setRunning_def)
  have "handleStartListener env c = Some (c3\<lparr>tunGate := w3\<rparr>\<lparr>tunGate := w4\<rparr>)"
    by (simp add: handleStartListener_def Let_def same enter c2(1) c3_def [symmetric] w3(1) w4(1)
        del: core.update_convs)
  then show ?thesis
    by (rule that [OF _ w4(2)]) (use c2 in \<open>simp_all add: c3_def\<close>)
qed

lemma handleStop_ok:
  assumes "gate_ok H c"
  obtains c' where "handleStopListener env c = Some c'" "gate_ok H c'" "\<not> isRunning c'"
    "\<not> tunEnabled c'" "egressPin c' = []" "currentConfig c' = currentConfig c"
    "epoch (tracker c') = epoch (tracker c)"
proof -
  have "gate_ok H (setRunning False c)" using assms by (simp add: setRunning_def)
  then obtain w where w: "endStart (setRunning False c) = Some ((setRunning False c)\<lparr>tunGate := w\<rparr>)"
      "gate_ok H ((setRunning False c)\<lparr>tunGate := w\<rparr>)"
    using endStart_ok by blast
  define c1 where "c1 = say [StopListener] (releaseEgress ((setRunning False c)\<lparr>tunGate := w\<rparr>))"
  define c' where "c' = say [ResetConnection] (c1\<lparr>dialer := on_stop env (dialer c1), tunEnabled := False\<rparr>)"
  have "handleStopListener env c = Some c'"
    by (simp add: handleStopListener_def w(1) Let_def c'_def c1_def)
  then show ?thesis
    by (rule that) (use w(2) in \<open>simp_all add: c'_def c1_def setRunning_def\<close>)
qed

lemma handleShutdown_ok:
  assumes "gate_ok H c"
  obtains c' where "handleShutdown env c = Some c'" "gate_ok H c'" "\<not> isRunning c'" "\<not> isInit c'"
    "\<not> tunEnabled c'" "egressPin c' = egressPin c" "currentConfig c' = None"
proof -
  obtain t seq where t: "stopRouteWatch (callSeq c) (tracker c) = (t, seq)" by fastforce
  define c1 where "c1 = setRunning False ((say [StopLog] c)\<lparr>tracker := t, callSeq := seq\<rparr>)"
  have "gate_ok H c1" using assms by (simp add: c1_def setRunning_def)
  then obtain w where w: "endStart c1 = Some (c1\<lparr>tunGate := w\<rparr>)" "gate_ok H (c1\<lparr>tunGate := w\<rparr>)"
    using endStart_ok by blast
  define c2 where "c2 = say [StopListener] (c1\<lparr>tunGate := w\<rparr>)"
  define c3 where "c3 = say [StopGeoUpdater, ExecutorShutdown]
    (c2\<lparr>dialer := on_stop env (dialer c2), tunEnabled := False\<rparr>)"
  define c' where "c' = say [InvalidateProxies]
    (c3\<lparr>geo := (geo c3)\<lparr>geo_registered := False\<rparr>, currentConfig := None, isInit := False\<rparr>)"
  have "handleShutdown env c = Some c'"
    by (simp add: handleShutdown_def t Let_def c1_def [symmetric] w(1))
      (simp add: c'_def c3_def c2_def)
  then show ?thesis
    by (rule that) (use w(2) in \<open>simp_all add: c'_def c3_def c2_def c1_def setRunning_def\<close>)
qed

lemma aftershock_ok:
  assumes "gate_ok {} c" and "h \<in> set (aftershocks c)"
  obtains c' where "aftershock env h c = Some c'" "gate_ok {} c'" "isRunning c' = isRunning c"
    "tunEnabled c' = tunEnabled c" "egressPin c' = egressPin c" "currentConfig c' = currentConfig c"
proof -
  define c1 where "c1 = moveRoute env RouteReset (say [ResetConnection, CloseQuic] c)"
  define c2 where "c2 = c1\<lparr>aftershocks := removeAll h (aftershocks c)\<rparr>"
  have "gate_ok ({} \<union> set_option (Some h)) c2"
    using assms by (auto simp: gate_ok_def c2_def c1_def)
  then obtain w where w: "releaseGate (Some h) c2 = Some (c2\<lparr>tunGate := w\<rparr>)" "gate_ok {} (c2\<lparr>tunGate := w\<rparr>)"
    using releaseGate_ok [of "{}" "Some h" c2] by auto
  have "aftershock env h c = Some (c2\<lparr>tunGate := w\<rparr>)"
    by (simp add: aftershock_def Let_def c1_def [symmetric] w(1) [unfolded c2_def])
      (simp add: c1_def c2_def w(1) [unfolded c2_def c1_def])
  then show ?thesis
    by (rule that) (use w(2) in \<open>simp_all add: c2_def c1_def\<close>)
qed

lemma runCall_inv:
  assumes "core_inv env c"
  obtains c' where "runCall env call c = Some c'" "core_inv env c'"
proof -
  have gate: "gate_ok {} c" using assms by (simp add: core_inv_def)
  have "\<exists>c'. runCall env call c = Some c' \<and> core_inv env c'"
  proof (cases call)
    case (Init params)
    have "core_inv env (handleInit params c)"
      using assms by (simp add: handleInit_def Let_def core_inv_def tunOnOf_def say_def)
    with Init show ?thesis by (simp add: runCall_def)
  next
    case (Setup params loaded fallback)
    obtain c' where "map_option fst (handleSetupConfig env params loaded fallback c) = Some c'"
        "core_inv env c'"
      by (rule core_inv_setup [OF assms])
    with Setup show ?thesis by (auto simp: runCall_def)
  next
    case (Update params)
    obtain c' where "map_option fst (updateConfig env params c) = Some c'" "core_inv env c'"
      by (rule core_inv_update [OF assms])
    with Update show ?thesis by (auto simp: runCall_def)
  next
    case Start
    obtain c' where c': "handleStartListener env c = Some c'" "gate_ok {} c'" "isRunning c'"
      "currentConfig c' = currentConfig c"
      "tunEnabled c' = (if \<not> android env \<and> currentConfig c \<noteq> None then tunOnOf c = Some True
         else tunEnabled c)"
      "egressPin c' = (if \<not> android env \<and> currentConfig c \<noteq> None then [] else egressPin c)"
      by (rule handleStart_ok [OF gate, of env])
    then have "core_inv env c'"
      using assms by (auto simp: core_inv_def tunOnOf_def split: if_splits)
    with Start c'(1) show ?thesis by (simp add: runCall_def)
  next
    case Stop
    obtain c' where c': "handleStopListener env c = Some c'" "gate_ok {} c'" "\<not> isRunning c'"
      "\<not> tunEnabled c'" "egressPin c' = []"
      by (rule handleStop_ok [OF gate, of env])
    then have "core_inv env c'" by (simp add: core_inv_def)
    with Stop c'(1) show ?thesis by (simp add: runCall_def)
  next
    case Shutdown
    obtain c' where c': "handleShutdown env c = Some c'" "gate_ok {} c'" "\<not> isRunning c'"
      "\<not> tunEnabled c'" "egressPin c' = egressPin c"
      by (rule handleShutdown_ok [OF gate, of env])
    then have "core_inv env c'" using assms by (simp add: core_inv_def)
    with Shutdown c'(1) show ?thesis by (simp add: runCall_def)
  next
    case NetworkChanged
    have "core_inv env (handleNetworkChanged env c)"
      using assms by (simp add: handleNetworkChanged_def defaultInterfaceMoved_def resetNetworkState_def
          core_inv_def tunOnOf_def Let_def)
    with NetworkChanged show ?thesis by (simp add: runCall_def)
  next
    case StartTimeout
    obtain w where "endStart c = Some (c\<lparr>tunGate := w\<rparr>)" "gate_ok {} (c\<lparr>tunGate := w\<rparr>)"
      using endStart_ok [OF gate] by blast
    with assms StartTimeout show ?thesis
      by (auto simp: runCall_def core_inv_def tunOnOf_def)
  next
    case (Aftershock h)
    show ?thesis
    proof (cases "h \<in> set (aftershocks c)")
      case False
      with Aftershock assms show ?thesis by (simp add: runCall_def)
    next
      case True
      obtain c' where c': "aftershock env h c = Some c'" "gate_ok {} c'" "isRunning c' = isRunning c"
        "tunEnabled c' = tunEnabled c" "egressPin c' = egressPin c" "currentConfig c' = currentConfig c"
        by (rule aftershock_ok [OF gate True])
      then have "core_inv env c'" using assms by (simp add: core_inv_def tunOnOf_def)
      with Aftershock True c'(1) show ?thesis by (simp add: runCall_def)
    qed
  qed
  with that show ?thesis by blast
qed

lemma reachable_inv: "core_reachable env c \<Longrightarrow> core_inv env c"
proof (induction rule: core_reachable.induct)
  case (boot d gs u g)
  have "tun_inv initTun"
    by (simp add: tun_reachable_inv tun_reachable.start)
  then show ?case
    by (simp add: core_inv_def gate_ok_def initCore_def tunOnOf_def) (simp add: initTun_def)
next
  case (call c call c')
  then show ?case using runCall_inv [of env c call] by auto
qed

subsection \<open>The properties\<close>


text \<open>The calls after which an earlier answer no longer stands.\<close>

definition outdates :: "('x, 's, 'g) outside \<Rightarrow> 'x hostCall \<Rightarrow> ('x, 's, 'g) core \<Rightarrow> bool" where
  "outdates env call c =
     (case call of
        Start \<Rightarrow> True
      | Setup params loaded fallback \<Rightarrow> isInit c \<and> (is_ok loaded \<or> fallback \<noteq> None)
      | Update params \<Rightarrow>
          (case currentConfig c of
             None \<Rightarrow> False
           | Some cfg \<Rightarrow>
               isRunning c \<and> \<not> android env \<and> tunWanted params cfg \<noteq> tunEnabled c \<or>
               (case up_ipv6 params of None \<Rightarrow> False | Some b \<Rightarrow> IPv6 (general cfg) \<noteq> b))
      | NetworkChanged \<Rightarrow> \<not> tunEnabled c \<or> fst (defaultInterfaceMoved env c)
      | Aftershock h \<Rightarrow> h \<in> set (aftershocks c)
      | _ \<Rightarrow> False)"

lemma patchChange_reset:
  "patchChange params g = RouteReset \<longleftrightarrow>
     (case up_ipv6 params of None \<Rightarrow> False | Some b \<Rightarrow> IPv6 g \<noteq> b)"
  by (simp add: patchChange_def split: option.split)

lemma setup_runs:
  "runCall env (Setup params loaded fallback) c =
     (if \<not> isInit c then Some c
      else (let c = applyOptions (Options params) c in
            case (case loaded of Inr cfg \<Rightarrow> Some cfg | Inl _ \<Rightarrow> fallback) of
              None \<Rightarrow> Some c
            | Some cfg \<Rightarrow> landConfig env (SelectedMap params) cfg c))"
  by (auto simp: runCall_def handleSetupConfig_def applyConfig_def Let_def option.map_comp o_def
      option.map_id0 [unfolded id_def] split: sum.split option.split)

lemma applyOptions_fields [simp]:
  "tracker (applyOptions options c) = tracker c" "isRunning (applyOptions options c) = isRunning c"
  "egressPin (applyOptions options c) = egressPin c" "gate_ok H (applyOptions options c) = gate_ok H c"
  using keyOf_patches(2) [of options c] gate_ok_key [OF keyOf_patches(2), of H options c]
  by (simp_all add: keyOf_def)

lemma word_plus_small [simp]:
  "(e :: u64) + 1 \<noteq> e" "(e :: u64) + 2 \<noteq> e" "(e :: u64) + 1 + 1 \<noteq> e"
  by simp_all

lemma epoch_setup:
  assumes gate: "gate_ok {} c" and Setup: "call = Setup params loaded fallback" and run: "runCall env call c = Some c'"
  shows "epoch (tracker c') \<noteq> epoch (tracker c) \<longleftrightarrow> outdates env call c"
proof -
  let ?c = "applyOptions (Options params) c"
  let ?found = "case loaded of Inr cfg \<Rightarrow> Some cfg | Inl _ \<Rightarrow> fallback"
  have found: "?found \<noteq> None \<longleftrightarrow> is_ok loaded \<or> fallback \<noteq> None" by (cases loaded) auto
  show ?thesis
  proof (cases "isInit c \<and> ?found \<noteq> None")
    case False
    then have "tracker c' = tracker c"
      using run Setup by (cases "isInit c") (auto simp: setup_runs Let_def split: option.splits)
    with False Setup found show ?thesis
      unfolding outdates_def by auto
  next
    case True
    then obtain cfg where cfg: "?found = Some cfg" by auto
    have "gate_ok {} ?c" using gate by simp
    then obtain c1 where "landConfig env (SelectedMap params) cfg ?c = Some c1"
      "epoch (tracker c1) = epoch (tracker ?c) +
         (if isRunning ?c \<and> \<not> android env \<and> tunEnabled ?c \<noteq> tunOn cfg then 2 else 1)"
      by (rule landConfig_ok [of _ _ env "SelectedMap params" cfg])
    with run Setup True cfg found show ?thesis
      unfolding outdates_def by (auto simp: setup_runs Let_def)
  qed
qed

lemma epoch_update:
  assumes gate: "gate_ok {} c" and Update: "call = Update params" and run: "runCall env call c = Some c'"
  shows "epoch (tracker c') \<noteq> epoch (tracker c) \<longleftrightarrow> outdates env call c"
proof (cases "currentConfig c")
  case None
  with run Update show ?thesis by (auto simp: runCall_def updateConfig_def outdates_def)
next
  case (Some cfg)
  obtain c1 cfg' where "updateConfig env params c = Some (c1, None)"
    "currentConfig c1 = Some cfg'" "tunOn cfg' = tunWanted params cfg"
    "epoch (tracker c1) = epoch (tracker c) +
       (if isRunning c \<and> \<not> android env \<and> tunEnabled c \<noteq> tunOn cfg' then 1 else 0) +
       (if patchChange params (general cfg) = RouteReset then 1 else 0)"
    by (rule updateConfig_ok [OF gate Some, of env params])
  with run Update Some show ?thesis
    by (auto simp: runCall_def outdates_def patchChange_reset split: if_splits)
qed

text \<open>
  \<^bold>\<open>C19.\<close> The epoch, by which the host tells answers that no longer stand, moves exactly with a start, a
  config that lands (also the built-in default in place of a rejected one), a TUN that goes up or
  down with an update, a change of IPv6, a network that changed, and an aftershock; every other
  call leaves it, and the answers from before stand.
\<close>

theorem epoch_outdates:
  assumes "core_reachable env c" and "runCall env call c = Some c'"
  shows "epoch (tracker c') \<noteq> epoch (tracker c) \<longleftrightarrow> outdates env call c"
proof -
  have inv: "core_inv env c" using assms(1) by (rule reachable_inv)
  then have gate: "gate_ok {} c" by (simp add: core_inv_def)
  show ?thesis
  proof (cases call)
    case (Init params)
    with assms(2) show ?thesis by (auto simp: runCall_def handleInit_def outdates_def say_def Let_def)
  next
    case (Setup params loaded fallback)
    from epoch_setup [OF gate this assms(2)] show ?thesis .
  next
    case (Update params)
    from epoch_update [OF gate this assms(2)] show ?thesis .
  next
    case Start
    obtain c1 where "handleStartListener env c = Some c1"
      "epoch (tracker c1) = epoch (tracker c) + (if tunEnabled c1 \<noteq> tunEnabled c then 2 else 1)"
      by (rule handleStart_ok [OF gate, of env])
    with assms(2) Start show ?thesis by (simp add: runCall_def outdates_def)
  next
    case Stop
    obtain c1 where "handleStopListener env c = Some c1" "epoch (tracker c1) = epoch (tracker c)"
      by (rule handleStop_ok [OF gate, of env])
    with assms(2) Stop show ?thesis by (simp add: runCall_def outdates_def)
  next
    case Shutdown
    with assms(2) show ?thesis
      by (auto simp: runCall_def outdates_def handleShutdown_def endStart_def stopRouteWatch_def
          setRunning_def Let_def)
  next
    case NetworkChanged
    with assms(2) have "c' = handleNetworkChanged env c" by (simp add: runCall_def)
    with NetworkChanged show ?thesis
      by (cases "tunEnabled c"; cases "fst (defaultInterfaceMoved env c)")
        (simp_all add: outdates_def handleNetworkChanged_def defaultInterfaceMoved_def
          resetNetworkState_def Let_def)
  next
    case StartTimeout
    with assms(2) show ?thesis by (auto simp: runCall_def outdates_def endStart_def)
  next
    case (Aftershock h)
    with assms(2) show ?thesis
      by (auto simp: runCall_def outdates_def aftershock_def releaseGate_def Let_def split: if_splits)
  qed
qed

text \<open>
  The contract of the dialer: the executor stores the config's interface (\<open>egress_test.go\<close> states it),
  and neither making the TUN nor stopping writes the variable.
\<close>

definition lawful :: "('x, 's, 'g) outside \<Rightarrow> bool" where
  "lawful env \<longleftrightarrow>
     (\<forall>cfg d. DefaultInterface (on_apply env cfg d) = Interface (general cfg)) \<and>
     (\<forall>tun d. DefaultInterface (on_tun env tun d) = DefaultInterface d) \<and>
     (\<forall>d. DefaultInterface (on_stop env d) = DefaultInterface d)"

lemma openedInterface_cases:
  assumes "lawful env"
  shows "openedInterface env cfg (say ms c) =
    (let pin = (if wantsEgressPin env (Some cfg) c then findEgress env (calls c @ ms) cfg else []);
         held = (if pin = [] then egressPin c else pin);
         bound = (if pin \<noteq> [] \<and> DefaultInterface (dialer c) = [] then pin else DefaultInterface (dialer c))
     in if held \<noteq> [] \<and> bound = held then [] else bound)"
  using assms
  by (simp add: openedInterface_def lawful_def pinEgressNow_def wantsEgressPin_def Let_def)


text \<open>What mihomo was last told of the prefixes that need no credentials, and of the users.\<close>

definition skipsIn :: "'x mihomoCall list \<Rightarrow> prefix list list" where
  "skipsIn ms = List.map_filter (\<lambda>m. case m of SetSkipAuthPrefixes ps \<Rightarrow> Some ps | _ \<Rightarrow> None) ms"

definition usersIn :: "'x mihomoCall list \<Rightarrow> authUser list list" where
  "usersIn ms = List.map_filter (\<lambda>m. case m of SetAuthenticator us \<Rightarrow> Some us | _ \<Rightarrow> None) ms"

lemma map_filter_append: "List.map_filter f (xs @ ys) = List.map_filter f xs @ List.map_filter f ys"
  by (induction xs) (auto simp: map_filter_simps split: option.split)

lemma skipsIn_simps [simp]:
  "skipsIn [] = []" "skipsIn (ms @ ns) = skipsIn ms @ skipsIn ns"
  "skipsIn (m # ms) = (case m of SetSkipAuthPrefixes ps \<Rightarrow> [ps] | _ \<Rightarrow> []) @ skipsIn ms"
  by (simp_all add: skipsIn_def map_filter_append map_filter_simps split: mihomoCall.split)

lemma usersIn_simps [simp]:
  "usersIn [] = []" "usersIn (ms @ ns) = usersIn ms @ usersIn ns"
  "usersIn (m # ms) = (case m of SetAuthenticator us \<Rightarrow> [us] | _ \<Rightarrow> []) @ usersIn ms"
  by (simp_all add: usersIn_def map_filter_append map_filter_simps split: mihomoCall.split)

lemma tunCalls_silent:
  "set ms \<subseteq> {ReCreateTun t, ResetConnection, ResetQuic} \<Longrightarrow> skipsIn ms = [] \<and> usersIn ms = []"
  by (induction ms) auto

lemma listenerCalls_skips [simp]:
  "skipsIn (listenerCalls cfg) = [SkipAuthPrefixes (general cfg)]" "usersIn (listenerCalls cfg) = []"
  by (simp_all add: listenerCalls_def Let_def)

lemma patchController_only:
  "patchController (params\<lparr>up_authentication := a, up_options := o'\<rparr>) c = patchController params c"
  by (simp add: patchController_def Let_def cong: option.case_cong)

lemma patched_authentication:
  assumes "currentConfig c = Some cfg" and "up_authentication params = Some ls"
  obtains k where "patchGeneral params c = given (up_options params) applyOptions (applyAuthentication ls k)"
    "currentConfig k \<noteq> None"
proof -
  let ?k = "patchGeneral (params\<lparr>up_authentication := None, up_options := None\<rparr>) c"
  have "patchGeneral params c = given (up_options params) applyOptions (applyAuthentication ls ?k)"
    using assms(2) by (simp add: patchGeneral_def Let_def patchController_only)
  moreover have "tunOnOf ?k \<noteq> None"
    unfolding patchGeneral_tunOn using assms(1) by (simp add: tunOnOf_def split: option.split)
  then have "currentConfig ?k \<noteq> None" by (auto simp: tunOnOf_def)
  ultimately show ?thesis using that by blast
qed

lemma applyAuthentication_told:
  assumes "currentConfig k = Some cfg" and "parseUsers ls \<noteq> []"
  shows "\<exists>cfg'. currentConfig (given o' applyOptions (applyAuthentication ls k)) = Some cfg' \<and>
      SkipAuthPrefixes (general cfg') = [] \<and> users cfg' = parseUsers ls" (is ?cfg)
    and "\<exists>ms ns. calls (given o' applyOptions (applyAuthentication ls k)) =
      ms @ [SetAuthenticator (parseUsers ls), SetSkipAuthPrefixes []] @ ns \<and>
      skipsIn ns = [] \<and> usersIn ns = []" (is ?told)
proof -
  show ?cfg
    using assms by (cases o')
      (auto simp: applyAuthentication_def applyOptions_def onGeneral_def onConfig_def Let_def)
  show ?told
    using assms(2)
    by (intro exI [of _ "calls k"] exI [of _ "case o' of None \<Rightarrow> []
          | Some opts \<Rightarrow> [SetDefaultTestTimeout (timeoutFromMillis (DelayTestTimeout opts) 0)]"])
      (simp add: applyAuthentication_def applyOptions_def onGeneral_def onConfig_def Let_def
        split: option.split)
qed

text \<open>
  An update that sets at least one user closes the exemption for local addresses: the config
  carries exactly the users of the lines with a colon, in order, mihomo was last told the same
  users, and both the config and the last prefixes mihomo was told exempt nothing, whether or not
  the listeners run.
\<close>

lemma credentials_close_loopback:
  assumes "core_reachable env c" and "currentConfig c = Some cfg"
    and "up_authentication params = Some ls" and "parseUsers ls \<noteq> []"
    and "runCall env (Update params) c = Some c'"
  shows "\<exists>cfg'. currentConfig c' = Some cfg' \<and>
    users cfg' = parseUsers ls \<and> SkipAuthPrefixes (general cfg') = [] \<and>
    usersIn (calls c') \<noteq> [] \<and> last (usersIn (calls c')) = parseUsers ls \<and>
    skipsIn (calls c') \<noteq> [] \<and> last (skipsIn (calls c')) = []"
proof -
  have gate: "gate_ok {} c" using reachable_inv [OF assms(1)] by (simp add: core_inv_def)
  obtain d cfg' where d: "updateConfig env params c = Some (d, None)" "currentConfig d = Some cfg'"
    "\<exists>ms. set ms \<subseteq> {ReCreateTun (TunOf (general cfg')), ResetConnection, ResetQuic} \<and>
       calls d = calls (patchGeneral params c) @ (if isRunning c then listenerCalls cfg' @ ms else [])"
    "currentConfig (patchGeneral params c) = Some cfg'"
    by (rule updateConfig_ok [OF gate assms(2), of env params])
  have c': "c' = d" using assms(5) d(1) by (simp add: runCall_def)
  obtain k where k: "patchGeneral params c = given (up_options params) applyOptions (applyAuthentication ls k)"
    "currentConfig k \<noteq> None"
    by (rule patched_authentication [OF assms(2,3)])
  then obtain kc where kc: "currentConfig k = Some kc" by auto
  have cfg': "SkipAuthPrefixes (general cfg') = []" "users cfg' = parseUsers ls"
    using applyAuthentication_told(1) [OF kc assms(4), of "up_options params"] k(1) d(4) by auto
  obtain ms ns where told: "calls (patchGeneral params c) =
      ms @ [SetAuthenticator (parseUsers ls), SetSkipAuthPrefixes []] @ ns"
      "skipsIn ns = []" "usersIn ns = []"
    using applyAuthentication_told(2) [OF kc assms(4), of "up_options params"] k(1) by auto
  obtain ts where ts: "skipsIn ts = []" "usersIn ts = []"
      "calls d = calls (patchGeneral params c) @ (if isRunning c then listenerCalls cfg' @ ts else [])"
    using d(3) tunCalls_silent by blast
  show ?thesis
    using cfg' told ts d(2) unfolding c' by simp
qed

subsection \<open>A concrete run\<close>

text \<open>
  A desktop whose routing table is asked through \<open>which\<close>, a config with the TUN on or off and an
  interface named or not, and a boot followed by \<open>core.init\<close>.
\<close>

definition desk :: "(unit mihomoCall list \<Rightarrow> string) \<Rightarrow> (unit, unit, unit) outside" where
  "desk which = \<lparr>android = False, egressPinPlatform = True, findEgress = (\<lambda>ms cfg. which ms),
     on_apply = (\<lambda>cfg d. d\<lparr>DefaultInterface := Interface (general cfg)\<rparr>),
     on_tun = (\<lambda>tun d. d\<lparr>finderSet := Enable tun\<rparr>), on_stop = (\<lambda>d. d\<lparr>finderSet := False\<rparr>),
     shownTunnel = (\<lambda>ms gs. \<lparr>tv_proxies = [], tv_providers = [], tv_ruleProviders = []\<rparr>),
     groupsOf = (\<lambda>cfg. []), groupsApi = \<lparr>ga_now = (\<lambda>g. []), ga_set = (\<lambda>n g. Inr g), ga_force = (\<lambda>n g. g)\<rparr>,
     upInterface = (\<lambda>ms. None)\<rparr>"

definition deskConfig :: "bool \<Rightarrow> string \<Rightarrow> unit config" where
  "deskConfig tun iface = \<lparr>general = \<lparr>Port = 0, SocksPort = 0, RedirPort = 0, TProxyPort = 0,
       MixedPort = 7890, ShadowSocksConfig = [], VmessConfig = [], TuicServer = (), AllowLan = False,
       BindAddress = ''*'', SkipAuthPrefixes = [\<lparr>prefixAddr = Addr4 0x7F000000, prefixBits = 8\<rparr>],
       LanAllowedIPs = [], LanDisAllowedIPs = [], Authentication = [], Interface = iface,
       TunOf = \<lparr>Enable = tun, Device = ''utun'', Stack = 0, AutoRoute = True,
         AutoDetectInterface = True, InetAddress = []\<rparr>,
       Mode = 1, LogLevel = 1, IPv6 = False, FindProcessMode = 0, TCPConcurrent = False,
       UnifiedDelay = False\<rparr>,
     controller = \<lparr>ExternalController = [], ExternalControllerTLS = [], ExternalControllerUnix = [],
       ExternalControllerPipe = [], ExternalControllerRoutingMark = 0, ExternalDohServer = [],
       Secret = [], AllowOrigins = [], AllowPrivateNetwork = False\<rparr>,
     tlsOf = None, listenersOf = (), users = [], WriteToSystem = False\<rparr>"

definition bootCore :: "(unit, unit, unit) core" where
  "bootCore = handleInit \<lparr>HomeDir = ''/h'', Version = 0\<rparr>
     (initCore \<lparr>DefaultInterface = [], finderSet = False\<rparr> [] \<lparr>testURL = None, mihomoTestURL = []\<rparr>
       \<lparr>geo_claims = [], geo_urls = [], geo_autoUpdate = False, geo_interval = 24,
         geo_registered = False, geo_warnings = 0\<rparr>)"

definition plainSetup :: SetupParams where
  "plainSetup = \<lparr>SelectedMap = [], Options = \<lparr>TestURL = [], SkipCertVerify = False, DelayTestTimeout = 0\<rparr>\<rparr>"

lemma desk_lawful: "lawful (desk which)"
  by (simp add: lawful_def desk_def)

lemma deskConfig_simps [simp]:
  "tunOn (deskConfig tun iface) = tun" "Interface (general (deskConfig tun iface)) = iface"
  "AutoDetectInterface (TunOf (general (deskConfig tun iface)))"
  "Enable (TunOf (general (deskConfig tun iface))) = tun"
  by (simp_all add: deskConfig_def tunOn_def)

lemma desk_simps [simp]:
  "\<not> android (desk which)" "egressPinPlatform (desk which)" "findEgress (desk which) ms cfg = which ms"
  by (simp_all add: desk_def)

lemma bootCore_reachable: "core_reachable (desk which) bootCore"
proof -
  have "runCall (desk which) (Init \<lparr>HomeDir = ''/h'', Version = 0\<rparr>)
      (initCore \<lparr>DefaultInterface = [], finderSet = False\<rparr> [] \<lparr>testURL = None, mihomoTestURL = []\<rparr>
       \<lparr>geo_claims = [], geo_urls = [], geo_autoUpdate = False, geo_interval = 24,
         geo_registered = False, geo_warnings = 0\<rparr>) = Some bootCore"
    by (simp add: runCall_def bootCore_def)
  then show ?thesis by (rule core_reachable.call [OF core_reachable.boot])
qed

lemma bootCore_simps [simp]:
  "isInit bootCore" "\<not> isRunning bootCore" "currentConfig bootCore = None" "egressPin bootCore = []"
  "dialer bootCore = \<lparr>DefaultInterface = [], finderSet = False\<rparr>" "gate_ok {} bootCore"
  "calls bootCore = [SetHomeDir ''/h'', InitOwnership ''/h'', ClearSpilled]"
  using reachable_inv [OF bootCore_reachable]
  by (simp_all add: core_inv_def) (simp_all add: bootCore_def handleInit_def initCore_def say_def Let_def)

text \<open>Setting a config up and starting it, as two calls of the host.\<close>

definition setupCall :: "unit config \<Rightarrow> unit hostCall" where
  "setupCall cfg = Setup plainSetup (Inr cfg) None"

lemma setup_started:
  obtains c where "core_reachable (desk which) c" "isRunning c" "currentConfig c = Some cfg"
proof -
  have inv: "core_inv (desk which) bootCore" by (rule reachable_inv [OF bootCore_reachable])
  let ?c = "applyOptions (Options plainSetup) bootCore"
  have "gate_ok {} ?c" by simp
  then obtain c1 where c1: "landConfig (desk which) (SelectedMap plainSetup) cfg ?c = Some c1"
      "currentConfig c1 = Some cfg"
    by (rule landConfig_ok [of _ _ "desk which" "SelectedMap plainSetup" cfg])
  then have "runCall (desk which) (setupCall cfg) bootCore = Some c1"
    by (simp add: setupCall_def setup_runs Let_def)
  then have r1: "core_reachable (desk which) c1"
    by (rule core_reachable.call [OF bootCore_reachable])
  have "gate_ok {} c1" using reachable_inv [OF r1] by (simp add: core_inv_def)
  then obtain c2 where c2: "handleStartListener (desk which) c1 = Some c2" "isRunning c2"
      "currentConfig c2 = currentConfig c1"
    by (rule handleStart_ok [of _ _ "desk which"])
  then have "runCall (desk which) Start c1 = Some c2" by (simp add: runCall_def)
  then have "core_reachable (desk which) c2" by (rule core_reachable.call [OF r1])
  with c2 c1(2) that show ?thesis by simp
qed


lemma epoch_outdates_witness:
  "\<exists>c. runCall (desk (\<lambda>ms. ''eth0'')) (setupCall (deskConfig True [])) bootCore = Some c \<and>
     epoch (tracker c) \<noteq> epoch (tracker bootCore)"
proof -
  obtain c where c: "runCall (desk (\<lambda>ms. ''eth0'')) (setupCall (deskConfig True [])) bootCore = Some c"
    by (rule runCall_inv [OF reachable_inv [OF bootCore_reachable]])
  with epoch_outdates [OF bootCore_reachable c] show ?thesis
    by (auto simp: outdates_def setupCall_def)
qed


definition twoUsers :: UpdateParams where
  "twoUsers = \<lparr>up_tun = None, up_allowLan = None, up_mixedPort = None, up_findProcessMode = None,
     up_mode = None, up_logLevel = None, up_ipv6 = None, up_tcpConcurrent = None,
     up_externalController = None, up_secret = None, up_unifiedDelay = None,
     up_authentication = Some [''a:b:c'', ''none''], up_geoAutoUpdate = None,
     up_geoUpdateInterval = None, up_geoXUrl = [], up_options = None\<rparr>"

lemma parse_twoUsers: "parseUsers [''a:b:c'', ''none''] = [\<lparr>User = ''a'', Pass = ''b:c''\<rparr>]"
  by (simp add: parseUsers_def cutColon_def map_filter_simps)

subsection \<open>Where a pin outlives its window\<close>

text \<open>
  \<open>pin_is_transient\<close> needs the system to keep answering the same interface. A config applied to a
  stopped core pins the interface of that moment; if another one answers when the core starts, the
  start forgets the first pin, binds nothing new and releases only its own: the dialer stays bound
  to the old interface with the TUN up.
\<close>

lemma stale_pin_survives:
  "\<exists>which c1 c2. landConfig (desk which) [] (deskConfig True []) bootCore = Some c1 \<and>
     handleStartListener (desk which) c1 = Some c2 \<and>
     Interface (general (deskConfig True [])) = [] \<and> egressPin c2 = [] \<and>
     DefaultInterface (dialer c2) = ''wlan0''"
proof -
  let ?which = "\<lambda>ms :: unit mihomoCall list. if length ms \<le> 3 then ''wlan0'' else ''eth0''"
  let ?env = "desk ?which" and ?cfg = "deskConfig True []"
  obtain b c1 where c1: "landConfig ?env [] ?cfg bootCore = Some c1" "gate_ok {} c1"
    "landed ?env ?cfg bootCore b" "currentConfig c1 = Some ?cfg"
    "isRunning bootCore \<or> dialer c1 = dialer b \<and> calls c1 = calls b @ [ScheduleMemoryRelease]"
    by (rule landConfig_ok [OF bootCore_simps(6)])
  have pin: "landedPin ?env ?cfg bootCore = ''wlan0''"
    by (simp add: landedPin_def wantsEgressPin_def)
  have d: "dialer c1 = \<lparr>DefaultInterface = ''wlan0'', finderSet = False\<rparr>" "length (calls c1) = 5"
    using c1(3,5) pin by (auto simp: landed_def applied_def desk_def)
  obtain c2 where c2: "handleStartListener ?env c1 = Some c2"
    "egressPin c2 = (if \<not> android ?env \<and> currentConfig c1 \<noteq> None then [] else egressPin c1)"
    "DefaultInterface (dialer c2) = (case currentConfig c1 of None \<Rightarrow> DefaultInterface (dialer c1)
       | Some cfg \<Rightarrow> if android ?env then DefaultInterface (dialer c1)
           else openedInterface ?env cfg (say (listenerCalls cfg) c1))"
    by (rule handleStart_ok [OF c1(2), of ?env])
  have "openedInterface ?env ?cfg (say (listenerCalls ?cfg) c1) = ''wlan0''"
    by (simp add: openedInterface_cases [OF desk_lawful] wantsEgressPin_def d)
  with c1(1,4) c2 show ?thesis by fastforce
qed

text \<open>
  A pin set for a config with the TUN on is not dropped when a config with the TUN off lands before
  the start; if that config names the same interface, the start clears it.
\<close>

lemma named_interface_cleared:
  "\<exists>c1 c2 c3. landConfig (desk (\<lambda>ms. ''eth0'')) [] (deskConfig True []) bootCore = Some c1 \<and>
     landConfig (desk (\<lambda>ms. ''eth0'')) [] (deskConfig False ''eth0'') c1 = Some c2 \<and>
     handleStartListener (desk (\<lambda>ms. ''eth0'')) c2 = Some c3 \<and>
     map_option (\<lambda>cfg. Interface (general cfg)) (currentConfig c3) = Some ''eth0'' \<and>
     DefaultInterface (dialer c3) = []"
proof -
  let ?env = "desk (\<lambda>ms. ''eth0'')" and ?on = "deskConfig True []" and ?off = "deskConfig False ''eth0''"
  obtain b1 c1 where c1: "landConfig ?env [] ?on bootCore = Some c1" "gate_ok {} c1"
    "landed ?env ?on bootCore b1" "isRunning c1 = isRunning bootCore"
    "egressPin c1 = (if isRunning bootCore \<and> \<not> android ?env then [] else egressPin b1)"
    by (rule landConfig_ok [OF bootCore_simps(6)])
  have pin: "landedPin ?env ?on bootCore = ''eth0''"
    by (simp add: landedPin_def wantsEgressPin_def)
  have e1: "egressPin c1 = ''eth0''" using c1(3,5) pin by (simp add: landed_def)
  obtain b2 c2 where c2: "landConfig ?env [] ?off c1 = Some c2" "gate_ok {} c2"
    "landed ?env ?off c1 b2" "currentConfig c2 = Some ?off"
    "egressPin c2 = (if isRunning c1 \<and> \<not> android ?env then [] else egressPin b2)"
    "isRunning c1 \<or> dialer c2 = dialer b2 \<and> calls c2 = calls b2 @ [ScheduleMemoryRelease]"
    by (rule landConfig_ok [OF c1(2)])
  have none: "landedPin ?env ?off c1 = []" by (simp add: landedPin_def wantsEgressPin_def)
  have e2: "egressPin c2 = ''eth0''" "DefaultInterface (dialer c2) = ''eth0''"
    using c2(3,5,6) c1(4) e1 none by (auto simp: landed_def applied_def desk_def)
  obtain c3 where c3: "handleStartListener ?env c2 = Some c3" "currentConfig c3 = currentConfig c2"
    "DefaultInterface (dialer c3) = (case currentConfig c2 of None \<Rightarrow> DefaultInterface (dialer c2)
       | Some cfg \<Rightarrow> if android ?env then DefaultInterface (dialer c2)
           else openedInterface ?env cfg (say (listenerCalls cfg) c2))"
    by (rule handleStart_ok [OF c2(2), of ?env])
  have "openedInterface ?env ?off (say (listenerCalls ?off) c2) = []"
    by (simp add: openedInterface_cases [OF desk_lawful] wantsEgressPin_def e2)
  with c1(1) c2(1,4) c3 show ?thesis by auto
qed

text \<open>
  \<^bold>\<open>C21.\<close> Two runs in which a pin outlives the window it was made for. In the first the system
  answers another interface at the start than at the apply before it: the running core, whose
  config names no interface, stays bound to the old one. In the second a config without the TUN
  that names its interface lands in between: the start clears the interface the user named.
\<close>

theorem pin_outlives_window:
  "(\<exists>which c1 c2. landConfig (desk which) [] (deskConfig True []) bootCore = Some c1 \<and>
     handleStartListener (desk which) c1 = Some c2 \<and>
     Interface (general (deskConfig True [])) = [] \<and> egressPin c2 = [] \<and>
     DefaultInterface (dialer c2) = ''wlan0'') \<and>
   (\<exists>c1 c2 c3. landConfig (desk (\<lambda>ms. ''eth0'')) [] (deskConfig True []) bootCore = Some c1 \<and>
     landConfig (desk (\<lambda>ms. ''eth0'')) [] (deskConfig False ''eth0'') c1 = Some c2 \<and>
     handleStartListener (desk (\<lambda>ms. ''eth0'')) c2 = Some c3 \<and>
     map_option (\<lambda>cfg. Interface (general cfg)) (currentConfig c3) = Some ''eth0'' \<and>
     DefaultInterface (dialer c3) = [])"
  using stale_pin_survives named_interface_cleared by (rule conjI)

end
