(* ===== verification/GoUrl.thy ===== *)
theory GoUrl
  imports GoStrings "HOL-Library.List_Lexorder" "HOL-Library.Char_ord" "HOL-Library.AList"
begin

section \<open>Writing and reading links (Go's \<open>net/url\<close>)\<close>

text \<open>
  The standard library's escaping, query values and assembly of a URL, as the share links use them,
  and the splitting \<open>url.Parse\<close> does of such a link. A byte is a \<open>char\<close>.
\<close>

subsection \<open>Escaping\<close>

datatype urlMode = HostMode | UserMode | QueryMode | FragmentMode

definition isAlnum :: "char \<Rightarrow> bool" where
  "isAlnum c \<longleftrightarrow> c \<in> set ''abcdefghijklmnopqrstuvwxyzABCDEFGHIJKLMNOPQRSTUVWXYZ0123456789''"

definition shouldEscape :: "char \<Rightarrow> urlMode \<Rightarrow> bool" where
  "shouldEscape c mode =
     (if isAlnum c then False
      else if mode = HostMode \<and> c \<in> set (''!$&()*+,;=:[]<>'' @ [CHR 0x22, CHR 0x27]) then False
      else if c \<in> set ''-_.~'' then False
      else if c \<in> set ''$&+,/:;=?@'' \<and> mode \<noteq> HostMode
      then (case mode of
              UserMode \<Rightarrow> c \<in> set ''@/?:''
            | QueryMode \<Rightarrow> True
            | _ \<Rightarrow> False)
      else if mode = FragmentMode \<and> c \<in> set ''!()*'' then False
      else True)"

definition hexDigits :: string where "hexDigits = ''0123456789ABCDEF''"

definition hexDigit :: "nat \<Rightarrow> char" where
  "hexDigit n = hexDigits ! n"

definition escapeChar :: "urlMode \<Rightarrow> char \<Rightarrow> string" where
  "escapeChar mode c =
     (if c = CHR '' '' \<and> mode = QueryMode then ''+''
      else if shouldEscape c mode
      then [CHR ''%'', hexDigit (of_char c div 16), hexDigit (of_char c mod 16)]
      else [c])"

definition escape :: "urlMode \<Rightarrow> string \<Rightarrow> string" where
  "escape mode s = concat (map (escapeChar mode) s)"

definition unhex :: "char \<Rightarrow> nat option" where
  "unhex c =
     (let n = of_char c in
      if 48 \<le> n \<and> n \<le> 57 then Some (n - 48)
      else if 97 \<le> n \<and> n \<le> 102 then Some (n - 87)
      else if 65 \<le> n \<and> n \<le> 70 then Some (n - 55)
      else None)"

text \<open>\<open>unescape\<close> of the user, query and fragment; a percent sign without two digits is an error.\<close>

fun unescape :: "urlMode \<Rightarrow> string \<Rightarrow> string option" where
  "unescape mode [] = Some []"
| "unescape mode (c # s) =
     (if c = CHR ''%''
      then (case s of
              a # b # r \<Rightarrow>
                (case (unhex a, unhex b) of
                   (Some x, Some y) \<Rightarrow> map_option ((#) (char_of (16 * x + y))) (unescape mode r)
                 | _ \<Rightarrow> None)
            | _ \<Rightarrow> None)
      else if c = CHR ''+'' \<and> mode = QueryMode
      then map_option ((#) (CHR '' '')) (unescape mode s)
      else map_option ((#) c) (unescape mode s))"

lemma nibbles:
  "(of_char c :: nat) < 256" "(of_char c :: nat) div 16 < 16" "(of_char c :: nat) mod 16 < 16"
  by (simp_all add: nat_of_char_less_256 less_mult_imp_div_less)

lemma hexDigit_table:
  "list_all (\<lambda>n. unhex (hexDigit n) = Some n \<and> hexDigit n \<in> set hexDigits) [0..<16]"
  by code_simp

lemma hexDigit_facts: "n < 16 \<Longrightarrow> unhex (hexDigit n) = Some n" "n < 16 \<Longrightarrow> hexDigit n \<in> set hexDigits"
  using hexDigit_table by (auto simp: list_all_iff)

lemma unescape_escapeChar:
  assumes "mode \<noteq> HostMode"
  shows "unescape mode (escapeChar mode c @ r) = map_option ((#) c) (unescape mode r)"
proof -
  consider (space) "c = CHR '' ''" "mode = QueryMode"
    | (percent) "escapeChar mode c = [CHR ''%'', hexDigit (of_char c div 16), hexDigit (of_char c mod 16)]"
    | (plain) "escapeChar mode c = [c]" "\<not> shouldEscape c mode"
    by (cases "c = CHR '' '' \<and> mode = QueryMode"; cases "shouldEscape c mode")
      (auto simp: escapeChar_def)
  then show ?thesis
  proof cases
    case space
    then show ?thesis by (simp add: escapeChar_def)
  next
    case percent
    have "char_of (16 * (of_char c div 16) + of_char c mod 16 :: nat) = c"
      by (metis char_of_char mult_div_mod_eq)
    with percent nibbles [of c] show ?thesis
      by (simp add: hexDigit_facts)
  next
    case plain
    then have "c \<noteq> CHR ''%''" "c = CHR ''+'' \<Longrightarrow> mode \<noteq> QueryMode"
      by (auto simp: shouldEscape_def isAlnum_def)
    with plain show ?thesis by auto
  qed
qed

lemma unescape_escape:
  "mode \<noteq> HostMode \<Longrightarrow> unescape mode (escape mode s) = Some s"
  by (induction s) (simp_all add: escape_def unescape_escapeChar)

lemma escape_chars:
  assumes "c \<in> set (escape mode s)"
  shows "\<not> shouldEscape c mode \<or> c = CHR ''%'' \<or> c = CHR ''+'' \<or> c \<in> set hexDigits"
proof -
  from assms obtain d where "c \<in> set (escapeChar mode d)" by (auto simp: escape_def)
  with hexDigit_facts(2) [OF nibbles(2), of d] hexDigit_facts(2) [OF nibbles(3), of d] show ?thesis
    unfolding escapeChar_def by (auto split: if_splits)
qed

lemma escape_avoids:
  assumes "shouldEscape c mode" and "c \<notin> set (''%+'' @ hexDigits)"
  shows "c \<notin> set (escape mode s)"
  using escape_chars [of c mode s] assms by auto

subsection \<open>Query values\<close>

type_synonym urlValues = "(string, string) gomap"

definition setValue :: "string \<Rightarrow> string \<Rightarrow> urlValues \<Rightarrow> urlValues" where
  "setValue k v q = AList.update k v q"

definition pairText :: "string \<times> string \<Rightarrow> string" where
  "pairText kv = (case kv of (k, v) \<Rightarrow> escape QueryMode k @ ''='' @ escape QueryMode v)"

definition encodeValues :: "urlValues \<Rightarrow> string" where
  "encodeValues q = str_join ''&'' (map pairText (sort_key fst q))"

fun bothParts :: "string option \<times> string option \<Rightarrow> (string \<times> string) option" where
  "bothParts (Some a, Some b) = Some (a, b)"
| "bothParts _ = None"

definition parsePair :: "string \<Rightarrow> (string \<times> string) option" where
  "parsePair piece = (case cut_at CHR ''='' piece of
     (k, v, _) \<Rightarrow> bothParts (unescape QueryMode k, unescape QueryMode v))"

definition parseQuery :: "string \<Rightarrow> (string \<times> string) list option" where
  "parseQuery s = those (map parsePair (filter (\<lambda>p. p \<noteq> []) (split_on CHR ''&'' s)))"

lemma cut_at_here [simp]: "sep \<notin> set a \<Longrightarrow> cut_at sep (a @ sep # b) = (a, b, True)"
  by (induction a) auto

lemma cut_at_none [simp]: "sep \<notin> set a \<Longrightarrow> cut_at sep a = (a, [], False)"
  by (induction a) auto

lemma split_on_join:
  assumes "\<And>w. w \<in> set ws \<Longrightarrow> sep \<notin> set w" and "ws \<noteq> []"
  shows "split_on sep (str_join [sep] ws) = ws"
  using assms
proof (induction ws rule: induct_list012)
  case 1
  then show ?case by simp
next
  case (2 w)
  have "split_on sep v = [v]" if "sep \<notin> set v" for v
    using that by (induction v) auto
  with 2 show ?case by simp
next
  case (3 w v ws)
  have "split_on sep (x @ sep # y) = x # split_on sep y" if "sep \<notin> set x" for x y
    using that by (induction x) auto
  with 3 show ?case by simp
qed

lemma escaped_query: "CHR ''&'' \<notin> set (escape QueryMode s)" "CHR ''='' \<notin> set (escape QueryMode s)"
  "CHR ''#'' \<notin> set (escape QueryMode s)" "CHR ''?'' \<notin> set (escape QueryMode s)"
  by (rule escape_avoids; simp add: shouldEscape_def isAlnum_def hexDigits_def)+

lemma escaped_user: "CHR ''@'' \<notin> set (escape UserMode s)" "CHR '':'' \<notin> set (escape UserMode s)"
  "CHR ''#'' \<notin> set (escape UserMode s)" "CHR ''?'' \<notin> set (escape UserMode s)"
  "CHR ''/'' \<notin> set (escape UserMode s)"
  by (rule escape_avoids; simp add: shouldEscape_def isAlnum_def hexDigits_def)+

lemma pairText_facts:
  "CHR ''&'' \<notin> set (pairText kv)" "CHR ''#'' \<notin> set (pairText kv)" "CHR ''?'' \<notin> set (pairText kv)"
  "pairText kv \<noteq> []" "parsePair (pairText kv) = Some kv"
  by (cases kv; simp add: pairText_def parsePair_def escaped_query unescape_escape)+

lemma set_str_join: "set (str_join sep ws) \<subseteq> \<Union> (set ` set ws) \<union> set sep"
  by (induction ws rule: induct_list012) auto

lemma encodeValues_chars: "CHR ''#'' \<notin> set (encodeValues q)" "CHR ''?'' \<notin> set (encodeValues q)"
  using set_str_join [of "''&''" "map pairText (sort_key fst q)"] pairText_facts(2,3)
  by (auto simp: encodeValues_def)

lemma those_map_Some: "(\<And>x. x \<in> set xs \<Longrightarrow> f x = Some (g x)) \<Longrightarrow> those (map f xs) = Some (map g xs)"
  by (induction xs) auto

lemma parseQuery_encode: "parseQuery (encodeValues q) = Some (sort_key fst q)"
proof (cases "sort_key fst q = []")
  case True
  then show ?thesis by (simp add: parseQuery_def encodeValues_def)
next
  case False
  let ?ws = "map pairText (sort_key fst q)"
  have "split_on CHR ''&'' (str_join ''&'' ?ws) = ?ws"
    by (rule split_on_join) (use False pairText_facts(1) in auto)
  moreover have "filter (\<lambda>p. p \<noteq> []) ?ws = ?ws"
    using pairText_facts(4) by (intro filter_True) auto
  moreover have "those (map parsePair ?ws) = Some (map id (sort_key fst q))"
    unfolding map_map o_def pairText_facts(5) by (rule those_map_Some) simp
  ultimately show ?thesis
    by (simp add: parseQuery_def encodeValues_def del: map_map)
qed

subsection \<open>A link\<close>

record link =
  scheme :: string
  userOf :: "(string \<times> string option) option"
  hostOf :: string
  queryOf :: urlValues
  fragmentOf :: string

definition userString :: "string \<times> string option \<Rightarrow> string" where
  "userString u = escape UserMode (fst u) @
     (case snd u of None \<Rightarrow> [] | Some p \<Rightarrow> '':'' @ escape UserMode p)"

text \<open>\<open>url.URL.String\<close> for a URL with a scheme and no path.\<close>

definition urlString :: "link \<Rightarrow> string" where
  "urlString l =
     (let q = encodeValues (queryOf l) in
      scheme l @ '':'' @
      (if hostOf l \<noteq> [] \<or> userOf l \<noteq> None then ''//'' else []) @
      (case userOf l of None \<Rightarrow> [] | Some u \<Rightarrow> userString u @ ''@'') @
      escape HostMode (hostOf l) @
      (if q \<noteq> [] then ''?'' @ q else []) @
      (if fragmentOf l \<noteq> [] then ''#'' @ escape FragmentMode (fragmentOf l) else []))"

text \<open>The splitting of \<open>url.Parse\<close>, for such a link; the check of the port's digits is left out.\<close>

definition readUser :: "string \<Rightarrow> (string \<times> string option) option" where
  "readUser s = (case cut_at CHR '':'' s of
     (name, password, True) \<Rightarrow>
       map_option (\<lambda>(a, b). (a, Some b)) (bothParts (unescape UserMode name, unescape UserMode password))
   | (name, _, False) \<Rightarrow> map_option (\<lambda>a. (a, None)) (unescape UserMode name))"

definition readAuthority :: "string \<Rightarrow> ((string \<times> string option) option \<times> string) option" where
  "readAuthority s = (case cut_at CHR ''@'' (rev s) of
     (host, user, True) \<Rightarrow> map_option (\<lambda>u. (Some u, rev host)) (readUser (rev user))
   | (host, _, False) \<Rightarrow> Some (None, s))"

definition readLink :: "string \<Rightarrow> link option" where
  "readLink s =
     (let (s, frag, _) = cut_at CHR ''#'' s;
          (s, q, _) = cut_at CHR ''?'' s;
          (sch, rest, _) = cut_at CHR '':'' s
      in if \<not> has_prefix ''//'' rest then None
         else (case (readAuthority (takeWhile (\<lambda>c. c \<noteq> CHR ''/'') (drop 2 rest)), parseQuery q,
                     unescape FragmentMode frag) of
                 (Some (u, h), Some qs, Some f) \<Rightarrow>
                   if CHR ''%'' \<in> set h then None
                   else Some \<lparr>scheme = sch, userOf = u, hostOf = h, queryOf = qs, fragmentOf = f\<rparr>
               | _ \<Rightarrow> None))"

text \<open>A link that can be written: an alphanumeric scheme and a host no byte of which is escaped.\<close>

definition link_ok :: "link \<Rightarrow> bool" where
  "link_ok l \<longleftrightarrow> list_all isAlnum (scheme l) \<and> hostOf l \<noteq> [] \<and>
     list_all (\<lambda>c. \<not> shouldEscape c HostMode) (hostOf l)"

lemma escape_plain: "list_all (\<lambda>c. \<not> shouldEscape c mode) s \<Longrightarrow> mode \<noteq> QueryMode \<Longrightarrow> escape mode s = s"
  by (induction s) (simp_all add: escape_def escapeChar_def)

lemma host_chars:
  assumes "list_all (\<lambda>c. \<not> shouldEscape c HostMode) h"
  shows "CHR ''@'' \<notin> set h" "CHR ''#'' \<notin> set h" "CHR ''?'' \<notin> set h" "CHR ''/'' \<notin> set h" "CHR ''%'' \<notin> set h"
proof -
  have "c \<notin> set h" if "shouldEscape c HostMode" for c
    using assms that by (auto simp: list_all_iff)
  then show "CHR ''@'' \<notin> set h" "CHR ''#'' \<notin> set h" "CHR ''?'' \<notin> set h" "CHR ''/'' \<notin> set h"
    "CHR ''%'' \<notin> set h"
    by (simp_all add: shouldEscape_def isAlnum_def)
qed

lemma scheme_chars:
  assumes "list_all isAlnum s"
  shows "CHR ''#'' \<notin> set s" "CHR ''?'' \<notin> set s" "CHR '':'' \<notin> set s"
proof -
  have "c \<notin> set s" if "\<not> isAlnum c" for c
    using assms that by (auto simp: list_all_iff)
  then show "CHR ''#'' \<notin> set s" "CHR ''?'' \<notin> set s" "CHR '':'' \<notin> set s"
    by (simp_all add: isAlnum_def)
qed

lemma userString_chars:
  "CHR ''@'' \<notin> set (userString u)" "CHR ''#'' \<notin> set (userString u)" "CHR ''?'' \<notin> set (userString u)"
  "CHR ''/'' \<notin> set (userString u)"
  by (cases "snd u"; simp add: userString_def escaped_user)+

lemma readUser_userString: "readUser (userString u) = Some u"
proof (cases u)
  case (Pair name password)
  then show ?thesis
    by (cases password)
      (simp_all add: readUser_def userString_def escaped_user unescape_escape)
qed

lemma readAuthority_some:
  assumes "CHR ''@'' \<notin> set h"
  shows "readAuthority (userString u @ ''@'' @ h) = Some (Some u, h)"
    and "readAuthority h = Some (None, h)"
  using assms cut_at_here [of "CHR ''@''" "rev h" "rev (userString u)"]
    cut_at_none [of "CHR ''@''" "rev h"]
  by (simp_all add: readAuthority_def readUser_userString)

lemma readLink_urlString:
  assumes "link_ok l"
  shows "readLink (urlString l) = Some (l\<lparr>queryOf := sort_key fst (queryOf l)\<rparr>)"
proof -
  let ?h = "hostOf l"
  define auth where "auth = (case userOf l of None \<Rightarrow> [] | Some u \<Rightarrow> userString u @ ''@'') @ ?h"
  define front where "front = scheme l @ '':'' @ ''//'' @ auth"
  define q where "q = encodeValues (queryOf l)"
  define frag where "frag = escape FragmentMode (fragmentOf l)"
  have plain: "list_all (\<lambda>c. \<not> shouldEscape c HostMode) ?h" "list_all isAlnum (scheme l)" "?h \<noteq> []"
    using assms by (simp_all add: link_ok_def)
  note chars = host_chars [OF plain(1)] scheme_chars [OF plain(2)]
  have whole: "urlString l = (front @ (if q \<noteq> [] then ''?'' @ q else [])) @ (if fragmentOf l \<noteq> [] then ''#'' @ frag else [])"
    using plain escape_plain [OF plain(1)]
    by (simp add: urlString_def front_def auth_def q_def frag_def Let_def)
  have auth: "CHR ''#'' \<notin> set auth" "CHR ''?'' \<notin> set auth" "CHR ''/'' \<notin> set auth"
    using chars userString_chars by (auto simp: auth_def split: option.split)
  have front: "CHR ''#'' \<notin> set front" "CHR ''?'' \<notin> set front"
    using chars auth by (auto simp: front_def)
  have cut1: "cut_at CHR ''#'' (urlString l) =
      (front @ (if q \<noteq> [] then ''?'' @ q else []), if fragmentOf l \<noteq> [] then frag else [], fragmentOf l \<noteq> [])"
    using front encodeValues_chars(1) [of "queryOf l"] cut_at_here [of "CHR ''#''" "front @ ''?'' @ q" frag]
    unfolding whole by (simp add: q_def)
  have cut2: "cut_at CHR ''?'' (front @ (if q \<noteq> [] then ''?'' @ q else [])) = (front, q, q \<noteq> [])"
    using front by simp
  have cut3: "cut_at CHR '':'' front = (scheme l, ''//'' @ auth, True)"
    using chars by (simp add: front_def)
  have whole_auth: "takeWhile (\<lambda>c. c \<noteq> CHR ''/'') auth = auth"
    using auth(3) by (simp add: takeWhile_eq_all_conv) blast
  have read: "readAuthority auth = Some (userOf l, ?h)"
    using readAuthority_some [OF chars(1)] by (auto simp: auth_def split: option.split)
  have frag: "unescape FragmentMode (if fragmentOf l \<noteq> [] then frag else []) = Some (fragmentOf l)"
    by (simp add: frag_def unescape_escape)
  have query: "parseQuery q = Some (sort_key fst (queryOf l))"
    by (simp add: q_def parseQuery_encode)
  show ?thesis
    unfolding readLink_def Let_def cut1 prod.case cut2 cut3 frag query
    using chars(5) by (simp add: whole_auth read)
qed

end
