(* ===== verification/GoBase64.thy ===== *)
theory GoBase64
  imports GoStrings
begin

section \<open>Base64 (Go's \<open>encoding/base64\<close>)\<close>

text \<open>
  The two encodings the share links use, \<open>StdEncoding\<close> with padding and \<open>RawURLEncoding\<close> without, over
  groups of six bits, and the decoding that shows no byte is lost.
\<close>

fun sextets :: "nat list \<Rightarrow> nat list" where
  "sextets [] = []"
| "sextets [a] = [a div 4, a mod 4 * 16]"
| "sextets [a, b] = [a div 4, a mod 4 * 16 + b div 16, b mod 16 * 4]"
| "sextets (a # b # c # r) =
     a div 4 # (a mod 4 * 16 + b div 16) # (b mod 16 * 4 + c div 64) # c mod 64 # sextets r"

fun octets :: "nat list \<Rightarrow> nat list option" where
  "octets [] = Some []"
| "octets [x] = None"
| "octets [x, y] = Some [x * 4 + y div 16]"
| "octets [x, y, z] = Some [x * 4 + y div 16, y mod 16 * 16 + z div 4]"
| "octets (x # y # z # w # r) =
     map_option (\<lambda>s. (x * 4 + y div 16) # (y mod 16 * 16 + z div 4) # (z mod 4 * 64 + w) # s) (octets r)"

lemma sextets_bound: "list_all (\<lambda>n. n < 256) ns \<Longrightarrow> list_all (\<lambda>n. n < 64) (sextets ns)"
  by (induction ns rule: sextets.induct) auto

lemma regroup:
  "(a :: nat) div 4 * 4 + (a mod 4 * 16 + b div 16) div 16 = a" if "b < 256" for a b
  using that by (simp add: div_add1_eq)

lemma octets_sextets: "list_all (\<lambda>n. n < 256) ns \<Longrightarrow> octets (sextets ns) = Some ns"
proof (induction ns rule: sextets.induct)
  case (4 a b c r)
  have "(a mod 4 * 16 + b div 16) div 16 = a mod 4" "(a mod 4 * 16 + b div 16) mod 16 = b div 16"
    "(b mod 16 * 4 + c div 64) div 4 = b mod 16" "(b mod 16 * 4 + c div 64) mod 4 = c div 64"
    using 4(2) by auto
  with 4 show ?case by simp
next
  case (3 a b)
  have "(a mod 4 * 16 + b div 16) div 16 = a mod 4" "(a mod 4 * 16 + b div 16) mod 16 = b div 16"
    using 3 by auto
  with 3 show ?case by simp
qed simp_all

definition stdAlphabet :: string where
  "stdAlphabet = ''ABCDEFGHIJKLMNOPQRSTUVWXYZabcdefghijklmnopqrstuvwxyz0123456789+/''"

definition urlAlphabet :: string where
  "urlAlphabet = ''ABCDEFGHIJKLMNOPQRSTUVWXYZabcdefghijklmnopqrstuvwxyz0123456789-_''"

definition base64With :: "string \<Rightarrow> string \<Rightarrow> string" where
  "base64With alphabet s = map ((!) alphabet) (sextets (map of_char s))"

definition rawUrlEncode :: "string \<Rightarrow> string" where
  "rawUrlEncode s = base64With urlAlphabet s"

definition stdEncode :: "string \<Rightarrow> string" where
  "stdEncode s =
     (let e = base64With stdAlphabet s in e @ replicate ((4 - length e mod 4) mod 4) CHR ''='')"

fun indexOf :: "char \<Rightarrow> string \<Rightarrow> nat option" where
  "indexOf c [] = None"
| "indexOf c (d # s) = (if c = d then Some 0 else map_option Suc (indexOf c s))"

definition base64Read :: "string \<Rightarrow> string \<Rightarrow> string option" where
  "base64Read alphabet s =
     (case those (map (\<lambda>c. indexOf c alphabet) s) of
        None \<Rightarrow> None
      | Some ns \<Rightarrow> map_option (map char_of) (octets ns))"

definition rawUrlDecode :: "string \<Rightarrow> string option" where
  "rawUrlDecode s = base64Read urlAlphabet s"

definition stdDecode :: "string \<Rightarrow> string option" where
  "stdDecode s = base64Read stdAlphabet (takeWhile (\<lambda>c. c \<noteq> CHR ''='') s)"

lemma indexOf_nth: "distinct s \<Longrightarrow> i < length s \<Longrightarrow> indexOf (s ! i) s = Some i"
proof (induction s arbitrary: i)
  case Nil
  then show ?case by simp
next
  case (Cons d s)
  then show ?case by (cases i) (auto simp: nth_mem)
qed

lemma alphabets: "distinct stdAlphabet" "length stdAlphabet = 64" "distinct urlAlphabet"
  "length urlAlphabet = 64" "CHR ''='' \<notin> set stdAlphabet" "CHR '':'' \<notin> set urlAlphabet"
  "CHR ''&'' \<notin> set urlAlphabet" "CHR ''/'' \<notin> set urlAlphabet"
  by (code_simp)+

lemma bytes_bound: "list_all (\<lambda>n. n < 256) (map of_char (s :: string) :: nat list)"
  by (simp add: list_all_iff nat_of_char_less_256)

lemma base64Read_With:
  assumes "distinct alphabet" and "length alphabet = 64"
  shows "base64Read alphabet (base64With alphabet s) = Some s"
proof -
  let ?ns = "sextets (map of_char s)"
  have "those (map (\<lambda>c. indexOf c alphabet) (map ((!) alphabet) ns)) = Some ns"
    if "list_all (\<lambda>n. n < 64) ns" for ns
    using that assms by (induction ns) (auto simp: indexOf_nth)
  then have "those (map (\<lambda>c. indexOf c alphabet) (map ((!) alphabet) ?ns)) = Some ?ns"
    using sextets_bound [OF bytes_bound] by blast
  moreover have "map char_of (map of_char s :: nat list) = s"
    by (simp add: o_def)
  ultimately show ?thesis
    by (simp add: base64Read_def base64With_def octets_sextets [OF bytes_bound] del: map_map)
qed

lemma rawUrl_roundtrip: "rawUrlDecode (rawUrlEncode s) = Some s"
  by (simp add: rawUrlDecode_def rawUrlEncode_def base64Read_With alphabets)

lemma base64With_chars:
  assumes "length alphabet = 64"
  shows "set (base64With alphabet s) \<subseteq> set alphabet"
proof -
  have "list_all (\<lambda>n. n < 64) (sextets (map of_char s))" by (rule sextets_bound [OF bytes_bound])
  with assms show ?thesis
    by (auto simp: base64With_def list_all_iff intro!: nth_mem)
qed

lemma std_roundtrip: "stdDecode (stdEncode s) = Some s"
proof -
  let ?e = "base64With stdAlphabet s"
  have "CHR ''='' \<notin> set ?e"
    using base64With_chars [OF alphabets(2), of s] alphabets(5) by auto
  then have "takeWhile (\<lambda>c. c \<noteq> CHR ''='') (?e @ replicate n CHR ''='') = ?e" for n
    by (cases n) (auto simp: takeWhile_eq_all_conv takeWhile_append)
  then show ?thesis
    by (simp add: stdDecode_def stdEncode_def Let_def base64Read_With alphabets)
qed

end
