(* ===== verification/ShareLink.thy ===== *)
theory ShareLink
  imports GoUrl GoBase64
begin

section \<open>Share links (\<open>core/share_link.go\<close>)\<close>

text \<open>
  A proxy's mapping written as the link of its type. A value is what the host's JSON decodes to; a
  number carries the text \<open>fmt.Sprint\<close> prints for it. \<open>json.Marshal\<close> of the values of a legacy vmess
  link, and the rewriting of its path's query, are the arguments \<open>marshal\<close> and \<open>setEarly\<close>.
\<close>

subsection \<open>The fields of a mapping\<close>

datatype anyValue =
    VNil
  | VBool bool
  | VNumber string
  | VString string
  | VList "anyValue list"
  | VMap "(string \<times> anyValue) list"

type_synonym proxyFields = "(string, anyValue) gomap"

primrec sprint :: "anyValue \<Rightarrow> string" where
  "sprint VNil = ''<nil>''"
| "sprint (VBool b) = (if b then ''true'' else ''false'')"
| "sprint (VNumber t) = t"
| "sprint (VString s) = s"
| "sprint (VList vs) = ''['' @ str_join '' '' (map sprint vs) @ '']''"
| "sprint (VMap m) = ''map['' @ str_join '' ''
     (map (\<lambda>(k, t). k @ '':'' @ t) (sort_key fst (map (map_prod id sprint) m))) @ '']''"

definition str :: "proxyFields \<Rightarrow> string \<Rightarrow> string" where
  "str f key =
     (case map_of f key of
        None \<Rightarrow> []
      | Some VNil \<Rightarrow> []
      | Some v \<Rightarrow> sprint v)"

definition flag :: "proxyFields \<Rightarrow> string \<Rightarrow> bool" where
  "flag f key =
     (case map_of f key of
        Some (VBool b) \<Rightarrow> b
      | Some (VString s) \<Rightarrow> s = ''true''
      | _ \<Rightarrow> False)"

definition subFields :: "proxyFields \<Rightarrow> string \<Rightarrow> proxyFields" where
  "subFields f key = (case map_of f key of Some (VMap m) \<Rightarrow> m | _ \<Rightarrow> [])"

definition items :: "proxyFields \<Rightarrow> string \<Rightarrow> string list" where
  "items f key =
     (case map_of f key of
        Some (VList vs) \<Rightarrow> map sprint vs
      | Some (VString s) \<Rightarrow> if s \<noteq> [] then [s] else []
      | _ \<Rightarrow> [])"

definition firstItem :: "proxyFields \<Rightarrow> string \<Rightarrow> string" where
  "firstItem f key = (case items f key of [] \<Rightarrow> [] | s # _ \<Rightarrow> s)"

definition setIf :: "string \<Rightarrow> string \<Rightarrow> urlValues \<Rightarrow> urlValues" where
  "setIf key v q = (if v \<noteq> [] then setValue key v q else q)"

definition shareLink ::
  "string \<Rightarrow> (string \<times> string option) option \<Rightarrow> string \<Rightarrow> urlValues \<Rightarrow> string \<Rightarrow> link" where
  "shareLink sch u h q name =
     \<lparr>scheme = sch, userOf = u, hostOf = h, queryOf = q, fragmentOf = name\<rparr>"

definition shareURL ::
  "string \<Rightarrow> (string \<times> string option) option \<Rightarrow> string \<Rightarrow> urlValues \<Rightarrow> string \<Rightarrow> string" where
  "shareURL sch u h q name = urlString (shareLink sch u h q name)"

text \<open>\<open>net.JoinHostPort\<close>\<close>

definition joinHostPort :: "string \<Rightarrow> string \<Rightarrow> string" where
  "joinHostPort h p =
     (if CHR '':'' \<in> set h then ''['' @ h @ '']:'' @ p else h @ '':'' @ p)"

definition hostPort :: "proxyFields \<Rightarrow> string" where
  "hostPort f = joinHostPort (str f ''server'') (str f ''port'')"

definition alpnOf :: "proxyFields \<Rightarrow> string" where
  "alpnOf f = str_join '','' (items f ''alpn'')"

subsection \<open>One function per type\<close>

definition encodeShadowsocks :: "proxyFields \<Rightarrow> string" where
  "encodeShadowsocks f =
     (let u = (str f ''cipher'', Some (str f ''password''));
          q = (if flag f ''udp-over-tcp'' then setValue ''uot'' ''1'' [] else []);
          opts = subFields f ''plugin-opts'';
          plugin = str f ''plugin'';
          link = (\<lambda>q. shareURL ''ss'' (Some u) (hostPort f) q (str f ''name''))
      in if plugin = [] then link q
         else if plugin = ''obfs''
         then link (setValue ''plugin'' (''obfs-local;obfs='' @ str opts ''mode'' @ '';obfs-host='' @ str opts ''host'') q)
         else if plugin = ''v2ray-plugin''
         then (let p = ''v2ray-plugin;mode='' @ str opts ''mode'' @ '';host='' @ str opts ''host'' @
                       '';path='' @ str opts ''path'';
                   p = (if flag opts ''tls'' then p @ '';tls'' else p)
               in link (setValue ''plugin'' p q))
         else [])"

definition ssrBody :: "proxyFields \<Rightarrow> string" where
  "ssrBody f =
     str_join '':'' [str f ''server'', str f ''port'', str f ''protocol'', str f ''cipher'', str f ''obfs'',
       rawUrlEncode (str f ''password'')] @
     ''/?obfsparam='' @ rawUrlEncode (str f ''obfs-param'') @
     ''&protoparam='' @ rawUrlEncode (str f ''protocol-param'') @
     ''&remarks='' @ rawUrlEncode (str f ''name'')"

definition encodeShadowsocksR :: "proxyFields \<Rightarrow> string" where
  "encodeShadowsocksR f =
     (if str_contains (str f ''server'') '':'' then []
      else ''ssr://'' @ rawUrlEncode (ssrBody f))"

definition wsEarlyDataPath ::
  "(string \<Rightarrow> string \<Rightarrow> string option) \<Rightarrow> string \<Rightarrow> proxyFields \<Rightarrow> string" where
  "wsEarlyDataPath setEarly path opts =
     (let earlyData = str opts ''max-early-data'' in
      if earlyData = [] \<or> earlyData = ''0'' then path
      else (case setEarly path earlyData of None \<Rightarrow> path | Some p \<Rightarrow> p))"

text \<open>The Xray share link standard.\<close>

definition vShareTls :: "proxyFields \<Rightarrow> urlValues \<Rightarrow> urlValues" where
  "vShareTls f q =
     (if flag f ''tls''
      then (let reality = subFields f ''reality-opts'';
                publicKey = str reality ''public-key'';
                q = (if publicKey \<noteq> []
                     then setIf ''support-x25519mlkem768'' (str reality ''support-x25519mlkem768'')
                            (setIf ''sid'' (str reality ''short-id'')
                              (setValue ''pbk'' publicKey (setValue ''security'' ''reality'' q)))
                     else setValue ''security'' ''tls'' q);
                q = setIf ''fp'' (str f ''client-fingerprint'') q;
                q = setIf ''alpn'' (alpnOf f) q
            in setIf ''pcs'' (str f ''fingerprint'') q)
      else q)"

definition vShareNetwork :: "proxyFields \<Rightarrow> urlValues \<Rightarrow> urlValues" where
  "vShareNetwork f q =
     (let network = str f ''network'' in
      if network \<in> {[], ''tcp''} then q
      else if network = ''http''
      then (let opts = subFields f ''http-opts'';
                q = setValue ''headerType'' ''http'' (setValue ''type'' ''tcp'' q);
                q = setIf ''path'' (firstItem opts ''path'') q;
                q = setIf ''host'' (firstItem (subFields opts ''headers'') ''Host'') q
            in setIf ''method'' (str opts ''method'') q)
      else if network = ''h2''
      then (let opts = subFields f ''h2-opts'';
                q = setValue ''type'' ''http'' q;
                q = setIf ''path'' (str opts ''path'') q
            in setIf ''host'' (firstItem opts ''host'') q)
      else if network \<in> {''ws'', ''httpupgrade''}
      then (let opts = subFields f ''ws-opts'';
                q = setValue ''type'' network q;
                q = setIf ''path'' (str opts ''path'') q;
                q = setIf ''host'' (str (subFields opts ''headers'') ''Host'') q
            in if network = ''ws''
               then (let earlyData = str opts ''max-early-data'';
                         q = (if earlyData \<noteq> [] \<and> earlyData \<noteq> ''0'' then setValue ''ed'' earlyData q else q);
                         header = str opts ''early-data-header-name''
                     in if header \<noteq> [] \<and> header \<noteq> ''Sec-WebSocket-Protocol'' then setValue ''eh'' header q
                        else q)
               else if flag opts ''v2ray-http-upgrade-fast-open'' then setValue ''ed'' ''0'' q
               else q)
      else if network = ''grpc''
      then setIf ''serviceName'' (str (subFields f ''grpc-opts'') ''grpc-service-name'') (setValue ''type'' ''grpc'' q)
      else if network = ''xhttp''
      then (let opts = subFields f ''xhttp-opts'';
                q = setValue ''type'' ''xhttp'' q;
                q = setIf ''path'' (str opts ''path'') q;
                q = setIf ''host'' (str opts ''host'') q
            in setIf ''mode'' (str opts ''mode'') q)
      else setValue ''type'' network q)"

definition vShareQuery :: "proxyFields \<Rightarrow> urlValues" where
  "vShareQuery f =
     (let q = vShareTls f [];
          q = setIf ''sni'' (str f ''servername'') q;
          q = (if flag f ''packet-addr'' then setValue ''packetEncoding'' ''packet'' q
               else if \<not> flag f ''xudp'' then setValue ''packetEncoding'' ''none'' q
               else q)
      in vShareNetwork f q)"

text \<open>The values of the base64 JSON of v2rayN.\<close>

definition vmessValues ::
  "(string \<Rightarrow> string \<Rightarrow> string option) \<Rightarrow> proxyFields \<Rightarrow> (string, string) gomap" where
  "vmessValues setEarly f =
     (let vs = [(''v'', ''2''), (''ps'', str f ''name''), (''add'', str f ''server''), (''port'', str f ''port''),
            (''id'', str f ''uuid''), (''aid'', str f ''alterId''), (''scy'', str f ''cipher''),
            (''net'', ''tcp''), (''type'', ''none''), (''host'', []), (''path'', []), (''tls'', [])];
          vs = (if map_of vs ''aid'' = Some [] then AList.update ''aid'' ''0'' vs else vs);
          network = str f ''network'';
          vs = (if network \<in> {''ws'', ''httpupgrade''}
                then (let opts = subFields f ''ws-opts'';
                          vs = AList.update ''net'' network vs;
                          vs = AList.update ''host'' (str (subFields opts ''headers'') ''Host'') vs;
                          vs = AList.update ''path'' (str opts ''path'') vs
                      in if network = ''ws''
                         then AList.update ''path'' (wsEarlyDataPath setEarly (str opts ''path'') opts) vs
                         else vs)
                else if network = ''http''
                then (let opts = subFields f ''http-opts'';
                          vs = AList.update ''type'' ''http'' vs;
                          vs = AList.update ''host'' (firstItem (subFields opts ''headers'') ''Host'') vs
                      in AList.update ''path'' (firstItem opts ''path'') vs)
                else if network = ''h2''
                then (let opts = subFields f ''h2-opts'';
                          vs = AList.update ''net'' ''h2'' vs;
                          vs = AList.update ''host'' (firstItem opts ''host'') vs
                      in AList.update ''path'' (str opts ''path'') vs)
                else if network = ''grpc''
                then AList.update ''path'' (str (subFields f ''grpc-opts'') ''grpc-service-name'')
                       (AList.update ''net'' ''grpc'' vs)
                else vs)
      in if flag f ''tls''
         then (let vs = AList.update ''tls'' ''tls'' vs;
                   vs = AList.update ''sni'' (str f ''servername'') vs;
                   vs = AList.update ''alpn'' (alpnOf f) vs
               in AList.update ''fp'' (str f ''client-fingerprint'') vs)
         else vs)"

definition encodeVmess ::
  "((string, string) gomap \<Rightarrow> string) \<Rightarrow> (string \<Rightarrow> string \<Rightarrow> string option) \<Rightarrow> proxyFields \<Rightarrow> string" where
  "encodeVmess marshal setEarly f =
     (let alterID = str f ''alterId'' in
      if alterID = [] \<or> alterID = ''0''
      then (let q = vShareQuery f;
                cipher = str f ''cipher'';
                q = (if cipher \<noteq> [] \<and> cipher \<noteq> ''auto'' then setValue ''encryption'' cipher q else q)
            in shareURL ''vmess'' (Some (str f ''uuid'', None)) (hostPort f) q (str f ''name''))
      else ''vmess://'' @ stdEncode (marshal (vmessValues setEarly f)))"

definition encodeVless :: "proxyFields \<Rightarrow> string" where
  "encodeVless f =
     (let q = vShareQuery f;
          q = setIf ''flow'' (str f ''flow'') q;
          q = setIf ''encryption'' (str f ''encryption'') q
      in shareURL ''vless'' (Some (str f ''uuid'', None)) (hostPort f) q (str f ''name''))"

definition encodeTrojan :: "proxyFields \<Rightarrow> string" where
  "encodeTrojan f =
     (let q = (if flag f ''skip-cert-verify'' then setValue ''allowInsecure'' ''1'' [] else []);
          q = setIf ''sni'' (str f ''sni'') q;
          q = setIf ''alpn'' (alpnOf f) q;
          network = str f ''network'';
          wsOpts = subFields f ''ws-opts''
      in if network = ''ws'' \<and> str (subFields wsOpts ''headers'') ''Host'' \<noteq> [] then []
         else (let q = (if network = ''ws''
                        then setIf ''path'' (str wsOpts ''path'') (setValue ''type'' ''ws'' q)
                        else if network = ''grpc''
                        then setIf ''serviceName'' (str (subFields f ''grpc-opts'') ''grpc-service-name'')
                               (setValue ''type'' ''grpc'' q)
                        else q);
                   q = setIf ''fp'' (str f ''client-fingerprint'') q;
                   q = setIf ''pcs'' (str f ''fingerprint'') q
               in shareURL ''trojan'' (Some (str f ''password'', None)) (hostPort f) q (str f ''name'')))"

definition encodeHysteria :: "proxyFields \<Rightarrow> string" where
  "encodeHysteria f =
     (let q = setIf ''peer'' (str f ''sni'') [];
          q = setIf ''obfs'' (str f ''obfs'') q;
          q = setIf ''alpn'' (alpnOf f) q;
          auth = str f ''auth-str'';
          auth = (if auth = [] then str f ''auth_str'' else auth);
          q = setIf ''auth'' auth q;
          q = setIf ''protocol'' (str f ''protocol'') q;
          q = setIf ''up'' (str f ''up'') q;
          q = setIf ''down'' (str f ''down'') q;
          q = (if flag f ''skip-cert-verify'' then setValue ''insecure'' ''1'' q else q)
      in shareURL ''hysteria'' None (hostPort f) q (str f ''name''))"

definition hysteria2Host :: "proxyFields \<Rightarrow> string" where
  "hysteria2Host f =
     (let ports = str f ''ports'' in
      if ports \<noteq> [] \<and> \<not> str_contains (str f ''server'') '':'' then str f ''server'' @ '':'' @ ports
      else hostPort f)"

definition encodeHysteria2 :: "proxyFields \<Rightarrow> string" where
  "encodeHysteria2 f =
     (if flag (subFields f ''realm-opts'') ''enable'' then []
      else (let password = str f ''password'';
                u = (if password \<noteq> [] then Some (password, None) else None);
                q = setIf ''sni'' (str f ''sni'') [];
                q = setIf ''obfs'' (str f ''obfs'') q;
                q = setIf ''obfs-password'' (str f ''obfs-password'') q;
                q = (if flag f ''skip-cert-verify'' then setValue ''insecure'' ''1'' q else q);
                q = setIf ''alpn'' (alpnOf f) q;
                q = setIf ''pinSHA256'' (str f ''fingerprint'') q;
                q = setIf ''up'' (str f ''up'') q;
                q = setIf ''down'' (str f ''down'') q
            in shareURL ''hysteria2'' u (hysteria2Host f) q (str f ''name'')))"

definition encodeTuic :: "proxyFields \<Rightarrow> string" where
  "encodeTuic f =
     (let u = (if str f ''uuid'' = [] then (str f ''token'', None)
               else (str f ''uuid'', Some (str f ''password'')));
          q = setIf ''congestion_control'' (str f ''congestion-controller'') [];
          q = setIf ''alpn'' (alpnOf f) q;
          q = setIf ''sni'' (str f ''sni'') q;
          q = (if flag f ''disable-sni'' then setValue ''disable_sni'' ''1'' q else q);
          q = setIf ''udp_relay_mode'' (str f ''udp-relay-mode'') q
      in shareURL ''tuic'' (Some u) (hostPort f) q (str f ''name''))"

definition encodeSocks :: "proxyFields \<Rightarrow> string \<Rightarrow> string" where
  "encodeSocks f sch =
     (let username = str f ''username''; password = str f ''password'';
          u = (if username \<noteq> [] \<or> password \<noteq> [] then Some (username, Some password) else None)
      in shareURL sch u (hostPort f) [] (str f ''name''))"

definition encodeAnyTLS :: "proxyFields \<Rightarrow> string" where
  "encodeAnyTLS f =
     (let q = setIf ''sni'' (str f ''sni'') [];
          q = (if flag f ''skip-cert-verify'' then setValue ''insecure'' ''1'' q else q);
          q = setIf ''hpkp'' (str f ''fingerprint'') q
      in shareURL ''anytls'' (Some (str f ''password'', None)) (hostPort f) q (str f ''name''))"

definition mieruHost :: "proxyFields \<Rightarrow> string" where
  "mieruHost f =
     (let h = str f ''server'' in if str_contains h '':'' then ''['' @ h @ '']'' else h)"

definition encodeMieru :: "proxyFields \<Rightarrow> string" where
  "encodeMieru f =
     (let port = str f ''port-range'';
          port = (if port = [] then str f ''port'' else port);
          protocol = str f ''transport'';
          protocol = (if protocol = [] then ''TCP'' else protocol);
          q = setValue ''protocol'' protocol (setValue ''port'' port []);
          q = setIf ''multiplexing'' (str f ''multiplexing'') q;
          q = setIf ''handshake-mode'' (str f ''handshake-mode'') q;
          q = setIf ''traffic-pattern'' (str f ''traffic-pattern'') q
      in shareURL ''mierus'' (Some (str f ''username'', Some (str f ''password''))) (mieruHost f) q
           (str f ''name''))"

definition encodeShareLink ::
  "((string, string) gomap \<Rightarrow> string) \<Rightarrow> (string \<Rightarrow> string \<Rightarrow> string option) \<Rightarrow> proxyFields \<Rightarrow> string" where
  "encodeShareLink marshal setEarly f =
     (let type = str f ''type'' in
      if str f ''server'' = [] then []
      else if type = ''ss'' then encodeShadowsocks f
      else if type = ''ssr'' then encodeShadowsocksR f
      else if type = ''vmess'' then encodeVmess marshal setEarly f
      else if type = ''vless'' then encodeVless f
      else if type = ''trojan'' then encodeTrojan f
      else if type = ''hysteria'' then encodeHysteria f
      else if type = ''hysteria2'' then encodeHysteria2 f
      else if type = ''tuic'' then encodeTuic f
      else if type = ''socks5'' then encodeSocks f ''socks5''
      else if type = ''http'' then (if flag f ''tls'' then encodeSocks f ''https'' else encodeSocks f ''http'')
      else if type = ''anytls'' then encodeAnyTLS f
      else if type = ''mieru'' then encodeMieru f
      else [])"

definition handleEncodeShareLinks ::
  "((string, string) gomap \<Rightarrow> string) \<Rightarrow> (string \<Rightarrow> string \<Rightarrow> string option) \<Rightarrow> proxyFields list \<Rightarrow>
     string list" where
  "handleEncodeShareLinks marshal setEarly proxies = map (encodeShareLink marshal setEarly) proxies"

text \<open>mihomo's converter is the argument \<open>convert\<close>.\<close>

definition handleDecodeShareLinks ::
  "(string \<Rightarrow> (string, proxyFields list) result) \<Rightarrow> string list \<Rightarrow> proxyFields list list" where
  "handleDecodeShareLinks convert ls =
     map (\<lambda>line. case convert line of Inl _ \<Rightarrow> [] | Inr proxies \<Rightarrow> proxies) ls"

subsection \<open>What a link carries\<close>

text \<open>The parts of a mapping that a link of the URL form carries outside its query, by type.\<close>

definition linkScheme :: "proxyFields \<Rightarrow> string" where
  "linkScheme f =
     (let type = str f ''type'' in
      if type = ''http'' \<and> flag f ''tls'' then ''https''
      else if type = ''mieru'' then ''mierus'' else type)"

definition linkUser :: "proxyFields \<Rightarrow> (string \<times> string option) option" where
  "linkUser f =
     (let type = str f ''type''; password = str f ''password'' in
      if type = ''ss'' then Some (str f ''cipher'', Some password)
      else if type \<in> {''vmess'', ''vless''} then Some (str f ''uuid'', None)
      else if type \<in> {''trojan'', ''anytls''} then Some (password, None)
      else if type = ''hysteria'' then None
      else if type = ''hysteria2'' then (if password \<noteq> [] then Some (password, None) else None)
      else if type = ''tuic'' then (if str f ''uuid'' = [] then Some (str f ''token'', None)
                                    else Some (str f ''uuid'', Some password))
      else if type = ''mieru'' then Some (str f ''username'', Some password)
      else if str f ''username'' \<noteq> [] \<or> password \<noteq> [] then Some (str f ''username'', Some password)
      else None)"

definition linkHost :: "proxyFields \<Rightarrow> string" where
  "linkHost f =
     (let type = str f ''type'' in
      if type = ''mieru'' then mieruHost f
      else if type = ''hysteria2'' then hysteria2Host f
      else hostPort f)"

definition urlForm :: "proxyFields \<Rightarrow> bool" where
  "urlForm f \<longleftrightarrow> str f ''type'' \<noteq> ''ssr'' \<and>
     \<not> (str f ''type'' = ''vmess'' \<and> str f ''alterId'' \<noteq> [] \<and> str f ''alterId'' \<noteq> ''0'')"

lemma gm_wf_Nil_values: "gm_wf ([] :: urlValues)"
  by (simp add: gm_wf_Nil)

lemma gm_wf_setValue: "gm_wf q \<Longrightarrow> gm_wf (setValue k v q)"
  by (simp add: setValue_def gm_wf_update)

lemma gm_wf_setIf: "gm_wf q \<Longrightarrow> gm_wf (setIf k v q)"
  by (simp add: setIf_def gm_wf_setValue)

lemma gm_wf_if: "gm_wf x \<Longrightarrow> gm_wf y \<Longrightarrow> gm_wf (if b then x else y)"
  by simp

lemmas gm_wf_values = gm_wf_Nil_values gm_wf_setValue gm_wf_setIf gm_wf_if

lemma gm_wf_vShareTls: "gm_wf q \<Longrightarrow> gm_wf (vShareTls f q)"
  unfolding vShareTls_def Let_def by (intro gm_wf_values) assumption+

lemma gm_wf_vShareNetwork: "gm_wf q \<Longrightarrow> gm_wf (vShareNetwork f q)"
  unfolding vShareNetwork_def Let_def by (intro gm_wf_values) assumption+

lemma gm_wf_vShareQuery: "gm_wf (vShareQuery f)"
  unfolding vShareQuery_def Let_def by (intro gm_wf_vShareTls gm_wf_vShareNetwork gm_wf_values)

definition writes :: "proxyFields \<Rightarrow> string \<Rightarrow> bool" where
  "writes f s \<longleftrightarrow> s = [] \<or>
     (\<exists>q. gm_wf q \<and> s = shareURL (linkScheme f) (linkUser f) (linkHost f) q (str f ''name''))"

lemma writesI: "gm_wf q \<Longrightarrow> sch = linkScheme f \<Longrightarrow> u = linkUser f \<Longrightarrow> h = linkHost f \<Longrightarrow>
    writes f (shareURL sch u h q (str f ''name''))"
  by (auto simp: writes_def)

lemma writes_Nil: "writes f []"
  by (simp add: writes_def)

lemma writes_if: "(b \<Longrightarrow> writes f s) \<Longrightarrow> (\<not> b \<Longrightarrow> writes f t) \<Longrightarrow> writes f (if b then s else t)"
  by simp

lemmas writes_rules = writes_if writesI writes_Nil gm_wf_vShareQuery gm_wf_values
lemmas link_parts = linkScheme_def linkUser_def linkHost_def

lemma ss_writes: "str f ''type'' = ''ss'' \<Longrightarrow> writes f (encodeShadowsocks f)"
  unfolding encodeShadowsocks_def Let_def by (intro writes_rules) (simp_all add: link_parts)

lemma vmess_writes:
  "str f ''type'' = ''vmess'' \<Longrightarrow> urlForm f \<Longrightarrow> writes f (encodeVmess marshal setEarly f)"
  unfolding encodeVmess_def Let_def by (intro writes_rules) (auto simp: link_parts urlForm_def)

lemma vless_writes: "str f ''type'' = ''vless'' \<Longrightarrow> writes f (encodeVless f)"
  unfolding encodeVless_def Let_def by (intro writes_rules) (simp_all add: link_parts)

lemma trojan_writes: "str f ''type'' = ''trojan'' \<Longrightarrow> writes f (encodeTrojan f)"
  unfolding encodeTrojan_def Let_def by (intro writes_rules) (simp_all add: link_parts)

lemma hysteria_writes: "str f ''type'' = ''hysteria'' \<Longrightarrow> writes f (encodeHysteria f)"
  unfolding encodeHysteria_def Let_def by (intro writes_rules) (simp_all add: link_parts)

lemma hysteria2_writes: "str f ''type'' = ''hysteria2'' \<Longrightarrow> writes f (encodeHysteria2 f)"
  unfolding encodeHysteria2_def Let_def by (intro writes_rules) (simp_all add: link_parts)

lemma tuic_writes: "str f ''type'' = ''tuic'' \<Longrightarrow> writes f (encodeTuic f)"
  unfolding encodeTuic_def Let_def by (intro writes_rules) (simp_all add: link_parts)

lemma socks_writes:
  "str f ''type'' \<in> {''socks5'', ''http''} \<Longrightarrow> sch = linkScheme f \<Longrightarrow> writes f (encodeSocks f sch)"
  unfolding encodeSocks_def Let_def by (intro writes_rules) (auto simp: link_parts)

lemma anytls_writes: "str f ''type'' = ''anytls'' \<Longrightarrow> writes f (encodeAnyTLS f)"
  unfolding encodeAnyTLS_def Let_def by (intro writes_rules) (simp_all add: link_parts)

lemma mieru_writes: "str f ''type'' = ''mieru'' \<Longrightarrow> writes f (encodeMieru f)"
  unfolding encodeMieru_def Let_def by (intro writes_rules) (simp_all add: link_parts)

lemmas encoders_write = ss_writes vmess_writes vless_writes trojan_writes hysteria_writes
  hysteria2_writes tuic_writes socks_writes anytls_writes mieru_writes

lemma encode_writes:
  assumes "urlForm f"
  shows "writes f (encodeShareLink marshal setEarly f)"
proof -
  have "str f ''type'' \<noteq> ''ssr''"
    using assms by (simp add: urlForm_def)
  thus ?thesis
    unfolding encodeShareLink_def Let_def using assms
    by (intro writes_if writes_Nil encoders_write) (simp_all add: linkScheme_def)
qed

lemma lookup_set:
  "map_of (setValue k v q) k' = (if k' = k then Some v else map_of q k')"
  "map_of (setIf k v q) k' = (if k' = k \<and> v \<noteq> [] then Some v else map_of q k')"
  by (simp_all add: setValue_def setIf_def update_conv')

lemma keys_sorted: "gm_wf q \<Longrightarrow> distinct (map fst (sort_key fst q))"
  unfolding gm_wf_def by (simp add: distinct_map)

lemma lookup_sorted: "gm_wf q \<Longrightarrow> map_of (sort_key fst q) = map_of q"
  using keys_sorted [of q] by (simp add: map_of_inject_set gm_wf_def)

definition linkTypes :: "string list" where
  "linkTypes = [''ss'', ''ssr'', ''vmess'', ''vless'', ''trojan'', ''hysteria'', ''hysteria2'', ''tuic'',
     ''socks5'', ''http'', ''anytls'', ''mieru'']"

lemma linkTypes_table:
  "list_all (list_all isAlnum) (''https'' # ''mierus'' # linkTypes)"
  by code_simp

lemma encode_type: "encodeShareLink marshal setEarly f \<noteq> [] \<Longrightarrow> str f ''type'' \<in> set linkTypes"
  by (auto simp: encodeShareLink_def linkTypes_def Let_def split: if_split_asm)

lemma linkScheme_alnum:
  "str f ''type'' \<in> set linkTypes \<Longrightarrow> list_all isAlnum (linkScheme f)"
  using linkTypes_table by (simp add: linkScheme_def Let_def) (simp add: list_all_iff)

lemma link_read:
  assumes "list_all (\<lambda>c. \<not> shouldEscape c HostMode) (linkHost f)" and "linkHost f \<noteq> []"
    and "str f ''type'' \<in> set linkTypes"
  shows "readLink (shareURL (linkScheme f) u (linkHost f) q n) =
      Some (shareLink (linkScheme f) u (linkHost f) (sort_key fst q) n)"
  using assms linkScheme_alnum [OF assms(3)]
  by (simp add: shareURL_def readLink_urlString link_ok_def shareLink_def)

lemma linkHost_some: "str f ''server'' \<noteq> [] \<Longrightarrow> linkHost f \<noteq> []"
  by (simp add: linkHost_def mieruHost_def hysteria2Host_def hostPort_def joinHostPort_def Let_def)

lemma encode_server: "encodeShareLink marshal setEarly f \<noteq> [] \<Longrightarrow> str f ''server'' \<noteq> []"
  by (auto simp: encodeShareLink_def Let_def)


definition someProxy :: proxyFields where
  "someProxy = [(''type'', VString ''ss''), (''server'', VString ''a.example''), (''port'', VNumber ''443''),
     (''cipher'', VString ''x:y''), (''password'', VString ''p@s#s''), (''name'', VString ''my node''),
     (''udp-over-tcp'', VBool True)]"


lemma shareURL_some [simp]: "shareURL sch u h q n \<noteq> []"
  by (simp add: shareURL_def urlString_def Let_def)

lemma encoders_nil:
  "encodeShadowsocks f = [] \<longleftrightarrow> str f ''plugin'' \<notin> {[], ''obfs'', ''v2ray-plugin''}"
  "encodeShadowsocksR f = [] \<longleftrightarrow> str_contains (str f ''server'') '':''"
  "encodeVmess marshal setEarly f \<noteq> []" "encodeVless f \<noteq> []" "encodeHysteria f \<noteq> []"
  "encodeTrojan f = [] \<longleftrightarrow> str f ''network'' = ''ws'' \<and>
     str (subFields (subFields f ''ws-opts'') ''headers'') ''Host'' \<noteq> []"
  "encodeHysteria2 f = [] \<longleftrightarrow> flag (subFields f ''realm-opts'') ''enable''"
  "encodeTuic f \<noteq> []" "encodeSocks f sch \<noteq> []" "encodeAnyTLS f \<noteq> []" "encodeMieru f \<noteq> []"
  by (simp_all add: encodeShadowsocks_def encodeShadowsocksR_def encodeVmess_def encodeVless_def
      encodeHysteria_def encodeTrojan_def encodeHysteria2_def encodeTuic_def encodeSocks_def
      encodeAnyTLS_def encodeMieru_def Let_def)

text \<open>
  The empty string stands for a proxy no link can hold, and only for one: a mapping with no
  server or of another type, a shadowsocks proxy with a plugin the links do not know, a ShadowsocksR
  proxy on an IPv6 server, a trojan proxy whose WebSocket names its own host, a hysteria2 proxy in a
  realm.
\<close>

lemma no_link_exactly:
  "encodeShareLink marshal setEarly f \<noteq> [] \<longleftrightarrow>
     str f ''server'' \<noteq> [] \<and> str f ''type'' \<in> set linkTypes \<and>
     \<not> (str f ''type'' = ''ss'' \<and> str f ''plugin'' \<notin> {[], ''obfs'', ''v2ray-plugin''}) \<and>
     \<not> (str f ''type'' = ''ssr'' \<and> str_contains (str f ''server'') '':'') \<and>
     \<not> (str f ''type'' = ''trojan'' \<and> str f ''network'' = ''ws'' \<and>
         str (subFields (subFields f ''ws-opts'') ''headers'') ''Host'' \<noteq> []) \<and>
     \<not> (str f ''type'' = ''hysteria2'' \<and> flag (subFields f ''realm-opts'') ''enable'')"
  unfolding encodeShareLink_def Let_def
  by (simp add: encoders_nil linkTypes_def split: if_split)

definition readSsrParam :: "string \<Rightarrow> (string \<times> string) option" where
  "readSsrParam p = (case cut_at CHR ''='' p of (k, v, _) \<Rightarrow> map_option (Pair k) (rawUrlDecode v))"

definition readSsr :: "string \<Rightarrow> (string list \<times> string option \<times> (string \<times> string) list option) option" where
  "readSsr s =
     (case rawUrlDecode (drop (length ''ssr://'') s) of
        None \<Rightarrow> None
      | Some body \<Rightarrow>
          (case cut_at CHR ''/'' body of (plain, params, _) \<Rightarrow>
             (let ws = split_on CHR '':'' plain in
              Some (butlast ws, rawUrlDecode (last ws),
                those (map readSsrParam (split_on CHR ''&'' (drop 1 params)))))))"

lemma urlAlphabet_chars: "CHR '':'' \<notin> set (rawUrlEncode s)" "CHR ''/'' \<notin> set (rawUrlEncode s)"
  "CHR ''&'' \<notin> set (rawUrlEncode s)" "CHR ''='' \<notin> set (rawUrlEncode s)"
proof -
  have "CHR ''='' \<notin> set urlAlphabet" by code_simp
  then show "CHR '':'' \<notin> set (rawUrlEncode s)" "CHR ''/'' \<notin> set (rawUrlEncode s)"
    "CHR ''&'' \<notin> set (rawUrlEncode s)" "CHR ''='' \<notin> set (rawUrlEncode s)"
    using base64With_chars [OF alphabets(4), of s] alphabets(6-8) by (auto simp: rawUrlEncode_def)
qed

lemma readSsrParam_text:
  "CHR ''='' \<notin> set k \<Longrightarrow> readSsrParam (k @ ''='' @ rawUrlEncode v) = Some (k, v)"
  by (simp add: readSsrParam_def rawUrl_roundtrip)

definition ssrFields :: "string list" where
  "ssrFields = [''server'', ''port'', ''protocol'', ''cipher'', ''obfs'']"

text \<open>
  \<^bold>\<open>C23.\<close> A ShadowsocksR link reads back too: under its base64 stand the server, the port, the protocol,
  the cipher and the obfuscation split by colons, the password, and the three parameters, each of them
  base64 of what the mapping holds. The five plain fields are not escaped, so no colon and no slash may
  stand in them; the server's colon is the one the code refuses itself.
\<close>

lemma ssr_reads_back:
  assumes "str f ''type'' = ''ssr''" and "str f ''server'' \<noteq> []"
    and plain: "list_all (\<lambda>k. CHR '':'' \<notin> set (str f k) \<and> CHR ''/'' \<notin> set (str f k)) ssrFields"
  shows "readSsr (encodeShareLink marshal setEarly f) =
    Some (map (str f) ssrFields, Some (str f ''password''),
      Some [(''obfsparam'', str f ''obfs-param''), (''protoparam'', str f ''protocol-param''),
        (''remarks'', str f ''name'')])"
proof -
  define ws where "ws = map (str f) ssrFields @ [rawUrlEncode (str f ''password'')]"
  define ps where "ps = [''obfsparam'' @ ''='' @ rawUrlEncode (str f ''obfs-param''),
      ''protoparam'' @ ''='' @ rawUrlEncode (str f ''protocol-param''),
      ''remarks'' @ ''='' @ rawUrlEncode (str f ''name'')]"
  have body: "ssrBody f = str_join '':'' ws @ ''/'' @ ''?'' @ str_join ''&'' ps"
    by (simp add: ssrBody_def ws_def ps_def ssrFields_def)
  have ws: "CHR '':'' \<notin> set w" "CHR ''/'' \<notin> set w" if "w \<in> set ws" for w
    using that plain urlAlphabet_chars by (auto simp: ws_def list_all_iff)
  have ps: "CHR ''&'' \<notin> set p" if "p \<in> set ps" for p
    using that urlAlphabet_chars by (auto simp: ps_def)
  have "CHR ''/'' \<notin> set (str_join '':'' ws)"
    using set_str_join [of "'':''" ws] ws(2) by auto
  then have cut: "cut_at CHR ''/'' (ssrBody f) = (str_join '':'' ws, ''?'' @ str_join ''&'' ps, True)"
    unfolding body by simp
  have split: "split_on CHR '':'' (str_join '':'' ws) = ws" "split_on CHR ''&'' (str_join ''&'' ps) = ps"
    using ws(1) ps by (intro split_on_join; simp add: ws_def ps_def)+
  have "\<not> str_contains (str f ''server'') '':''"
    using plain by (auto simp: ssrFields_def str_contains_iff)
  then have link: "encodeShareLink marshal setEarly f = ''ssr://'' @ rawUrlEncode (ssrBody f)"
    using assms by (simp add: encodeShareLink_def encodeShadowsocksR_def)
  have params: "those (map readSsrParam ps) =
      Some [(''obfsparam'', str f ''obfs-param''), (''protoparam'', str f ''protocol-param''),
        (''remarks'', str f ''name'')]"
    unfolding ps_def list.map by (simp add: readSsrParam_text del: append_Cons append_Nil)
  show ?thesis
    unfolding link readSsr_def
    by (simp add: rawUrl_roundtrip cut split params) (simp add: ws_def rawUrl_roundtrip)
qed

lemma ssr_reads_back_witness:
  "\<exists>params. readSsr (encodeShareLink (\<lambda>_. []) (\<lambda>_ _. None)
      [(''type'', VString ''ssr''), (''server'', VString ''a.example''), (''port'', VNumber ''443''),
       (''password'', VString ''p:w/1'')]) =
     Some ([''a.example'', ''443'', [], [], []], Some ''p:w/1'', Some params) \<and> length params = 3"
  by (subst ssr_reads_back) (simp_all add: ssrFields_def str_def)

subsection \<open>The query of the Xray standard\<close>

definition ifAny :: "string \<Rightarrow> string option" where
  "ifAny v = (if v \<noteq> [] then Some v else None)"

definition networkKeys :: "string list" where
  "networkKeys = [''type'', ''headerType'', ''path'', ''host'', ''method'', ''ed'', ''eh'', ''serviceName'', ''mode'']"

lemma keeps_setValue: "key \<noteq> k \<Longrightarrow> map_of q key = r \<Longrightarrow> map_of (setValue k v q) key = r"
  by (simp add: lookup_set)

lemma keeps_setIf: "key \<noteq> k \<Longrightarrow> map_of q key = r \<Longrightarrow> map_of (setIf k v q) key = r"
  by (simp add: lookup_set)

lemma keeps_if: "map_of q key = r \<Longrightarrow> map_of p key = r \<Longrightarrow> map_of (if b then q else p) key = r"
  by simp

lemmas keeps_rules = keeps_if keeps_setValue keeps_setIf

lemma vShareNetwork_keeps:
  "key \<notin> set networkKeys \<Longrightarrow> map_of (vShareNetwork f q) key = map_of q key"
  unfolding vShareNetwork_def Let_def by (intro keeps_rules) (auto simp: networkKeys_def)

lemma vShareTls_keeps:
  "key \<in> {''type'', ''sni'', ''packetEncoding'', ''flow'', ''encryption''} \<Longrightarrow>
     map_of (vShareTls f q) key = map_of q key"
  unfolding vShareTls_def Let_def by (intro keeps_rules) auto

definition networkType :: "string \<Rightarrow> string option" where
  "networkType network =
     (if network = [] \<or> network = ''tcp'' then None
      else if network = ''http'' then Some ''tcp''
      else if network = ''h2'' then Some ''http'' else Some network)"

lemma type_setIf: "k \<noteq> ''type'' \<Longrightarrow> map_of q ''type'' = r \<Longrightarrow> map_of (setIf k v q) ''type'' = r"
  by (simp add: lookup_set)

lemma type_setValue: "k \<noteq> ''type'' \<Longrightarrow> map_of q ''type'' = r \<Longrightarrow> map_of (setValue k v q) ''type'' = r"
  by (simp add: lookup_set)

lemma type_here: "map_of (setValue ''type'' v q) ''type'' = Some v"
  by (simp add: lookup_set)

lemma vShareNetwork_type:
  "map_of q ''type'' = None \<Longrightarrow> map_of (vShareNetwork f q) ''type'' = networkType (str f ''network'')"
  unfolding vShareNetwork_def Let_def
  by (cases "str f ''network'' \<in> {[], ''tcp''}"; cases "str f ''network'' = ''http''";
      cases "str f ''network'' = ''h2''") (simp_all add: networkType_def type_here lookup_set)

lemma vShareTls_security:
  "map_of (vShareTls f []) ''security'' =
     (if \<not> flag f ''tls'' then None
      else if str (subFields f ''reality-opts'') ''public-key'' \<noteq> [] then Some ''reality'' else Some ''tls'')"
  "map_of (vShareTls f []) ''pbk'' =
     (if flag f ''tls'' then ifAny (str (subFields f ''reality-opts'') ''public-key'') else None)"
  by (simp_all add: vShareTls_def Let_def lookup_set ifAny_def)


lemma vShareQuery_fields:
  "map_of (vShareQuery f) ''type'' = networkType (str f ''network'')"
  "map_of (vShareQuery f) ''security'' = map_of (vShareTls f []) ''security''"
  "map_of (vShareQuery f) ''pbk'' = map_of (vShareTls f []) ''pbk''"
  "map_of (vShareQuery f) ''sni'' = ifAny (str f ''servername'')"
  "map_of (vShareQuery f) ''packetEncoding'' =
     (if flag f ''packet-addr'' then Some ''packet'' else if flag f ''xudp'' then None else Some ''none'')"
  "key \<in> {''flow'', ''encryption''} \<Longrightarrow> map_of (vShareQuery f) key = None"
  by (auto simp: vShareQuery_def Let_def lookup_set vShareNetwork_type vShareNetwork_keeps networkKeys_def
      vShareTls_keeps ifAny_def)

lemma vless_fields:
  assumes "str f ''type'' = ''vless''" and "str f ''server'' \<noteq> []"
  obtains q where "gm_wf q" and
    "encodeShareLink marshal setEarly f = shareURL ''vless'' (Some (str f ''uuid'', None)) (hostPort f) q (str f ''name'')"
    and "map_of q ''type'' = networkType (str f ''network'')"
    and "map_of q ''security'' = map_of (vShareTls f []) ''security''"
    and "map_of q ''pbk'' = map_of (vShareTls f []) ''pbk''"
    and "map_of q ''sni'' = ifAny (str f ''servername'')"
    and "map_of q ''flow'' = ifAny (str f ''flow'')"
    and "map_of q ''encryption'' = ifAny (str f ''encryption'')"
proof
  define q where "q = setIf ''encryption'' (str f ''encryption'') (setIf ''flow'' (str f ''flow'') (vShareQuery f))"
  show "gm_wf q"
    unfolding q_def by (intro gm_wf_vShareQuery gm_wf_values)
  show "encodeShareLink marshal setEarly f =
      shareURL ''vless'' (Some (str f ''uuid'', None)) (hostPort f) q (str f ''name'')"
    using assms by (simp add: encodeShareLink_def encodeVless_def q_def Let_def)
  show "map_of q ''type'' = networkType (str f ''network'')"
    "map_of q ''security'' = map_of (vShareTls f []) ''security''"
    "map_of q ''pbk'' = map_of (vShareTls f []) ''pbk''"
    "map_of q ''sni'' = ifAny (str f ''servername'')"
    "map_of q ''flow'' = ifAny (str f ''flow'')"
    "map_of q ''encryption'' = ifAny (str f ''encryption'')"
    by (simp_all add: q_def lookup_set vShareQuery_fields ifAny_def)
qed

text \<open>
  What a reader of a VLESS link finds: \<open>security=reality\<close> with the public key exactly when the
  mapping turns TLS on and has one, \<open>security=tls\<close> when it turns TLS on without one, no security at all
  otherwise; the transport under the name the standard gives it; the server name, the flow and the
  encryption exactly when the mapping has them.
\<close>

lemma vless_reads_back:
  assumes "str f ''type'' = ''vless''" and "str f ''server'' \<noteq> []"
    and "list_all (\<lambda>c. \<not> shouldEscape c HostMode) (hostPort f)"
  shows "\<exists>q. readLink (encodeShareLink marshal setEarly f) =
             Some (shareLink ''vless'' (Some (str f ''uuid'', None)) (hostPort f) q (str f ''name'')) \<and>
           map_of q ''security'' =
             (if \<not> flag f ''tls'' then None
              else if str (subFields f ''reality-opts'') ''public-key'' \<noteq> [] then Some ''reality''
              else Some ''tls'') \<and>
           map_of q ''pbk'' =
             (if flag f ''tls'' then ifAny (str (subFields f ''reality-opts'') ''public-key'') else None) \<and>
           map_of q ''type'' = networkType (str f ''network'') \<and>
           map_of q ''sni'' = ifAny (str f ''servername'') \<and>
           map_of q ''flow'' = ifAny (str f ''flow'') \<and>
           map_of q ''encryption'' = ifAny (str f ''encryption'')"
proof -
  have parts: "linkScheme f = ''vless''" "linkHost f = hostPort f" "str f ''type'' \<in> set linkTypes"
    using assms(1) by (simp_all add: linkScheme_def linkHost_def linkTypes_def)
  obtain q where q: "gm_wf q" and
    enc: "encodeShareLink marshal setEarly f = shareURL ''vless'' (Some (str f ''uuid'', None)) (hostPort f) q (str f ''name'')"
    and fields: "map_of q ''type'' = networkType (str f ''network'')"
    "map_of q ''security'' = map_of (vShareTls f []) ''security''"
    "map_of q ''pbk'' = map_of (vShareTls f []) ''pbk''"
    "map_of q ''sni'' = ifAny (str f ''servername'')"
    "map_of q ''flow'' = ifAny (str f ''flow'')"
    "map_of q ''encryption'' = ifAny (str f ''encryption'')"
    by (rule vless_fields [OF assms(1,2)])
  note read = link_read [of f "Some (str f ''uuid'', None)" q "str f ''name''",
      OF _ linkHost_some [OF assms(2)] parts(3), unfolded parts]
  show ?thesis
    using read [OF assms(3)] unfolding enc
    by (intro exI [of _ "sort_key fst q"]) (simp add: lookup_sorted [OF q] fields vShareTls_security)
qed

definition someVless :: proxyFields where
  "someVless = [(''type'', VString ''vless''), (''server'', VString ''a.example''), (''port'', VNumber ''443''),
     (''uuid'', VString ''u-1''), (''name'', VString ''n''), (''tls'', VBool True), (''network'', VString ''h2''),
     (''reality-opts'', VMap [(''public-key'', VString ''K'')])]"

end
