(* ===== verification/YamlNode.thy ===== *)
theory YamlNode
  imports GoStrings
begin

section \<open>YAML documents as nodes of a heap\<close>

text \<open>
  The nodes of \<open>yaml.Node\<close>, in the fields the core reads and writes. A document is a graph of
  pointers: an alias points to the node it names, and two places may share a node. A pointer is the
  position of its node in the heap, counted from one; \<open>nil\<close> is 0. \<open>treeOf\<close> is what a node stands for,
  read through its aliases.
\<close>

datatype kind = KZero | KDocument | KSequence | KMapping | KScalar | KAlias

type_synonym ref = nat

record node =
  Kind :: kind
  Tag :: string
  Style :: nat
  Value :: string
  Anchor :: string
  Alias :: ref
  Content :: "ref list"
  Line :: int

type_synonym heap = "node list"

definition zeroNode :: node where
  "zeroNode = \<lparr>Kind = KZero, Tag = [], Style = 0, Value = [], Anchor = [], Alias = 0, Content = [], Line = 0\<rparr>"

definition node_at :: "heap \<Rightarrow> ref \<Rightarrow> node" where
  "node_at h r = (if 0 < r \<and> r \<le> length h then h ! (r - 1) else zeroNode)"

definition set_node :: "heap \<Rightarrow> ref \<Rightarrow> node \<Rightarrow> heap" where
  "set_node h r n = (if 0 < r then h[r - 1 := n] else h)"

definition new_node :: "heap \<Rightarrow> node \<Rightarrow> ref \<times> heap" where
  "new_node h n = (Suc (length h), h @ [n])"

lemma node_at_0 [simp]: "node_at h 0 = zeroNode"
  by (simp add: node_at_def)

lemma node_at_set:
  "node_at (set_node h r n) q = (if q = r \<and> 0 < r \<and> r \<le> length h then n else node_at h q)"
  by (cases q; cases r) (auto simp: node_at_def set_node_def nth_list_update)

lemma length_set_node [simp]: "length (set_node h r n) = length h"
  by (simp add: set_node_def)

lemma node_at_new:
  "node_at (snd (new_node h n)) r = (if r = Suc (length h) then n else node_at h r)"
  by (auto simp: node_at_def new_node_def nth_append)

lemma zeroNode_simps [simp]:
  "Kind zeroNode = KZero" "Content zeroNode = []" "Alias zeroNode = 0" "Anchor zeroNode = []"
  by (simp_all add: zeroNode_def)

subsection \<open>Aliases (\<open>resolveAlias\<close>)\<close>

text \<open>The loop over aliases ends on every document the parser makes, and not on an alias of itself.\<close>

partial_function (option) resolveAlias :: "heap \<Rightarrow> ref \<Rightarrow> ref option" where
  "resolveAlias h r =
     (if Kind (node_at h r) = KAlias \<and> Alias (node_at h r) \<noteq> 0
      then resolveAlias h (Alias (node_at h r)) else Some r)"

lemma resolve_here: "Kind (node_at h r) \<noteq> KAlias \<Longrightarrow> resolveAlias h r = Some r"
  by (subst resolveAlias.simps) simp

lemma resolve_nil [simp]: "resolveAlias h 0 = Some 0"
  by (rule resolve_here) simp

lemma resolve_end:
  assumes "resolveAlias h r = Some s"
  shows "\<not> (Kind (node_at h s) = KAlias \<and> Alias (node_at h s) \<noteq> 0)"
  by (rule resolveAlias.raw_induct [OF _ assms]) (auto split: if_splits)

lemma resolve_resolved: "resolveAlias h r = Some s \<Longrightarrow> resolveAlias h s = Some s"
  using resolve_end [of h r s] by (subst resolveAlias.simps) auto

text \<open>Only the kinds and the aliases decide how aliases resolve.\<close>

definition same_links :: "heap \<Rightarrow> heap \<Rightarrow> bool" where
  "same_links h g \<longleftrightarrow> (\<forall>r. Kind (node_at h r) = Kind (node_at g r) \<and> Alias (node_at h r) = Alias (node_at g r))"

lemma same_links_sym: "same_links h g \<Longrightarrow> same_links g h"
  by (simp add: same_links_def)

lemma resolve_same_links_half:
  assumes "resolveAlias h r = Some s"
  shows "\<forall>g. same_links h g \<longrightarrow> resolveAlias g r = Some s"
proof (rule resolveAlias.raw_induct [where P = "\<lambda>h r s. \<forall>g. same_links h g \<longrightarrow> resolveAlias g r = Some s", OF _ assms])
  fix f h r s
  assume step: "\<And>h r s. f h r = Some s \<Longrightarrow> \<forall>g. same_links h g \<longrightarrow> resolveAlias g r = Some s"
    and body: "(if Kind (node_at h r) = KAlias \<and> Alias (node_at h r) \<noteq> 0
        then f h (Alias (node_at h r)) else Some r) = Some s"
  show "\<forall>g. same_links h g \<longrightarrow> resolveAlias g r = Some s"
  proof (intro allI impI)
    fix g
    assume "same_links h g"
    then show "resolveAlias g r = Some s"
      using step [of h "Alias (node_at h r)" s] body
      by (subst resolveAlias.simps) (auto simp: same_links_def split: if_splits)
  qed
qed

lemma resolve_same_links: "same_links h g \<Longrightarrow> resolveAlias h r = resolveAlias g r"
proof (cases "resolveAlias h r")
  case None
  assume "same_links h g"
  with None show ?thesis
    using resolve_same_links_half [of g r] same_links_sym [of h g] by (cases "resolveAlias g r") auto
next
  case (Some s)
  assume "same_links h g"
  with Some show ?thesis using resolve_same_links_half [of h r s] by simp
qed

subsection \<open>What a node stands for\<close>

text \<open>
  The tree of a node down to a depth, through its aliases: kind, tag, style, text and children, without
  anchors. A tree cut off, a nil child and an alias that never ends read as \<open>TNil\<close>.
\<close>

datatype tree = TNil | Tree kind string nat string "tree list"

primrec treeOf :: "nat \<Rightarrow> heap \<Rightarrow> ref \<Rightarrow> tree" where
  "treeOf 0 h r = TNil"
| "treeOf (Suc n) h r =
     (case resolveAlias h r of
        None \<Rightarrow> TNil
      | Some s \<Rightarrow>
          if s = 0 then TNil
          else (let m = node_at h s in
                Tree (Kind m) (Tag m) (Style m) (Value m) (map (treeOf n h) (Content m))))"

lemma treeOf_resolved:
  assumes "resolveAlias h r = Some s"
  shows "treeOf n h s = treeOf n h r"
  using assms resolve_resolved [OF assms] by (cases n) simp_all

subsection \<open>Documents without a cycle\<close>

text \<open>A rank that falls along every edge, to a child or to the node an alias names.\<close>

definition edges :: "heap \<Rightarrow> ref \<Rightarrow> ref list" where
  "edges h r = (if Kind (node_at h r) = KAlias then [Alias (node_at h r)] else []) @ Content (node_at h r)"

definition ranked :: "heap \<Rightarrow> (ref \<Rightarrow> nat) \<Rightarrow> bool" where
  "ranked h rk \<longleftrightarrow> (\<forall>r q. q \<in> set (edges h r) \<longrightarrow> rk q < rk r)"

lemma ranked_child: "ranked h rk \<Longrightarrow> q \<in> set (Content (node_at h r)) \<Longrightarrow> rk q < rk r"
  by (simp add: ranked_def edges_def)

lemma ranked_alias: "ranked h rk \<Longrightarrow> Kind (node_at h r) = KAlias \<Longrightarrow> rk (Alias (node_at h r)) < rk r"
  by (simp add: ranked_def edges_def)

lemma ranked_resolves:
  assumes "ranked h rk"
  shows "\<exists>s. resolveAlias h r = Some s \<and> rk s \<le> rk r"
proof (induction "rk r" arbitrary: r rule: less_induct)
  case less
  show ?case
  proof (cases "Kind (node_at h r) = KAlias \<and> Alias (node_at h r) \<noteq> 0")
    case True
    then have "rk (Alias (node_at h r)) < rk r"
      using ranked_alias [OF assms] by simp
    then show ?thesis
      using less [of "Alias (node_at h r)"] True by (subst resolveAlias.simps) fastforce
  next
    case False
    then show ?thesis by (subst resolveAlias.simps) auto
  qed
qed

end
