(* ===== verification/ProfileBase.thy ===== *)
theory ProfileBase
  imports YamlNode ShareLink Dispatch
begin

section \<open>Profiles and the overlay of the host (\<open>core/profile_base.go\<close>, \<open>core/short_id.go\<close>)\<close>

text \<open>
  The merge of a profile with the overlay the host sends, on the nodes of a heap, and the writing of the
  merged document. Fuel bounds the recursions over documents; a run without enough of it is \<open>None\<close>, and on
  documents without a cycle the rank of the root is enough. The YAML library, the decryption and the file
  system are the fields of \<open>yamlEnv\<close>. A nil child, which no parsed document has, reads as an empty node.
\<close>

record yamlEnv =
  readFile :: "string \<Rightarrow> (string, bytes) result"
  decrypt :: "bytes \<Rightarrow> (string, bytes) result"                 \<comment> \<open>\<open>age.DecryptBytes\<close>\<close>
  parseYaml :: "bytes \<Rightarrow> heap \<Rightarrow> (string, ref \<times> heap) result"  \<comment> \<open>\<open>yaml.Unmarshal\<close> into a node\<close>
  shortTag :: "node \<Rightarrow> string"                                \<comment> \<open>\<open>Node.ShortTag\<close>\<close>

record SetupBase =
  sb_path :: string
  sb_overlay :: string

subsection \<open>Lookups and assignments in a mapping\<close>

definition isNull :: "yamlEnv \<Rightarrow> node \<Rightarrow> bool" where
  "isNull env n \<longleftrightarrow> Kind n = KScalar \<and> shortTag env n = ''!!null''"

definition mappingNode :: node where
  "mappingNode = zeroNode\<lparr>Kind := KMapping, Tag := ''!!map''\<rparr>"

definition documentMapping ::
  "yamlEnv \<Rightarrow> heap \<Rightarrow> ref \<Rightarrow> ((string, ref) result \<times> heap) option" where
  "documentMapping env h document =
     (let d = node_at h document in
      case (if Kind d = KDocument \<and> Content d \<noteq> [] then resolveAlias h (hd (Content d)) else Some document) of
        None \<Rightarrow> None
      | Some r \<Rightarrow>
          (let n = node_at h r in
           if Kind n = KMapping then Some (Inr r, h)
           else if Kind n = KZero \<or> Kind n = KDocument \<or> isNull env n
           then (let (r, h) = new_node h mappingNode in Some (Inr r, h))
           else Some (Inl (''line '' @ format_int (Line n) @ '': a config must be a mapping''), h)))"

fun pairs_of :: "'a list \<Rightarrow> ('a \<times> 'a) list" where
  "pairs_of (a # b # r) = (a, b) # pairs_of r"
| "pairs_of _ = []"

text \<open>The first loop of \<open>mappingValue\<close>: the value of the key, or the sources of its merge keys.\<close>

fun scanPairs :: "yamlEnv \<Rightarrow> heap \<Rightarrow> string \<Rightarrow> (ref \<times> ref) list \<Rightarrow> ref list \<Rightarrow> ref list + ref" where
  "scanPairs env h key [] sources = Inl sources"
| "scanPairs env h key ((name, value) # ps) sources =
     (let n = node_at h name in
      if Kind n \<noteq> KScalar then scanPairs env h key ps sources
      else if shortTag env n = ''!!merge'' then scanPairs env h key ps (sources @ [value])
      else if Value n = key then Inr value
      else scanPairs env h key ps sources)"

fun firstOf :: "(ref \<Rightarrow> ref option) \<Rightarrow> ref list \<Rightarrow> ref option" where
  "firstOf f [] = Some 0"
| "firstOf f (r # rs) =
     (case f r of
        None \<Rightarrow> None
      | Some v \<Rightarrow> if v \<noteq> 0 then Some v else firstOf f rs)"

primrec mappingValue :: "nat \<Rightarrow> yamlEnv \<Rightarrow> heap \<Rightarrow> string \<Rightarrow> ref \<Rightarrow> ref option" where
  "mappingValue 0 env h key mapping = None"
| "mappingValue (Suc n) env h key mapping =
     (case scanPairs env h key (pairs_of (Content (node_at h mapping))) [] of
        Inr value \<Rightarrow> Some value
      | Inl sources \<Rightarrow>
          firstOf (\<lambda>source. case resolveAlias h source of
              None \<Rightarrow> None
            | Some s \<Rightarrow>
                firstOf (\<lambda>candidate. case resolveAlias h candidate of
                    None \<Rightarrow> None
                  | Some c \<Rightarrow> if Kind (node_at h c) = KMapping then mappingValue n env h key c else Some 0)
                  (if Kind (node_at h s) = KSequence then Content (node_at h s) else [s]))
            sources)"

fun setPair :: "heap \<Rightarrow> string \<Rightarrow> ref \<Rightarrow> ref list \<Rightarrow> ref list option" where
  "setPair h key value (name # old # r) =
     (if Kind (node_at h name) = KScalar \<and> Value (node_at h name) = key then Some (name # value # r)
      else map_option (\<lambda>r. name # old # r) (setPair h key value r))"
| "setPair h key value _ = None"

definition strNode :: "string \<Rightarrow> node" where
  "strNode s = zeroNode\<lparr>Kind := KScalar, Tag := ''!!str'', Value := s\<rparr>"

definition setContent :: "heap \<Rightarrow> ref \<Rightarrow> ref list \<Rightarrow> heap" where
  "setContent h r c = set_node h r ((node_at h r)\<lparr>Content := c\<rparr>)"

definition setMappingValue :: "heap \<Rightarrow> ref \<Rightarrow> string \<Rightarrow> ref \<Rightarrow> heap" where
  "setMappingValue h mapping key value =
     (case setPair h key value (Content (node_at h mapping)) of
        Some c \<Rightarrow> setContent h mapping c
      | None \<Rightarrow>
          (let (k, h) = new_node h (strNode key)
           in setContent h mapping (Content (node_at h mapping) @ [k, value])))"

definition appendRules ::
  "yamlEnv \<Rightarrow> heap \<Rightarrow> ref \<Rightarrow> ref \<Rightarrow> ((string, ref) result \<times> heap) option" where
  "appendRules env h added profile =
     (if profile = 0 then Some (Inr 0, h)
      else case (resolveAlias h added, resolveAlias h profile) of
          (Some a, Some p) \<Rightarrow>
            (let m = node_at h a; n = node_at h p in
             if a = 0 \<or> isNull env m \<or> Kind m = KSequence \<and> Content m = [] then Some (Inr p, h)
             else if isNull env n then Some (Inr a, h)
             else if Kind m \<noteq> KSequence \<or> Kind n \<noteq> KSequence
             then Some (Inl (''line '' @ format_int (Line n) @ '': rules must be a list''), h)
             else (let (r, h) = new_node h (zeroNode\<lparr>Kind := KSequence, Tag := ''!!seq'', Content := Content m @ Content n\<rparr>)
                   in Some (Inr r, h)))
        | _ \<Rightarrow> None)"

subsection \<open>Short ids\<close>

definition setTag :: "heap \<Rightarrow> ref \<Rightarrow> string \<Rightarrow> heap" where
  "setTag h r t = set_node h r ((node_at h r)\<lparr>Tag := t\<rparr>)"

fun retagAll :: "(heap \<Rightarrow> ref \<Rightarrow> (heap \<times> bool) option) \<Rightarrow> ref list \<Rightarrow> heap \<times> bool \<Rightarrow> (heap \<times> bool) option" where
  "retagAll f [] hb = Some hb"
| "retagAll f (r # rs) (h, b) =
     (case f h r of
        None \<Rightarrow> None
      | Some (h, b') \<Rightarrow> retagAll f rs (h, b' \<or> b))"

primrec retagNumber :: "nat \<Rightarrow> heap \<Rightarrow> ref \<Rightarrow> (heap \<times> bool) option" where
  "retagNumber 0 h r = None"
| "retagNumber (Suc n) h r =
     (let m = node_at h r in
      if Kind m = KScalar
      then (if Style m = 0 \<and> (Tag m = ''!!int'' \<or> Tag m = ''!!float'') then Some (setTag h r ''!!str'', True)
            else Some (h, False))
      else if Kind m = KSequence then retagAll (retagNumber n) (Content m) (h, False)
      else Some (h, False))"

definition shortIdValues :: "heap \<Rightarrow> node \<Rightarrow> ref list" where
  "shortIdValues h m =
     (if Kind m = KMapping
      then map snd (filter (\<lambda>(name, _). Value (node_at h name) = ''short-id'') (pairs_of (Content m)))
      else [])"

primrec retagShortIDs :: "nat \<Rightarrow> heap \<Rightarrow> ref \<Rightarrow> (heap \<times> bool) option" where
  "retagShortIDs 0 h r = None"
| "retagShortIDs (Suc n) h r =
     (let m = node_at h r in
      case retagAll (retagNumber n) (shortIdValues h m) (h, False) of
        None \<Rightarrow> None
      | Some hb \<Rightarrow> retagAll (retagShortIDs n) (Content m) hb)"

subsection \<open>The merge\<close>

definition profileBaseSections :: "string list" where
  "profileBaseSections = [''proxies'', ''proxy-groups'', ''sub-rules'']"

fun mergeSections :: "nat \<Rightarrow> yamlEnv \<Rightarrow> ref \<Rightarrow> ref \<Rightarrow> string list \<Rightarrow> heap \<Rightarrow> heap option" where
  "mergeSections n env profile root [] h = Some h"
| "mergeSections n env profile root (key # keys) h =
     (case mappingValue n env h key profile of
        None \<Rightarrow> None
      | Some value \<Rightarrow>
          mergeSections n env profile root keys (if value \<noteq> 0 then setMappingValue h root key value else h))"

definition mergeRules ::
  "nat \<Rightarrow> yamlEnv \<Rightarrow> ref \<Rightarrow> ref \<Rightarrow> heap \<Rightarrow> ((string, unit) result \<times> heap) option" where
  "mergeRules n env profile root h =
     (case (mappingValue n env h ''rules'' root, mappingValue n env h ''rules'' profile) of
        (Some added, Some own) \<Rightarrow>
          (case appendRules env h added own of
             None \<Rightarrow> None
           | Some (Inl e, h) \<Rightarrow> Some (Inl e, h)
           | Some (Inr rules, h) \<Rightarrow>
               Some (Inr (), if rules \<noteq> 0 then setMappingValue h root ''rules'' rules else h))
      | _ \<Rightarrow> None)"

definition mergeMappings ::
  "nat \<Rightarrow> yamlEnv \<Rightarrow> bool \<Rightarrow> ref \<Rightarrow> ref \<Rightarrow> heap \<Rightarrow> ((string, ref) result \<times> heap) option" where
  "mergeMappings n env retag profile root h =
     (case mergeSections n env profile root profileBaseSections h of
        None \<Rightarrow> None
      | Some h \<Rightarrow>
          (case mergeRules n env profile root h of
             None \<Rightarrow> None
           | Some (Inl e, h) \<Rightarrow> Some (Inl e, h)
           | Some (Inr _, h) \<Rightarrow>
               (case (if retag then retagShortIDs n h root else Some (h, False)) of
                  None \<Rightarrow> None
                | Some (h, _) \<Rightarrow>
                    (let (d, h) = new_node h (zeroNode\<lparr>Kind := KDocument, Content := [root]\<rparr>)
                     in Some (Inr d, h)))))"

definition mergeDocuments ::
  "nat \<Rightarrow> yamlEnv \<Rightarrow> bool \<Rightarrow> ref \<Rightarrow> ref \<Rightarrow> heap \<Rightarrow> ((string, ref) result \<times> heap) option" where
  "mergeDocuments n env retag profileDocument overlayDocument h =
     (case documentMapping env h profileDocument of
        None \<Rightarrow> None
      | Some (Inl e, h) \<Rightarrow> Some (Inl e, h)
      | Some (Inr profile, h) \<Rightarrow>
          (case documentMapping env h overlayDocument of
             None \<Rightarrow> None
           | Some (Inl e, h) \<Rightarrow> Some (Inl e, h)
           | Some (Inr root, h) \<Rightarrow> mergeMappings n env retag profile root h))"

definition mergeProfileBase ::
  "nat \<Rightarrow> yamlEnv \<Rightarrow> SetupBase \<Rightarrow> heap \<Rightarrow> ((string, ref) result \<times> heap) option" where
  "mergeProfileBase n env base h =
     (case readFile env (sb_path base) of
        Inl e \<Rightarrow> Some (Inl e, h)
      | Inr buf \<Rightarrow>
          (case decrypt env buf of
             Inl e \<Rightarrow> Some (Inl (''decrypt config error: '' @ e), h)
           | Inr buf \<Rightarrow>
               (case parseYaml env buf h of
                  Inl e \<Rightarrow> Some (Inl e, h)
                | Inr (profileDocument, h) \<Rightarrow>
                    (case parseYaml env (sb_overlay base) h of
                       Inl e \<Rightarrow> Some (Inl e, h)
                     | Inr (overlayDocument, h) \<Rightarrow>
                         mergeDocuments n env (str_contains buf ''short-id'') profileDocument overlayDocument h))))"

end
