(* ===== verification/ProfileProofs.thy ===== *)
theory ProfileProofs
  imports ProfileBase
begin

section \<open>The merge of a profile with its overlay\<close>

subsection \<open>Lookups through merge keys\<close>

text \<open>
  The reference for \<open>mappingValue\<close>: the pairs of a mapping as the decoder sees them, its own keys first,
  then the pairs of the mappings it merges, in order.
\<close>

definition ownPairs :: "yamlEnv \<Rightarrow> heap \<Rightarrow> (ref \<times> ref) list \<Rightarrow> (string \<times> ref) list" where
  "ownPairs env h ps =
     map (\<lambda>(k, v). (Value (node_at h k), v))
       (filter (\<lambda>(k, _). Kind (node_at h k) = KScalar \<and> shortTag env (node_at h k) \<noteq> ''!!merge'') ps)"

definition mergeSources :: "yamlEnv \<Rightarrow> heap \<Rightarrow> (ref \<times> ref) list \<Rightarrow> ref list" where
  "mergeSources env h ps =
     map snd (filter (\<lambda>(k, _). Kind (node_at h k) = KScalar \<and> shortTag env (node_at h k) = ''!!merge'') ps)"

definition candidates :: "heap \<Rightarrow> ref \<Rightarrow> ref list" where
  "candidates h source =
     (let s = the (resolveAlias h source)
      in map (\<lambda>c. the (resolveAlias h c)) (if Kind (node_at h s) = KSequence then Content (node_at h s) else [s]))"

primrec mergedPairs :: "nat \<Rightarrow> yamlEnv \<Rightarrow> heap \<Rightarrow> ref \<Rightarrow> (string \<times> ref) list" where
  "mergedPairs 0 env h m = []"
| "mergedPairs (Suc n) env h m =
     (let ps = pairs_of (Content (node_at h m)) in
      ownPairs env h ps @
      concat (map (mergedPairs n env h)
        (filter (\<lambda>c. Kind (node_at h c) = KMapping) (concat (map (candidates h) (mergeSources env h ps))))))"

definition valueOf :: "(string \<times> ref) list \<Rightarrow> string \<Rightarrow> ref" where
  "valueOf ps key = (case map_of ps key of None \<Rightarrow> 0 | Some v \<Rightarrow> v)"

lemma ownPairs_simps [simp]:
  "ownPairs env h [] = []"
  "ownPairs env h ((k, v) # ps) =
     (if Kind (node_at h k) = KScalar \<and> shortTag env (node_at h k) \<noteq> ''!!merge''
      then (Value (node_at h k), v) # ownPairs env h ps else ownPairs env h ps)"
  by (simp_all add: ownPairs_def)

lemma mergeSources_simps [simp]:
  "mergeSources env h [] = []"
  "mergeSources env h ((k, v) # ps) =
     (if Kind (node_at h k) = KScalar \<and> shortTag env (node_at h k) = ''!!merge''
      then v # mergeSources env h ps else mergeSources env h ps)"
  by (simp_all add: mergeSources_def)

lemma scanPairs_spec:
  "scanPairs env h key ps sources =
     (case map_of (ownPairs env h ps) key of
        Some v \<Rightarrow> Inr v
      | None \<Rightarrow> Inl (sources @ mergeSources env h ps))"
proof (induction ps arbitrary: sources)
  case Nil
  then show ?case by simp
next
  case (Cons p ps)
  obtain k v where p: "p = (k, v)" by (cases p)
  show ?case
    by (cases "shortTag env (node_at h k) = ''!!merge''"; cases "Kind (node_at h k) = KScalar")
      (simp_all add: p Cons split: option.split)
qed

lemma firstOf_spec:
  assumes "\<And>r. r \<in> set rs \<Longrightarrow> f r = Some (valueOf (g r) key)"
    and "\<And>r. r \<in> set rs \<Longrightarrow> 0 \<notin> snd ` set (g r)"
  shows "firstOf f rs = Some (valueOf (concat (map g rs)) key)"
  using assms
proof (induction rs)
  case Nil
  then show ?case by (simp add: valueOf_def)
next
  case (Cons r rs)
  then have "f r = Some (valueOf (g r) key)" "0 \<notin> snd ` set (g r)" by simp_all
  moreover have "firstOf f rs = Some (valueOf (concat (map g rs)) key)"
    using Cons by simp
  ultimately show ?case
    by (auto simp: valueOf_def split: option.splits dest: map_of_SomeD) (force dest: map_of_SomeD)
qed

definition nil_free :: "heap \<Rightarrow> bool" where
  "nil_free h \<longleftrightarrow> (\<forall>r. 0 \<notin> set (Content (node_at h r)))"

lemma pairs_of_set: "(a, b) \<in> set (pairs_of xs) \<Longrightarrow> a \<in> set xs \<and> b \<in> set xs"
  by (induction xs rule: pairs_of.induct) auto

lemma mergedPairs_some: "nil_free h \<Longrightarrow> 0 \<notin> snd ` set (mergedPairs n env h m)"
proof (induction n arbitrary: m)
  case 0
  then show ?case by simp
next
  case (Suc n)
  have "0 \<notin> snd ` set (ownPairs env h (pairs_of (Content (node_at h m))))"
    using pairs_of_set Suc(2) by (fastforce simp: ownPairs_def nil_free_def)
  then show ?case
    using Suc by (auto simp: Let_def image_iff)
qed

lemma candidates_rank:
  assumes "ranked h rk" and "c \<in> set (candidates h source)"
  shows "rk c \<le> rk source"
proof -
  obtain s where s: "resolveAlias h source = Some s" "rk s \<le> rk source"
    using ranked_resolves [OF assms(1)] by blast
  obtain q where q: "q \<in> set (if Kind (node_at h s) = KSequence then Content (node_at h s) else [s])"
      "c = the (resolveAlias h q)"
    using assms(2) s by (auto simp: candidates_def Let_def split: if_splits)
  moreover obtain t where "resolveAlias h q = Some t" "rk t \<le> rk q"
    using ranked_resolves [OF assms(1)] by blast
  moreover have "rk q \<le> rk s"
    using q(1) ranked_child [OF assms(1), of q s] by (auto split: if_splits)
  ultimately show ?thesis using s by simp
qed

lemma concat_some: "(\<And>c. 0 \<notin> snd ` set (g c)) \<Longrightarrow> 0 \<notin> snd ` set (concat (map g xs))"
  by (induction xs) auto

lemma concat_nested: "concat (map g (concat (map c xs))) = concat (map (\<lambda>x. concat (map g (c x))) xs)"
  by (induction xs) auto

lemma firstOf_cong: "(\<And>r. r \<in> set rs \<Longrightarrow> f r = g r) \<Longrightarrow> firstOf f rs = firstOf g rs"
  by (induction rs) (auto split: option.split)

lemma firstOf_map: "firstOf f (map g rs) = firstOf (\<lambda>r. f (g r)) rs"
  by (induction rs) (auto split: option.split)

text \<open>One source of a merge, its candidates resolved one by one.\<close>

lemma firstOf_candidates:
  assumes "ranked h rk" and "\<And>c. c \<in> set (candidates h source) \<Longrightarrow> f c = Some (valueOf (g c) key)"
    and none: "\<And>c. 0 \<notin> snd ` set (g c)"
  shows "(case resolveAlias h source of None \<Rightarrow> None
      | Some s \<Rightarrow> firstOf (\<lambda>candidate. case resolveAlias h candidate of None \<Rightarrow> None | Some c \<Rightarrow> f c)
          (if Kind (node_at h s) = KSequence then Content (node_at h s) else [s])) =
    Some (valueOf (concat (map g (candidates h source))) key)"
proof -
  obtain s where s: "resolveAlias h source = Some s"
    using ranked_resolves [OF assms(1)] by blast
  let ?cs = "if Kind (node_at h s) = KSequence then Content (node_at h s) else [s]"
  have cs: "candidates h source = map (\<lambda>c. the (resolveAlias h c)) ?cs"
    by (simp add: candidates_def s Let_def)
  have res: "(case resolveAlias h q of None \<Rightarrow> None | Some c \<Rightarrow> f c) = f (the (resolveAlias h q))" for q
  proof -
    obtain c where "resolveAlias h q = Some c"
      using ranked_resolves [OF assms(1)] by blast
    then show ?thesis by (simp only: option.case option.sel)
  qed
  have "firstOf (\<lambda>candidate. f (the (resolveAlias h candidate))) ?cs = firstOf f (candidates h source)"
    by (simp only: cs firstOf_map)
  also have "\<dots> = Some (valueOf (concat (map g (candidates h source))) key)"
    using assms(2) none by (intro firstOf_spec)
  finally show ?thesis by (simp only: s option.case res)
qed

text \<open>
  \<^bold>\<open>C24.\<close> On a document without a cycle, a lookup returns, and it finds what the decoder's view holds: the
  mapping's own keys before the merged ones, and of these the earliest.
\<close>

lemma lookup_is_merged_view:
  assumes "ranked h rk" and "nil_free h" and "rk m < n"
  shows "mappingValue n env h key m = Some (valueOf (mergedPairs n env h m) key)"
  using assms(3)
proof (induction n arbitrary: m)
  case 0
  then show ?case by simp
next
  case (Suc n)
  define ps where "ps = pairs_of (Content (node_at h m))"
  define sources where "sources = mergeSources env h ps"
  let ?g = "\<lambda>c. if Kind (node_at h c) = KMapping then mergedPairs n env h c else []"
  let ?f = "\<lambda>c. if Kind (node_at h c) = KMapping then mappingValue n env h key c else Some 0"
  have below: "rk c < n" if "source \<in> set sources" "c \<in> set (candidates h source)" for source c
  proof -
    have "source \<in> set (Content (node_at h m))"
      using that(1) pairs_of_set by (fastforce simp: sources_def mergeSources_def ps_def)
    then show ?thesis
      using candidates_rank [OF assms(1) that(2)] ranked_child [OF assms(1), of source m] Suc(2) by simp
  qed
  have one: "?f c = Some (valueOf (?g c) key)" if "source \<in> set sources" "c \<in> set (candidates h source)" for source c
    using Suc(1) [OF below [OF that]] by (simp add: valueOf_def)
  have none: "0 \<notin> snd ` set (?g c)" for c
    using mergedPairs_some [OF assms(2), of n env c] by (cases "Kind (node_at h c) = KMapping") simp_all
  have each: "(case resolveAlias h source of None \<Rightarrow> None
        | Some s \<Rightarrow> firstOf (\<lambda>candidate. case resolveAlias h candidate of None \<Rightarrow> None | Some c \<Rightarrow> ?f c)
            (if Kind (node_at h s) = KSequence then Content (node_at h s) else [s])) =
      Some (valueOf (concat (map ?g (candidates h source))) key)"
    if "source \<in> set sources" for source
    by (rule firstOf_candidates [OF assms(1) one [OF that] none])
  have later: "0 \<notin> snd ` set (concat (map ?g (candidates h source)))" for source
    using none by (rule concat_some)
  have "concat (map (mergedPairs n env h) (filter (\<lambda>c. Kind (node_at h c) = KMapping) cs)) = concat (map ?g cs)" for cs
    by (induction cs) auto
  then have merged: "mergedPairs (Suc n) env h m =
      ownPairs env h ps @ concat (map (\<lambda>source. concat (map ?g (candidates h source))) sources)"
    by (simp only: mergedPairs.simps Let_def ps_def sources_def concat_nested)
  show ?case
  proof (cases "map_of (ownPairs env h ps) key")
    case None
    have "mappingValue (Suc n) env h key m = Some (valueOf (concat (map (\<lambda>source. concat (map ?g (candidates h source))) sources)) key)"
      using firstOf_spec [OF each later, of sources] None
      by (simp add: scanPairs_spec ps_def [symmetric] sources_def [symmetric])
    then show ?thesis
      using None unfolding merged by (simp add: valueOf_def map_add_def)
  next
    case (Some v)
    then show ?thesis
      unfolding merged by (simp add: scanPairs_spec ps_def valueOf_def map_add_def)
  qed
qed

text \<open>A profile whose second proxy merges the first: \<open>{base: &b {k: v}, use: {<<: *b, own: w}}\<close>.\<close>

definition plainEnv :: yamlEnv where
  "plainEnv = \<lparr>readFile = Inr, decrypt = Inr, parseYaml = (\<lambda>_ h. Inr (0, h)),
     shortTag = (\<lambda>n. if Tag n = [] \<and> Value n = ''<<'' then ''!!merge'' else Tag n)\<rparr>"

definition scalar :: "string \<Rightarrow> string \<Rightarrow> node" where
  "scalar t v = zeroNode\<lparr>Kind := KScalar, Tag := t, Value := v\<rparr>"

definition mergingHeap :: heap where
  "mergingHeap =
     [zeroNode\<lparr>Kind := KMapping, Tag := ''!!map'', Content := [2, 3, 4, 5]\<rparr>,
      scalar [] ''<<'', zeroNode\<lparr>Kind := KAlias, Value := ''b'', Alias := 6\<rparr>,
      scalar ''!!str'' ''own'', scalar ''!!str'' ''w'',
      zeroNode\<lparr>Kind := KMapping, Tag := ''!!map'', Anchor := ''b'', Content := [7, 8]\<rparr>,
      scalar ''!!str'' ''short-id'', scalar ''!!int'' ''0123'']"

definition mergingRank :: "ref \<Rightarrow> nat" where
  "mergingRank r = (if r = 1 then 3 else if r = 3 then 2 else if r = 6 then 1 else 0)"

lemma edges_out: "r = 0 \<or> length h < r \<Longrightarrow> edges h r = []"
  by (auto simp: edges_def node_at_def)

lemma ranked_code: "ranked h rk \<longleftrightarrow> list_all (\<lambda>r. list_all (\<lambda>q. rk q < rk r) (edges h r)) [1..<Suc (length h)]"
proof -
  have "q \<in> set (edges h r) \<Longrightarrow> 1 \<le> r \<and> r < Suc (length h)" for q r
    using edges_out [of r h] by (cases "r = 0 \<or> length h < r") auto
  then show ?thesis by (fastforce simp: ranked_def list_all_iff)
qed

lemma nil_free_code: "nil_free h \<longleftrightarrow> list_all (\<lambda>n. 0 \<notin> set (Content n)) h"
proof
  assume "nil_free h"
  then have "0 \<notin> set (Content (h ! i))" if "i < length h" for i
    using that by (auto simp: nil_free_def node_at_def dest: spec [of _ "Suc i"])
  then show "list_all (\<lambda>n. 0 \<notin> set (Content n)) h" by (simp add: list_all_length)
next
  assume "list_all (\<lambda>n. 0 \<notin> set (Content n)) h"
  then show "nil_free h" by (auto simp: nil_free_def node_at_def list_all_length)
qed

lemma mergingHeap_ok: "ranked mergingHeap mergingRank" "nil_free mergingHeap"
  unfolding ranked_code nil_free_code by code_simp+

lemma mergingHeap_nodes:
  "Kind (node_at mergingHeap 1) = KMapping" "Content (node_at mergingHeap 1) = [2, 3, 4, 5]"
  "node_at mergingHeap 2 = scalar [] ''<<''" "Kind (node_at mergingHeap 3) = KAlias"
  "Alias (node_at mergingHeap 3) = 6" "node_at mergingHeap 4 = scalar ''!!str'' ''own''"
  "Kind (node_at mergingHeap 6) = KMapping" "Content (node_at mergingHeap 6) = [7, 8]"
  "node_at mergingHeap 7 = scalar ''!!str'' ''short-id''"
  by (simp_all add: mergingHeap_def node_at_def)

lemma mergingHeap_alias: "resolveAlias mergingHeap 6 = Some 6" "resolveAlias mergingHeap 3 = Some 6"
proof -
  show six: "resolveAlias mergingHeap 6 = Some 6"
    by (rule resolve_here) (simp add: mergingHeap_nodes)
  show "resolveAlias mergingHeap 3 = Some 6"
    by (subst resolveAlias.simps) (simp add: mergingHeap_nodes six)
qed

lemma mergedPairs_numeral: "mergedPairs (numeral k) env h m =
    (let ps = pairs_of (Content (node_at h m)) in
      ownPairs env h ps @
      concat (map (mergedPairs (pred_numeral k) env h)
        (filter (\<lambda>c. Kind (node_at h c) = KMapping) (concat (map (candidates h) (mergeSources env h ps))))))"
  by (simp add: numeral_eq_Suc)

lemma mergingHeap_view: "mergedPairs 4 plainEnv mergingHeap 1 = [(''own'', 5), (''short-id'', 8)]"
proof -
  note nodes = mergingHeap_nodes mergingHeap_alias candidates_def scalar_def plainEnv_def zeroNode_def
  have "mergedPairs 3 plainEnv mergingHeap 6 = [(''short-id'', 8)]"
    unfolding mergedPairs_numeral by (simp add: nodes)
  then show ?thesis
    unfolding mergedPairs_numeral [of "num.Bit0 (num.Bit0 num.One)"] mergingHeap_nodes by (simp add: nodes)
qed

lemma lookup_is_merged_view_witness:
  "mappingValue 4 plainEnv mergingHeap ''short-id'' 1 = Some 8 \<and> mappingValue 4 plainEnv mergingHeap ''own'' 1 = Some 5"
proof -
  have "mergingRank 1 < 4" by (simp add: mergingRank_def)
  from lookup_is_merged_view [OF mergingHeap_ok this, of plainEnv] show ?thesis
    by (simp only: mergingHeap_view) (simp add: valueOf_def)
qed

subsection \<open>A profile that merges itself\<close>

lemma self_merge:
  assumes "Content (node_at h m) = [k, a]" and "Kind (node_at h k) = KScalar"
    and "shortTag env (node_at h k) = ''!!merge''" and "resolveAlias h a = Some m"
    and "Kind (node_at h m) = KMapping"
  shows "mappingValue n env h key m = None"
  using assms resolve_resolved [OF assms(4)] by (induction n) simp_all

definition selfMerging :: heap where
  "selfMerging =
     [zeroNode\<lparr>Kind := KMapping, Tag := ''!!map'', Anchor := ''a'', Content := [2, 3]\<rparr>,
      zeroNode\<lparr>Kind := KScalar, Value := ''<<''\<rparr>,
      zeroNode\<lparr>Kind := KAlias, Value := ''a'', Alias := 1\<rparr>]"

text \<open>
  A profile that merges itself (\<open>&a {<<: *a}\<close>), which the parser accepts into nodes and the decoder
  refuses, sends the lookup round without end, whatever key is asked for: the merge of such a profile
  never answers.
\<close>

lemma self_merge_never_ends:
  "mappingValue n plainEnv selfMerging key 1 = None \<and>
   mergeMappings n plainEnv retag 1 0 selfMerging = None"
proof -
  have "resolveAlias selfMerging 3 = Some 1"
    by (simp add: resolveAlias.simps selfMerging_def node_at_def)
  then have never: "mappingValue n plainEnv selfMerging key 1 = None" for key
    by (intro self_merge [of _ _ 2 3]) (simp_all add: selfMerging_def node_at_def plainEnv_def zeroNode_def)
  show ?thesis
    using never by (simp add: mergeMappings_def profileBaseSections_def)
qed

subsection \<open>Short ids\<close>

text \<open>What retagging may do to a heap: the tags of unquoted numbers turn to those of strings.\<close>

definition number :: "node \<Rightarrow> bool" where
  "number n \<longleftrightarrow> Kind n = KScalar \<and> Style n = 0 \<and> (Tag n = ''!!int'' \<or> Tag n = ''!!float'')"

definition retags :: "node \<Rightarrow> node \<Rightarrow> bool" where
  "retags n m \<longleftrightarrow> m = n \<or> number n \<and> m = n\<lparr>Tag := ''!!str''\<rparr>"

definition retagged :: "heap \<Rightarrow> heap \<Rightarrow> bool" where
  "retagged h g \<longleftrightarrow> length g = length h \<and> (\<forall>r. retags (node_at h r) (node_at g r))"

lemma number_retagged [simp]: "\<not> number (n\<lparr>Tag := ''!!str''\<rparr>)"
  by (simp add: number_def)

lemma retags_trans: "retags n m \<Longrightarrow> retags m k \<Longrightarrow> retags n k"
  by (auto simp: retags_def)

lemma retags_back: "retags n m \<Longrightarrow> retags m n \<Longrightarrow> m = n"
  by (auto simp: retags_def)

lemma retags_parts:
  "retags n m \<Longrightarrow> Kind m = Kind n \<and> Content m = Content n \<and> Value m = Value n \<and> Alias m = Alias n \<and>
     Style m = Style n \<and> Anchor m = Anchor n"
  by (auto simp: retags_def)

lemma retagged_refl: "retagged h h"
  by (simp add: retagged_def retags_def)

lemma retagged_trans: "retagged h g \<Longrightarrow> retagged g k \<Longrightarrow> retagged h k"
  unfolding retagged_def using retags_trans by metis

lemma heap_eqI:
  assumes "length g = length h" and "\<And>r. node_at g r = node_at h r"
  shows "g = h"
proof (rule nth_equalityI [OF assms(1)])
  fix i
  assume "i < length g"
  then show "g ! i = h ! i"
    using assms(2) [of "Suc i"] assms(1) by (simp add: node_at_def)
qed

lemma retagged_back: "retagged h g \<Longrightarrow> retagged g h \<Longrightarrow> g = h"
  unfolding retagged_def using heap_eqI retags_back by metis

lemma retagged_parts:
  assumes "retagged h g"
  shows "Kind (node_at g r) = Kind (node_at h r)" "Content (node_at g r) = Content (node_at h r)"
    "Value (node_at g r) = Value (node_at h r)" "Alias (node_at g r) = Alias (node_at h r)"
  using assms retags_parts by (simp_all add: retagged_def)

lemma retagged_shortIdValues:
  assumes "retagged h g"
  shows "shortIdValues g (node_at g r) = shortIdValues h (node_at h r)"
  by (simp add: shortIdValues_def retagged_parts [OF assms])

text \<open>A routine that only retags and tells whether it did.\<close>

definition retagger :: "(heap \<Rightarrow> ref \<Rightarrow> (heap \<times> bool) option) \<Rightarrow> bool" where
  "retagger f \<longleftrightarrow> (\<forall>h r g b. f h r = Some (g, b) \<longrightarrow> retagged h g \<and> (b \<longleftrightarrow> g \<noteq> h))"

lemma retagAll_retags:
  assumes "retagger f" and "retagAll f rs (h, b) = Some (g, b')"
  shows "retagged h g \<and> (b' \<longleftrightarrow> b \<or> g \<noteq> h)"
  using assms(2)
proof (induction rs arbitrary: h b)
  case Nil
  then show ?case by (simp add: retagged_refl)
next
  case (Cons r rs)
  then obtain h1 b1 where first: "f h r = Some (h1, b1)" "retagAll f rs (h1, b1 \<or> b) = Some (g, b')"
    by (auto split: option.splits)
  then have "retagged h h1" "b1 \<longleftrightarrow> h1 \<noteq> h" "retagged h1 g" "b' \<longleftrightarrow> (b1 \<or> b) \<or> g \<noteq> h1"
    using assms(1) Cons(1) [OF first(2)] by (auto simp: retagger_def)
  then show ?case
    using retagged_trans [of h h1 g] retagged_back [of h h1] by blast
qed

lemma retagged_setTag: "number (node_at h r) \<Longrightarrow> retagged h (setTag h r ''!!str'')"
  by (simp add: retagged_def setTag_def node_at_set retags_def)

lemma setTag_moves: "number (node_at h r) \<Longrightarrow> setTag h r ''!!str'' \<noteq> h"
proof
  assume n: "number (node_at h r)" and eq: "setTag h r ''!!str'' = h"
  then have "0 < r \<and> r \<le> length h"
    by (auto simp: number_def node_at_def split: if_splits)
  then have "node_at (setTag h r ''!!str'') r = (node_at h r)\<lparr>Tag := ''!!str''\<rparr>"
    by (simp add: setTag_def node_at_set)
  with n eq show False using number_retagged [of "node_at h r"] by simp
qed

lemma retagNumber_unfold:
  "retagNumber (Suc n) h r =
     (if number (node_at h r) then Some (setTag h r ''!!str'', True)
      else if Kind (node_at h r) = KSequence then retagAll (retagNumber n) (Content (node_at h r)) (h, False)
      else Some (h, False))"
  by (auto simp: number_def Let_def)

declare retagNumber.simps(2) [simp del]

lemma retagger_number: "retagger (retagNumber n)"
proof (induction n)
  case 0
  then show ?case by (simp add: retagger_def)
next
  case (Suc n)
  have "retagged h g \<and> (b \<longleftrightarrow> g \<noteq> h)" if "retagNumber (Suc n) h r = Some (g, b)" for h r g b
  proof (cases "\<not> number (node_at h r) \<and> Kind (node_at h r) = KSequence")
    case True
    then show ?thesis
      using that retagAll_retags [OF Suc, of _ h False g b] by (simp add: retagNumber_unfold)
  next
    case False
    then show ?thesis
      using that retagged_setTag [of h r] setTag_moves [of h r]
      by (auto simp: retagNumber_unfold retagged_refl split: if_splits)
  qed
  then show ?case unfolding retagger_def by blast
qed

lemma retagShortIDs_unfold:
  assumes "retagShortIDs (Suc n) h r = Some (g, b)"
  obtains h1 b1 where "retagAll (retagNumber n) (shortIdValues h (node_at h r)) (h, False) = Some (h1, b1)"
    and "retagAll (retagShortIDs n) (Content (node_at h r)) (h1, b1) = Some (g, b)"
  using assms by (cases "retagAll (retagNumber n) (shortIdValues h (node_at h r)) (h, False)") (auto simp: Let_def)

lemma retagger_shortIDs: "retagger (retagShortIDs n)"
proof (induction n)
  case 0
  then show ?case by (simp add: retagger_def)
next
  case (Suc n)
  have "retagged h g \<and> (b \<longleftrightarrow> g \<noteq> h)" if run: "retagShortIDs (Suc n) h r = Some (g, b)" for h r g b
  proof -
    obtain h1 b1 where first: "retagAll (retagNumber n) (shortIdValues h (node_at h r)) (h, False) = Some (h1, b1)"
      and rest: "retagAll (retagShortIDs n) (Content (node_at h r)) (h1, b1) = Some (g, b)"
      by (rule retagShortIDs_unfold [OF run])
    show ?thesis
      using retagAll_retags [OF retagger_number first] retagAll_retags [OF Suc rest]
        retagged_trans [of h h1 g] retagged_back [of h h1] by blast
  qed
  then show ?case unfolding retagger_def by blast
qed

text \<open>The nodes of a document, and the items of a list and of the lists in it.\<close>

inductive below :: "heap \<Rightarrow> ref \<Rightarrow> ref \<Rightarrow> bool" for h where
  below_refl: "below h r r"
| below_child: "q \<in> set (Content (node_at h r)) \<Longrightarrow> below h q s \<Longrightarrow> below h r s"

inductive item_of :: "heap \<Rightarrow> ref \<Rightarrow> ref \<Rightarrow> bool" for h where
  item_refl: "item_of h r r"
| item_child: "Kind (node_at h r) = KSequence \<Longrightarrow> q \<in> set (Content (node_at h r)) \<Longrightarrow> item_of h q s \<Longrightarrow> item_of h r s"

inductive_cases belowE: "below h r s"
inductive_cases itemE: "item_of h r s"

text \<open>A node that is a short id, or an item of one, somewhere below \<open>r\<close>.\<close>

definition short_id_below :: "heap \<Rightarrow> ref \<Rightarrow> ref \<Rightarrow> bool" where
  "short_id_below h r s \<longleftrightarrow> (\<exists>m v. below h r m \<and> v \<in> set (shortIdValues h (node_at h m)) \<and> item_of h v s)"

text \<open>A retagging routine that leaves no number in the scope of its node, whatever was retagged before.\<close>

definition clears :: "heap \<Rightarrow> (ref \<Rightarrow> ref \<Rightarrow> bool) \<Rightarrow> (heap \<Rightarrow> ref \<Rightarrow> (heap \<times> bool) option) \<Rightarrow> bool" where
  "clears h0 scope f \<longleftrightarrow>
     (\<forall>h r g b s. retagged h0 h \<longrightarrow> f h r = Some (g, b) \<longrightarrow> scope r s \<longrightarrow> \<not> number (node_at g s))"

lemma not_number_later: "retagged h g \<Longrightarrow> \<not> number (node_at h s) \<Longrightarrow> \<not> number (node_at g s)"
  unfolding retagged_def retags_def by metis

lemma retagAll_clears:
  assumes "retagger f" and "clears h0 scope f" and "retagged h0 h"
    and "retagAll f rs (h, b) = Some (g, b')" and "r \<in> set rs" and "scope r s"
  shows "\<not> number (node_at g s)"
  using assms(3-5)
proof (induction rs arbitrary: h b)
  case Nil
  then show ?case by simp
next
  case (Cons q rs)
  then obtain h1 b1 where first: "f h q = Some (h1, b1)" "retagAll f rs (h1, b1 \<or> b) = Some (g, b')"
    by (auto split: option.splits)
  have h1: "retagged h h1" "retagged h0 h1" "retagged h1 g"
    using first assms(1) Cons(2) retagged_trans retagAll_retags [OF assms(1) first(2)]
    by (auto simp: retagger_def)
  show ?case
  proof (cases "r = q")
    case True
    then have "\<not> number (node_at h1 s)"
      using assms(2,6) Cons(2) first(1) by (auto simp: clears_def)
    then show ?thesis by (rule not_number_later [OF h1(3)])
  next
    case False
    then show ?thesis using Cons(1) [OF h1(2) first(2)] Cons(4) by simp
  qed
qed

lemma clears_number: "clears h0 (item_of h0) (retagNumber n)"
proof (induction n)
  case 0
  then show ?case by (simp add: clears_def)
next
  case (Suc n)
  have "\<not> number (node_at g s)"
    if h: "retagged h0 h" and run: "retagNumber (Suc n) h r = Some (g, b)" and s: "item_of h0 r s" for h r g b s
  proof -
    note parts = retagged_parts [OF h, of r]
    show ?thesis
    proof (cases "number (node_at h r)")
      case True
      then have "s = r" "g = setTag h r ''!!str''"
        using run s parts by (auto simp: retagNumber_unfold number_def elim: itemE)
      moreover have "0 < r \<and> r \<le> length h"
        using True by (auto simp: number_def node_at_def split: if_splits)
      ultimately show ?thesis by (simp add: setTag_def node_at_set)
    next
      case False
      show ?thesis
      proof (cases "s = r")
        case True
        have "retagged h g" using run retagger_number by (auto simp: retagger_def)
        with False True show ?thesis by (simp add: not_number_later)
      next
        case other: False
        then obtain q where q: "Kind (node_at h0 r) = KSequence" "q \<in> set (Content (node_at h0 r))" "item_of h0 q s"
          using s by (auto elim: itemE)
        then have "retagAll (retagNumber n) (Content (node_at h r)) (h, False) = Some (g, b)"
          using run False parts by (simp add: retagNumber_unfold)
        then show ?thesis
          using retagAll_clears [OF retagger_number Suc h _ _ q(3)] q(2) parts by simp
      qed
    qed
  qed
  then show ?case unfolding clears_def by blast
qed

lemma clears_shortIDs: "clears h0 (short_id_below h0) (retagShortIDs n)"
proof (induction n)
  case 0
  then show ?case by (simp add: clears_def)
next
  case (Suc n)
  have "\<not> number (node_at g s)"
    if h: "retagged h0 h" and run: "retagShortIDs (Suc n) h r = Some (g, b)" and s: "short_id_below h0 r s"
    for h r g b s
  proof -
    note parts = retagged_parts [OF h, of r] retagged_shortIdValues [OF h, of r]
    obtain h1 b1 where first: "retagAll (retagNumber n) (shortIdValues h0 (node_at h0 r)) (h, False) = Some (h1, b1)"
      and rest: "retagAll (retagShortIDs n) (Content (node_at h0 r)) (h1, b1) = Some (g, b)"
      using retagShortIDs_unfold [OF run] parts by metis
    have h1: "retagged h0 h1" "retagged h1 g"
      using retagAll_retags [OF retagger_number first] retagAll_retags [OF retagger_shortIDs rest]
        retagged_trans [OF h] by auto
    obtain m v where mv: "below h0 r m" "v \<in> set (shortIdValues h0 (node_at h0 m))" "item_of h0 v s"
      using s by (auto simp: short_id_below_def)
    consider "m = r" | q where "q \<in> set (Content (node_at h0 r))" "below h0 q m"
      using mv(1) by (auto elim: belowE)
    then show ?thesis
    proof cases
      case 1
      then have "\<not> number (node_at h1 s)"
        using retagAll_clears [OF retagger_number clears_number h first _ mv(3)] mv(2) 1 by simp
      then show ?thesis by (rule not_number_later [OF h1(2)])
    next
      case (2 q)
      then have "short_id_below h0 q s" using mv by (auto simp: short_id_below_def)
      then show ?thesis
        using retagAll_clears [OF retagger_shortIDs Suc h1(1) rest] 2 by blast
    qed
  qed
  then show ?case unfolding clears_def by blast
qed

lemma retagAll_returns:
  assumes "\<And>h r. retagged h0 h \<Longrightarrow> r \<in> set rs \<Longrightarrow> \<exists>g b. f h r = Some (g, b)" and "retagger f" and "retagged h0 h"
  shows "\<exists>g b'. retagAll f rs (h, b) = Some (g, b')"
  using assms(1,3)
proof (induction rs arbitrary: h b)
  case Nil
  then show ?case by simp
next
  case (Cons r rs)
  obtain h1 b1 where first: "f h r = Some (h1, b1)"
    using Cons(2) [OF Cons(3), of r] by auto
  then have "retagged h0 h1"
    using assms(2) retagged_trans [OF Cons(3)] by (auto simp: retagger_def)
  then show ?case using Cons(1) Cons(2) first by simp
qed

lemma retagNumber_returns:
  assumes "ranked h0 rk" and "retagged h0 h" and "rk r < n"
  shows "\<exists>g b. retagNumber n h r = Some (g, b)"
  using assms(2,3)
proof (induction n arbitrary: h r)
  case 0
  then show ?case by simp
next
  case (Suc n)
  have "\<exists>g b. retagAll (retagNumber n) (Content (node_at h0 r)) (h, False) = Some (g, b)"
  proof (rule retagAll_returns [OF _ retagger_number Suc(2)])
    fix k q
    assume "retagged h0 k" "q \<in> set (Content (node_at h0 r))"
    then show "\<exists>g b. retagNumber n k q = Some (g, b)"
      using Suc(1) Suc(3) ranked_child [OF assms(1), of q r] by simp
  qed
  then show ?case
    using retagged_parts(2) [OF Suc(2), of r] by (auto simp: retagNumber_unfold)
qed

lemma shortIdValues_content: "v \<in> set (shortIdValues h m) \<Longrightarrow> v \<in> set (Content m)"
  by (auto simp: shortIdValues_def split: if_splits dest: pairs_of_set)

lemma retagShortIDs_returns:
  assumes "ranked h0 rk" and "retagged h0 h" and "rk r < n"
  shows "\<exists>g b. retagShortIDs n h r = Some (g, b)"
  using assms(2,3)
proof (induction n arbitrary: h r)
  case 0
  then show ?case by simp
next
  case (Suc n)
  have less: "rk q < n" if "q \<in> set (Content (node_at h0 r))" for q
    using that Suc(3) ranked_child [OF assms(1), of q r] by simp
  obtain h1 b1 where first: "retagAll (retagNumber n) (shortIdValues h0 (node_at h0 r)) (h, False) = Some (h1, b1)"
    using retagAll_returns [OF _ retagger_number Suc(2), of "shortIdValues h0 (node_at h0 r)" n False]
      retagNumber_returns [OF assms(1)] less shortIdValues_content by blast
  then have "retagged h0 h1"
    using retagAll_retags [OF retagger_number] retagged_trans [OF Suc(2)] by blast
  then have "\<exists>g b. retagAll (retagShortIDs n) (Content (node_at h0 r)) (h1, b1) = Some (g, b)"
    using retagAll_returns [OF _ retagger_shortIDs] Suc(1) less by blast
  then show ?case
    using first retagged_parts(2) [OF Suc(2), of r] retagged_shortIdValues [OF Suc(2), of r] by (simp add: Let_def)
qed



end
