(* ===== verification/ProfileMerge.thy ===== *)
theory ProfileMerge
  imports ProfileProofs
begin

text \<open>What the merge makes of the overlay's mapping: the sections, the rules, and nothing else.\<close>

subsection \<open>Assigning a section\<close>

definition topOf :: "heap \<Rightarrow> ref list \<Rightarrow> (string \<times> ref) list" where
  "topOf h c = map (\<lambda>(k, v). (Value (node_at h k), v)) (filter (\<lambda>(k, _). Kind (node_at h k) = KScalar) (pairs_of c))"

definition topPairs :: "heap \<Rightarrow> ref \<Rightarrow> (string \<times> ref) list" where
  "topPairs h m = topOf h (Content (node_at h m))"

definition valid :: "heap \<Rightarrow> bool" where
  "valid h \<longleftrightarrow> (\<forall>r. \<forall>q\<in>set (edges h r). q \<le> length h)"

lemma topOf_simps [simp]:
  "topOf h [] = []" "topOf h [a] = []"
  "topOf h (k # v # c) = (if Kind (node_at h k) = KScalar then (Value (node_at h k), v) # topOf h c else topOf h c)"
  by (simp_all add: topOf_def)

lemma setPair_some:
  "setPair h key v c = Some c' \<Longrightarrow>
     map_of (topOf h c') = (map_of (topOf h c))(key \<mapsto> v) \<and> length c' = length c \<and> set c' \<subseteq> insert v (set c) \<and>
     map fst (pairs_of c') = map fst (pairs_of c)"
proof (induction h key v c arbitrary: c' rule: setPair.induct)
  case (1 h key v name old c)
  show ?case
  proof (cases "Kind (node_at h name) = KScalar \<and> Value (node_at h name) = key")
    case True
    with 1(2) show ?thesis by auto
  next
    case False
    with 1(2) obtain c1 where "setPair h key v c = Some c1" "c' = name # old # c1"
      by (cases "setPair h key v c") (simp_all split: if_splits)
    with 1(1) [OF False] show ?thesis using False by (auto simp: fun_upd_twist)
  qed
qed simp_all

lemma setPair_none: "setPair h key v c = None \<Longrightarrow> map_of (topOf h c) key = None"
  by (induction h key v c rule: setPair.induct) (auto split: if_splits)

lemma pairs_of_append: "even (length c) \<Longrightarrow> pairs_of (c @ d) = pairs_of c @ pairs_of d"
  by (induction c rule: pairs_of.induct) auto

lemma topOf_cong:
  assumes "\<And>k. k \<in> set c \<Longrightarrow> Kind (node_at g k) = Kind (node_at h k) \<and> Value (node_at g k) = Value (node_at h k)"
  shows "topOf g c = topOf h c"
  using assms by (induction c rule: pairs_of.induct) auto

text \<open>A heap that grew, and in which of the old nodes only \<open>root\<close> changed, and only its content.\<close>

definition grown :: "ref \<Rightarrow> heap \<Rightarrow> heap \<Rightarrow> bool" where
  "grown root h g \<longleftrightarrow> length h \<le> length g \<and>
     (\<forall>r \<le> length h. r \<noteq> root \<longrightarrow> node_at g r = node_at h r) \<and>
     (\<exists>c. node_at g root = (node_at h root)\<lparr>Content := c\<rparr>)"

lemma grown_refl: "grown root h h"
  unfolding grown_def by (auto intro: exI [of _ "Content (node_at h root)"])

lemma grown_trans: "grown root h g \<Longrightarrow> grown root g k \<Longrightarrow> grown root h k"
  unfolding grown_def by (auto simp: le_trans)

lemma grown_parts:
  assumes "grown root h g" and "r \<le> length h"
  shows "Kind (node_at g r) = Kind (node_at h r)" "Value (node_at g r) = Value (node_at h r)"
    "Alias (node_at g r) = Alias (node_at h r)"
  using assms by (cases "r = root"; auto simp: grown_def)+

lemma grown_new: "0 < root \<and> root \<le> length h \<Longrightarrow> grown root h (snd (new_node h n))"
  unfolding grown_def by (auto simp: node_at_new) (simp_all add: new_node_def, metis node.surjective node.update_convs(7))

lemma grown_content: "0 < root \<and> root \<le> length h \<Longrightarrow> grown root h (setContent h root c)"
  unfolding grown_def by (auto simp: setContent_def node_at_set)

definition mapping_ok :: "heap \<Rightarrow> ref \<Rightarrow> bool" where
  "mapping_ok h root \<longleftrightarrow> 0 < root \<and> root \<le> length h \<and> even (length (Content (node_at h root))) \<and> valid h"

lemma valid_content: "valid h \<Longrightarrow> q \<in> set (Content (node_at h r)) \<Longrightarrow> q \<le> length h"
  by (auto simp: valid_def edges_def)

lemma valid_setContent:
  "valid h \<Longrightarrow> \<forall>q\<in>set c. q \<le> length h \<Longrightarrow> valid (setContent h r c)"
  by (auto simp: valid_def edges_def setContent_def node_at_set split: if_splits)

lemma valid_new: "valid h \<Longrightarrow> \<forall>q\<in>set (Content n). q \<le> length h \<Longrightarrow> Kind n \<noteq> KAlias \<Longrightarrow> valid (snd (new_node h n))"
proof -
  assume h: "valid h" "\<forall>q\<in>set (Content n). q \<le> length h" "Kind n \<noteq> KAlias"
  have "edges (snd (new_node h n)) r = (if r = Suc (length h) then Content n else edges h r)" for r
    using h(3) by (simp add: edges_def node_at_new)
  moreover have "length (snd (new_node h n)) = Suc (length h)" by (simp add: new_node_def)
  ultimately show ?thesis using h(1,2) by (auto simp: valid_def le_Suc_eq)
qed

lemma setMappingValue_facts:
  assumes ok: "mapping_ok h root" and v: "v \<le> length h"
  shows "grown root h (setMappingValue h root key v)"
    and "mapping_ok (setMappingValue h root key v) root"
    and "map_of (topPairs (setMappingValue h root key v) root) = (map_of (topPairs h root))(key \<mapsto> v)"
    and "\<forall>k\<in>fst ` set (pairs_of (Content (node_at (setMappingValue h root key v) root))).
      k \<in> fst ` set (pairs_of (Content (node_at h root))) \<or>
      length h < k \<and> node_at (setMappingValue h root key v) k = strNode key"
proof -
  let ?g = "setMappingValue h root key v" and ?c = "Content (node_at h root)"
  note parts = ok [unfolded mapping_ok_def]
  have "grown root h ?g \<and> mapping_ok ?g root \<and>
    map_of (topPairs ?g root) = (map_of (topPairs h root))(key \<mapsto> v) \<and>
    (\<forall>k\<in>fst ` set (pairs_of (Content (node_at ?g root))).
      k \<in> fst ` set (pairs_of ?c) \<or> length h < k \<and> node_at ?g k = strNode key)"
  proof (cases "setPair h key v ?c")
    case (Some c)
    note c = setPair_some [OF Some]
    have g: "?g = setContent h root c" by (simp add: setMappingValue_def Some)
    have root: "Content (node_at ?g root) = c" using parts by (simp add: g setContent_def node_at_set)
    have "grown root h ?g" unfolding g using parts by (simp add: grown_content)
    moreover have refs: "\<forall>q\<in>set c. q \<le> length h" using c v parts valid_content by blast
    moreover have "valid ?g" unfolding g using parts refs by (simp add: valid_setContent)
    moreover have "length ?g = length h" by (simp add: g setContent_def)
    moreover have "topOf ?g c = topOf h c"
      using grown_parts(1,2) [OF calculation(1)] refs by (intro topOf_cong) auto
    moreover have "fst ` set (pairs_of c) = fst ` set (pairs_of ?c)"
      using c by (metis list.set_map)
    ultimately show ?thesis
      using c parts root by (simp add: mapping_ok_def topPairs_def)
  next
    case None
    define k where "k = Suc (length h)"
    define h1 where "h1 = h @ [strNode key]"
    have h1: "h1 = snd (new_node h (strNode key))" "length h1 = k" "k = fst (new_node h (strNode key))"
      by (simp_all add: h1_def k_def new_node_def)
    have "node_at h1 root = node_at h root"
      using parts by (simp add: h1(1) node_at_new)
    then have g: "?g = setContent h1 root (?c @ [k, v])"
      by (simp add: setMappingValue_def None new_node_def h1_def k_def)
    have root: "Content (node_at ?g root) = ?c @ [k, v]"
      using parts by (simp add: g setContent_def node_at_set h1_def)
    have grown: "grown root h ?g"
      unfolding g using grown_new [of root h "strNode key"] grown_content [of root h1] parts grown_trans h1
      by (metis grown_def le_trans)
    have refs: "\<forall>q\<in>set (?c @ [k, v]). q \<le> length h1"
      using v parts valid_content h1(2) by (fastforce simp: k_def)
    have "valid h1" unfolding h1(1) using parts by (intro valid_new) (simp_all add: strNode_def)
    then have "valid ?g" unfolding g using refs by (rule valid_setContent)
    moreover have "length ?g = k" by (simp add: g setContent_def h1(2))
    moreover have kn: "node_at ?g k = strNode key"
      using parts by (simp add: g setContent_def node_at_set k_def h1_def) (simp add: node_at_def nth_append)
    moreover have "topOf ?g ?c = topOf h ?c"
      using grown_parts(1,2) [OF grown] valid_content parts by (intro topOf_cong) blast
    moreover have "topOf ?g (?c @ [k, v]) = topOf ?g ?c @ [(key, v)]"
      using parts kn by (simp add: topOf_def pairs_of_append strNode_def)
    ultimately show ?thesis
      using grown root parts setPair_none [OF None] kn
      by (auto simp: mapping_ok_def topPairs_def k_def pairs_of_append map_add_def fun_eq_iff split: option.split)
  qed
  then show "grown root h ?g" "mapping_ok ?g root"
    "map_of (topPairs ?g root) = (map_of (topPairs h root))(key \<mapsto> v)"
    "\<forall>k\<in>fst ` set (pairs_of (Content (node_at ?g root))).
      k \<in> fst ` set (pairs_of ?c) \<or> length h < k \<and> node_at ?g k = strNode key"
    by blast+
qed

subsection \<open>What lies below the profile\<close>

inductive reaches :: "heap \<Rightarrow> ref \<Rightarrow> ref \<Rightarrow> bool" for h where
  reaches_refl: "reaches h r r"
| reaches_edge: "reaches h r s \<Longrightarrow> q \<in> set (edges h s) \<Longrightarrow> reaches h r q"

lemma reaches_valid: "reaches h r s \<Longrightarrow> valid h \<Longrightarrow> r \<le> length h \<Longrightarrow> s \<le> length h"
  by (induction rule: reaches.induct) (auto simp: valid_def)

lemma reaches_rank: "reaches h r s \<Longrightarrow> ranked h rk \<Longrightarrow> rk s \<le> rk r"
  by (induction rule: reaches.induct) (auto simp: ranked_def intro: less_imp_le less_le_trans)

text \<open>Two heaps that agree on the nodes of a set closed under edges.\<close>

definition agree :: "ref set \<Rightarrow> heap \<Rightarrow> heap \<Rightarrow> bool" where
  "agree S h g \<longleftrightarrow> (\<forall>r\<in>S. node_at g r = node_at h r \<and> set (edges h r) \<subseteq> S)"

lemma agree_content: "agree S h g \<Longrightarrow> r \<in> S \<Longrightarrow> q \<in> set (Content (node_at h r)) \<Longrightarrow> q \<in> S"
  by (auto simp: agree_def edges_def)

lemma agree_resolve_half:
  assumes "resolveAlias h r = Some s"
  shows "\<forall>g. agree S h g \<longrightarrow> r \<in> S \<longrightarrow> resolveAlias g r = Some s \<and> s \<in> S"
proof (rule resolveAlias.raw_induct
    [where P = "\<lambda>h r s. \<forall>g. agree S h g \<longrightarrow> r \<in> S \<longrightarrow> resolveAlias g r = Some s \<and> s \<in> S", OF _ assms])
  fix f h r s
  assume step: "\<And>h r s. f h r = Some s \<Longrightarrow> \<forall>g. agree S h g \<longrightarrow> r \<in> S \<longrightarrow> resolveAlias g r = Some s \<and> s \<in> S"
    and body: "(if Kind (node_at h r) = KAlias \<and> Alias (node_at h r) \<noteq> 0
        then f h (Alias (node_at h r)) else Some r) = Some s"
  show "\<forall>g. agree S h g \<longrightarrow> r \<in> S \<longrightarrow> resolveAlias g r = Some s \<and> s \<in> S"
  proof (intro allI impI)
    fix g
    assume g: "agree S h g" "r \<in> S"
    then have "node_at g r = node_at h r" by (simp add: agree_def)
    moreover have "Kind (node_at h r) = KAlias \<Longrightarrow> Alias (node_at h r) \<in> S"
      using g by (auto simp: agree_def edges_def)
    ultimately show "resolveAlias g r = Some s \<and> s \<in> S"
      using step [of h "Alias (node_at h r)" s] body g
      by (subst resolveAlias.simps) (auto split: if_splits)
  qed
qed

lemma agree_sym: "agree S h g \<Longrightarrow> agree S g h"
  by (simp add: agree_def edges_def)

lemma agree_resolve: "agree S h g \<Longrightarrow> r \<in> S \<Longrightarrow> resolveAlias g r = resolveAlias h r"
proof (cases "resolveAlias h r")
  case None
  assume g: "agree S h g" "r \<in> S"
  show ?thesis
  proof (cases "resolveAlias g r")
    case (Some s)
    from agree_resolve_half [OF this, of S] g agree_sym [OF g(1)] None show ?thesis by auto
  qed (simp add: None)
next
  case (Some s)
  assume "agree S h g" "r \<in> S"
  with agree_resolve_half [OF Some, of S] Some show ?thesis by simp
qed

lemma agree_resolved: "agree S h g \<Longrightarrow> r \<in> S \<Longrightarrow> resolveAlias h r = Some s \<Longrightarrow> s \<in> S"
  using agree_resolve_half [of h r s S] by blast

lemma agree_scan:
  assumes "agree S h g" and "\<And>k v. (k, v) \<in> set ps \<Longrightarrow> k \<in> S"
  shows "scanPairs env g key ps sources = scanPairs env h key ps sources"
  using assms(2)
proof (induction ps arbitrary: sources)
  case Nil
  then show ?case by simp
next
  case (Cons p ps)
  obtain k v where p: "p = (k, v)" by (cases p)
  have "node_at g k = node_at h k" using Cons(2) assms(1) by (auto simp: p agree_def)
  moreover have "scanPairs env g key ps src = scanPairs env h key ps src" for src
    by (rule Cons(1)) (use Cons(2) in auto)
  ultimately show ?case by (simp add: p Let_def)
qed

lemma agree_mappingValue:
  assumes "agree S h g" and "m \<in> S"
  shows "mappingValue n env g key m = mappingValue n env h key m"
  using assms(2)
proof (induction n arbitrary: m)
  case 0
  then show ?case by simp
next
  case (Suc n)
  let ?f = "\<lambda>h n c. case resolveAlias h c of None \<Rightarrow> None
      | Some c \<Rightarrow> if Kind (node_at h c) = KMapping then mappingValue n env h key c else Some 0"
  let ?cs = "\<lambda>h s. if Kind (node_at h s) = KSequence then Content (node_at h s) else [s]"
  let ?ps = "pairs_of (Content (node_at h m))"
  note at = assms(1) [unfolded agree_def, rule_format, THEN conjunct1]
  have in_S: "k \<in> S \<and> v \<in> S" if "(k, v) \<in> set ?ps" for k v
    using pairs_of_set [OF that] agree_content [OF assms(1) Suc(2)] by blast
  have cand: "?f g n c = ?f h n c" if "c \<in> S" for c
    using agree_resolve [OF assms(1) that] agree_resolved [OF assms(1) that] Suc(1) at
    by (auto split: option.split)
  have source: "(case resolveAlias g v of None \<Rightarrow> None | Some s \<Rightarrow> firstOf (?f g n) (?cs g s)) =
      (case resolveAlias h v of None \<Rightarrow> None | Some s \<Rightarrow> firstOf (?f h n) (?cs h s))" if v: "v \<in> S" for v
  proof (cases "resolveAlias h v")
    case None
    then show ?thesis using agree_resolve [OF assms(1) v] by simp
  next
    case (Some s)
    have s: "s \<in> S" by (rule agree_resolved [OF assms(1) v Some])
    then have in_cs: "c \<in> S" if "c \<in> set (?cs h s)" for c
      using that agree_content [OF assms(1)] by (auto split: if_splits)
    have "firstOf (?f g n) (?cs h s) = firstOf (?f h n) (?cs h s)"
      by (rule firstOf_cong, rule cand, rule in_cs)
    then show ?thesis by (simp only: agree_resolve [OF assms(1) v] Some option.case at [OF s])
  qed
  have sources: "v \<in> S" if "scanPairs env h key ?ps [] = Inl vs" "v \<in> set vs" for vs v
    using that in_S by (auto simp: scanPairs_spec mergeSources_def split: option.splits)
  show ?case
    using agree_scan [OF assms(1), of ?ps env key "[]"] in_S at [OF Suc(2)] sources source
    by (auto split: sum.split intro!: firstOf_cong)
qed

lemma reaches_trans: "reaches h q r \<Longrightarrow> reaches h p q \<Longrightarrow> reaches h p r"
  by (induction rule: reaches.induct) (auto intro: reaches_edge)

lemma resolve_reaches:
  assumes "ranked h rk" and "resolveAlias h r = Some s"
  shows "reaches h r s"
  using assms(2)
proof (induction "rk r" arbitrary: r rule: less_induct)
  case less
  show ?case
  proof (cases "Kind (node_at h r) = KAlias \<and> Alias (node_at h r) \<noteq> 0")
    case True
    then have "rk (Alias (node_at h r)) < rk r" "Alias (node_at h r) \<in> set (edges h r)"
      using ranked_alias [OF assms(1)] by (simp_all add: edges_def)
    moreover have "resolveAlias h (Alias (node_at h r)) = Some s"
      using less(2) True by (simp add: resolveAlias.simps [of h r])
    ultimately show ?thesis
      using less(1) reaches_trans reaches_edge [OF reaches_refl] by blast
  next
    case False
    then show ?thesis using less(2) by (auto simp: resolveAlias.simps [of h r] intro: reaches_refl)
  qed
qed

lemma reaches_nil: "reaches h r s \<Longrightarrow> r = 0 \<Longrightarrow> s = 0"
  by (induction rule: reaches.induct) (simp_all add: edges_out)

lemma child_reaches: "q \<in> set (Content (node_at h r)) \<Longrightarrow> reaches h r q"
  by (rule reaches_edge [OF reaches_refl]) (simp add: edges_def)

lemma candidates_reach:
  assumes "ranked h rk" and "c \<in> set (candidates h source)"
  shows "reaches h source c"
proof -
  obtain s where s: "resolveAlias h source = Some s"
    using ranked_resolves [OF assms(1)] by blast
  then obtain q where q: "q \<in> set (if Kind (node_at h s) = KSequence then Content (node_at h s) else [s])"
      "c = the (resolveAlias h q)"
    using assms(2) by (auto simp: candidates_def Let_def split: if_splits)
  then have "reaches h s q" by (auto split: if_splits intro: child_reaches reaches_refl)
  moreover obtain t where "resolveAlias h q = Some t"
    using ranked_resolves [OF assms(1)] by blast
  ultimately show ?thesis
    using resolve_reaches [OF assms(1)] s q(2) reaches_trans by (metis option.sel)
qed

lemma mergedPairs_reach:
  assumes "ranked h rk" and "v \<in> snd ` set (mergedPairs n env h m)"
  shows "reaches h m v"
  using assms(2)
proof (induction n arbitrary: m)
  case 0
  then show ?case by simp
next
  case (Suc n)
  let ?ps = "pairs_of (Content (node_at h m))"
  consider "v \<in> snd ` set (ownPairs env h ?ps)"
    | source c where "source \<in> set (mergeSources env h ?ps)" "c \<in> set (candidates h source)"
      "v \<in> snd ` set (mergedPairs n env h c)"
    using Suc(2) by (auto simp: Let_def image_iff)
  then show ?case
  proof cases
    case 1
    then obtain k where "(k, v) \<in> set ?ps" by (auto simp: ownPairs_def)
    then show ?thesis by (rule child_reaches [OF pairs_of_set [THEN conjunct2]])
  next
    case 2
    then obtain k where "(k, source) \<in> set ?ps" by (auto simp: mergeSources_def)
    then have "reaches h m source" by (rule child_reaches [OF pairs_of_set [THEN conjunct2]])
    then show ?thesis
      using candidates_reach [OF assms(1) 2(2)] Suc(1) [OF 2(3)] reaches_trans by blast
  qed
qed

subsection \<open>Ranks of the growing heap\<close>

lemma ranked_new:
  assumes "ranked g rk" and "valid g" and "Kind n \<noteq> KAlias"
    and "\<And>q. q \<in> set (Content n) \<Longrightarrow> rk q < x \<and> q \<le> length g"
  shows "ranked (snd (new_node g n)) (rk(Suc (length g) := x))"
proof -
  have e: "edges (snd (new_node g n)) r = (if r = Suc (length g) then Content n else edges g r)" for r
    using assms(3) by (simp add: edges_def node_at_new)
  have "rk q < rk r \<and> q \<noteq> Suc (length g)" if "q \<in> set (edges g r)" for q r
  proof
    show "rk q < rk r" using assms(1) that by (simp add: ranked_def)
    show "q \<noteq> Suc (length g)" using assms(2) that unfolding valid_def by (metis not_less_eq_eq order_refl)
  qed
  moreover have "edges g (Suc (length g)) = []"
    by (rule edges_out) simp
  moreover have "Suc (length g) \<notin> set (Content n)"
    using assms(4) [of "Suc (length g)"] by fastforce
  ultimately show ?thesis
    using assms(4) by (auto simp: ranked_def e)
qed

lemma ranked_setContent:
  assumes "ranked g rk" and "\<And>q. q \<in> set c \<Longrightarrow> rk q < rk r"
  shows "ranked (setContent g r c) rk"
  using assms unfolding ranked_def edges_def
  by (auto simp: setContent_def node_at_set split: if_splits)

lemma setMappingValue_ranked:
  assumes ok: "mapping_ok g root" and rk: "ranked g rk" and v: "v \<le> length g" "rk v < rk root"
  shows "\<exists>rk'. ranked (setMappingValue g root key v) rk' \<and> (\<forall>q \<le> length g. rk' q = rk q)"
proof -
  let ?c = "Content (node_at g root)"
  note parts = ok [unfolded mapping_ok_def]
  have old: "rk q < rk root" if "q \<in> set ?c" for q
    using ranked_child [OF rk that] .
  show ?thesis
  proof (cases "setPair g key v ?c")
    case (Some c)
    have "ranked (setContent g root c) rk"
      using setPair_some [OF Some] old v(2) by (intro ranked_setContent [OF rk]) blast
    then show ?thesis by (auto simp: setMappingValue_def Some)
  next
    case None
    define g1 where "g1 = snd (new_node g (strNode key))"
    define rk1 where "rk1 = rk(Suc (length g) := 0)"
    have "ranked g1 rk1"
      unfolding g1_def rk1_def using parts by (intro ranked_new [OF rk]) (simp_all add: strNode_def)
    moreover have "node_at g1 root = node_at g root"
      using parts by (simp add: g1_def node_at_new)
    moreover have "rk1 q < rk1 root" if "q \<in> set (?c @ [Suc (length g), v])" for q
      using that old v parts valid_content [of g q root] le_less_trans [of 0 "rk v" "rk root"]
      by (auto simp: rk1_def)
    ultimately have "ranked (setContent g1 root (?c @ [Suc (length g), v])) rk1"
      by (intro ranked_setContent)
    moreover have "setMappingValue g root key v = setContent g1 root (?c @ [Suc (length g), v])"
      using \<open>node_at g1 root = node_at g root\<close>
      by (simp add: setMappingValue_def None g1_def new_node_def)
    ultimately show ?thesis by (auto simp: rk1_def)
  qed
qed

subsection \<open>The sections\<close>

definition env_ok :: "yamlEnv \<Rightarrow> bool" where
  "env_ok env \<longleftrightarrow> (\<forall>n. Tag n = ''!!str'' \<longrightarrow> shortTag env n = ''!!str'')"

definition plain_keys :: "yamlEnv \<Rightarrow> heap \<Rightarrow> ref \<Rightarrow> bool" where
  "plain_keys env g root \<longleftrightarrow>
     (\<forall>k\<in>fst ` set (pairs_of (Content (node_at g root))). k \<noteq> root \<and> shortTag env (node_at g k) \<noteq> ''!!merge'')"

lemma plain_keys_set:
  assumes "env_ok env" and ok: "mapping_ok g root" and "v \<le> length g" and plain: "plain_keys env g root"
  shows "plain_keys env (setMappingValue g root key v) root"
proof -
  let ?g = "setMappingValue g root key v"
  note facts = setMappingValue_facts [OF ok assms(3), of key]
  have "k \<noteq> root \<and> shortTag env (node_at ?g k) \<noteq> ''!!merge''"
    if k: "k \<in> fst ` set (pairs_of (Content (node_at ?g root)))" for k
  proof -
    consider "k \<in> fst ` set (pairs_of (Content (node_at g root)))" | "length g < k" "node_at ?g k = strNode key"
      using facts(4) k by blast
    then show ?thesis
    proof cases
      case 1
      then have "k \<in> set (Content (node_at g root))"
        by (auto dest: pairs_of_set)
      then have "k \<le> length g"
        using ok valid_content by (auto simp: mapping_ok_def)
      moreover have "k \<noteq> root" "shortTag env (node_at g k) \<noteq> ''!!merge''"
        using 1 plain unfolding plain_keys_def by blast+
      ultimately show ?thesis
        using facts(1) by (simp add: grown_def)
    next
      case 2
      then show ?thesis
        using assms(1) ok by (auto simp: env_ok_def mapping_ok_def strNode_def)
    qed
  qed
  then show ?thesis by (simp add: plain_keys_def)
qed

lemma plain_lookup:
  assumes "plain_keys env g root"
  shows "mappingValue (Suc n) env g key root = Some (valueOf (topPairs g root) key)"
proof -
  have "ownPairs env g ps = topOf g c \<and> mergeSources env g ps = []"
    if "ps = pairs_of c" "\<forall>k\<in>fst ` set ps. shortTag env (node_at g k) \<noteq> ''!!merge''" for c ps
    using that by (induction c arbitrary: ps rule: pairs_of.induct) auto
  with assms have "ownPairs env g (pairs_of (Content (node_at g root))) = topPairs g root"
    "mergeSources env g (pairs_of (Content (node_at g root))) = []"
    by (auto simp: plain_keys_def topPairs_def)
  then show ?thesis by (simp add: scanPairs_spec valueOf_def split: option.split)
qed

text \<open>A stage of the merge: the heap grew from \<open>h\<close>, and can still be ranked as before.\<close>

definition stage :: "yamlEnv \<Rightarrow> heap \<Rightarrow> (ref \<Rightarrow> nat) \<Rightarrow> ref \<Rightarrow> heap \<Rightarrow> bool" where
  "stage env h rk root g \<longleftrightarrow> grown root h g \<and> mapping_ok g root \<and> plain_keys env g root \<and>
     (\<exists>rk'. ranked g rk' \<and> (\<forall>q \<le> length h. rk' q = rk q))"

lemma stage_set:
  assumes "env_ok env" and st: "stage env h rk root g" and "v \<le> length h" and "rk v < rk root" and "root \<le> length h"
  shows "stage env h rk root (setMappingValue g root key v)"
proof -
  obtain rk' where rk': "ranked g rk'" "\<forall>q \<le> length h. rk' q = rk q"
    and g: "grown root h g" "mapping_ok g root" "plain_keys env g root"
    using st by (auto simp: stage_def)
  have len: "length h \<le> length g" using g(1) by (simp add: grown_def)
  then have v: "v \<le> length g" "rk' v < rk' root" using assms rk' by simp_all
  obtain rk'' where "ranked (setMappingValue g root key v) rk''" "\<forall>q \<le> length g. rk'' q = rk' q"
    using setMappingValue_ranked [OF g(2) rk'(1) v] by blast
  then have "\<exists>rk'. ranked (setMappingValue g root key v) rk' \<and> (\<forall>q \<le> length h. rk' q = rk q)"
    using rk'(2) len by (intro exI [of _ rk'']) simp
  moreover have "grown root h (setMappingValue g root key v)"
    using grown_trans [OF g(1)] setMappingValue_facts(1) [OF g(2) v(1)] .
  ultimately show ?thesis
    using setMappingValue_facts(2) [OF g(2) v(1)] plain_keys_set [OF assms(1) g(2) v(1) g(3)]
    by (simp add: stage_def)
qed

lemma grown_agree:
  assumes "grown root h g" and "valid h" and "p \<le> length h" and "\<not> reaches h p root"
  shows "agree {s. reaches h p s} h g"
  using assms reaches_valid [OF _ assms(2,3)]
  by (auto simp: agree_def grown_def intro: reaches_edge)

lemma valueOf_mem: "valueOf ps key \<noteq> 0 \<Longrightarrow> valueOf ps key \<in> snd ` set ps"
  by (force simp: valueOf_def split: option.splits dest: map_of_SomeD)

lemma mergeSections_result:
  assumes env: "env_ok env" and h: "ranked h rk" "nil_free h" "valid h" and root: "root \<le> length h"
    and p: "p \<le> length h" "rk p < n" "\<not> reaches h p root"
    and rank: "\<And>q. reaches h p q \<Longrightarrow> rks q = rk q \<and> rk q < rks root"
    and st: "stage env h rks root g"
  shows "\<exists>g'. mergeSections n env p root keys g = Some g' \<and> stage env h rks root g' \<and>
    (\<forall>key. map_of (topPairs g' root) key =
       (if key \<in> set keys \<and> valueOf (mergedPairs n env h p) key \<noteq> 0
        then Some (valueOf (mergedPairs n env h p) key) else map_of (topPairs g root) key))"
  using st
proof (induction keys arbitrary: g)
  case Nil
  then show ?case by simp
next
  case (Cons k keys)
  define v where "v = valueOf (mergedPairs n env h p) k"
  have g: "grown root h g" "mapping_ok g root" using Cons(2) by (auto simp: stage_def)
  have "mappingValue n env g k p = mappingValue n env h k p"
    using agree_mappingValue [OF grown_agree [OF g(1) h(3) p(1) p(3)]] reaches_refl by simp
  then have run: "mappingValue n env g k p = Some v"
    using lookup_is_merged_view [OF h(1,2) p(2)] by (simp add: v_def)
  have v: "v = 0 \<or> reaches h p v"
    using mergedPairs_reach [OF h(1) valueOf_mem, of n env p k] by (auto simp: v_def)
  then have v_len: "v \<le> length h" using reaches_valid h(3) p(1) by blast
  define g1 where "g1 = (if v \<noteq> 0 then setMappingValue g root k v else g)"
  have "stage env h rks root g1"
    unfolding g1_def using stage_set [OF env Cons(2) v_len _ root] v rank Cons(2) by auto
  from Cons(1) [OF this] obtain g' where g': "mergeSections n env p root keys g1 = Some g'" "stage env h rks root g'"
      "\<forall>key. map_of (topPairs g' root) key =
       (if key \<in> set keys \<and> valueOf (mergedPairs n env h p) key \<noteq> 0
        then Some (valueOf (mergedPairs n env h p) key) else map_of (topPairs g1 root) key)" by blast
  have "length h \<le> length g" using g(1) by (simp add: grown_def)
  then have "map_of (topPairs g1 root) key = (if key = k \<and> v \<noteq> 0 then Some v else map_of (topPairs g root) key)" for key
    using setMappingValue_facts(3) [OF g(2), of v k] v_len by (simp add: g1_def)
  moreover have "mergeSections n env p root (k # keys) g = Some g'"
    using run g'(1) by (simp add: g1_def)
  ultimately show ?case
    using g'(2,3) by (intro exI [of _ g']) (auto simp: v_def)
qed

subsection \<open>The rules\<close>

text \<open>The items behind a pointer, and what may stand where rules are expected.\<close>

definition items_at :: "heap \<Rightarrow> ref \<Rightarrow> ref list" where
  "items_at h r = (case resolveAlias h r of None \<Rightarrow> [] | Some s \<Rightarrow> Content (node_at h s))"

definition list_or_null :: "yamlEnv \<Rightarrow> heap \<Rightarrow> ref \<Rightarrow> bool" where
  "list_or_null env h r \<longleftrightarrow>
     (case resolveAlias h r of
        None \<Rightarrow> False
      | Some s \<Rightarrow> r = 0 \<or> s \<noteq> 0 \<and> (Kind (node_at h s) = KSequence \<or> isNull env (node_at h s)))"

definition nulls_empty :: "yamlEnv \<Rightarrow> heap \<Rightarrow> bool" where
  "nulls_empty env h \<longleftrightarrow> (\<forall>r. isNull env (node_at h r) \<longrightarrow> Content (node_at h r) = [])"

lemma isNull_kind: "isNull env n \<Longrightarrow> Kind n = KScalar"
  by (simp add: isNull_def)

lemma appendRules_result:
  assumes a: "resolveAlias g a = Some a'" "a = 0 \<or> a' \<noteq> 0 \<and> (Kind (node_at g a') = KSequence \<or> isNull env (node_at g a'))"
    and p: "resolveAlias g p = Some p'" "p = 0 \<or> p' \<noteq> 0 \<and> (Kind (node_at g p') = KSequence \<or> isNull env (node_at g p'))"
    and null: "isNull env (node_at g a') \<Longrightarrow> Content (node_at g a') = []"
      "isNull env (node_at g p') \<Longrightarrow> Content (node_at g p') = []"
  shows "\<exists>v g'. appendRules env g a p = Some (Inr v, g') \<and>
    (v = 0 \<and> g' = g \<and> p = 0 \<or>
     v \<noteq> 0 \<and> v \<in> {a', p'} \<and> g' = g \<and> Kind (node_at g v) \<noteq> KAlias \<and>
       Content (node_at g v) = Content (node_at g a') @ Content (node_at g p') \<or>
     (v, g') = new_node g (zeroNode\<lparr>Kind := KSequence, Tag := ''!!seq'',
       Content := Content (node_at g a') @ Content (node_at g p')\<rparr>))"
proof (cases "p = 0")
  case True
  then show ?thesis by (simp add: appendRules_def)
next
  case False
  have a0: "a' = 0" if "a = 0" using a(1) that by simp
  consider (empty) "a' = 0 \<or> isNull env (node_at g a') \<or> Kind (node_at g a') = KSequence \<and> Content (node_at g a') = []"
    | (null) "\<not> (a' = 0 \<or> isNull env (node_at g a') \<or> Kind (node_at g a') = KSequence \<and> Content (node_at g a') = [])"
        "isNull env (node_at g p')"
    | (both) "\<not> (a' = 0 \<or> isNull env (node_at g a') \<or> Kind (node_at g a') = KSequence \<and> Content (node_at g a') = [])"
        "\<not> isNull env (node_at g p')" by blast
  then show ?thesis
  proof cases
    case empty
    then have "Content (node_at g a') = []" using null by auto
    moreover have "appendRules env g a p = Some (Inr p', g)"
      using empty False a p by (simp add: appendRules_def Let_def)
    ultimately show ?thesis
      using p(2) False isNull_kind [of env "node_at g p'"] by (intro exI [of _ p'] exI [of _ g]) auto
  next
    case null': null
    then have "appendRules env g a p = Some (Inr a', g)"
      using False a p by (auto simp: appendRules_def Let_def a0)
    then show ?thesis
      using null' null(2) a(2) a0 by (intro exI [of _ a'] exI [of _ g]) auto
  next
    case both
    then have "appendRules env g a p = Some (Inr (Suc (length g)), snd (new_node g (zeroNode\<lparr>Kind := KSequence,
        Tag := ''!!seq'', Content := Content (node_at g a') @ Content (node_at g p')\<rparr>)))"
      using False a p a0 by (auto simp: appendRules_def Let_def new_node_def)
    then show ?thesis
      by (intro exI conjI, assumption) (simp add: new_node_def)
  qed
qed

text \<open>An overlay and a profile the merge can take: mappings of documents without a cycle, apart.\<close>

definition mergeable :: "yamlEnv \<Rightarrow> heap \<Rightarrow> (ref \<Rightarrow> nat) \<Rightarrow> ref \<Rightarrow> ref \<Rightarrow> bool" where
  "mergeable env h rk profile root \<longleftrightarrow>
     env_ok env \<and> ranked h rk \<and> nil_free h \<and> nulls_empty env h \<and> mapping_ok h root \<and> plain_keys env h root \<and>
     profile \<le> length h \<and> \<not> reaches h profile root"

lemma agree_items:
  assumes "agree {s. reaches h p s} h g" and "resolveAlias h p = Some s"
  shows "resolveAlias g p = Some s" "node_at g s = node_at h s"
proof -
  have "p \<in> {s. reaches h p s}" by (simp add: reaches_refl)
  then show "resolveAlias g p = Some s" "node_at g s = node_at h s"
    using agree_resolve [OF assms(1)] agree_resolved [OF assms(1) _ assms(2)] assms
    by (auto simp: agree_def)
qed

lemma grown_node: "grown root h g \<Longrightarrow> r \<le> length h \<Longrightarrow> r \<noteq> root \<Longrightarrow> node_at g r = node_at h r"
  by (simp add: grown_def)

text \<open>The last assignment: the rules go into the mapping, whatever node they are.\<close>

lemma rules_set:
  assumes g: "grown root h g" "mapping_ok g root" "ranked g rk"
    and v: "v \<le> length g" "v \<noteq> root" "rk v < rk root" "Kind (node_at g v) \<noteq> KAlias"
    and g': "g' = setMappingValue g root key v"
  shows "grown root h g'" and "mapping_ok g' root" and "\<exists>rk'. ranked g' rk' \<and> rk' root = rk root"
    and "items_at g' (valueOf (topPairs g' root) key) = Content (node_at g v)"
    and "\<forall>k. k \<noteq> key \<longrightarrow> map_of (topPairs g' root) k = map_of (topPairs g root) k"
proof -
  note facts = setMappingValue_facts [OF g(2) v(1), of key, folded g']
  show "grown root h g'" by (rule grown_trans [OF g(1) facts(1)])
  show "mapping_ok g' root" by (rule facts(2))
  obtain rk' where "ranked g' rk'" "\<forall>q \<le> length g. rk' q = rk q"
    using setMappingValue_ranked [OF g(2,3) v(1,3), of key] g' by blast
  moreover have "root \<le> length g" using g(2) by (simp add: mapping_ok_def)
  ultimately show "\<exists>rk'. ranked g' rk' \<and> rk' root = rk root" by blast
  have node: "node_at g' v = node_at g v" by (rule grown_node [OF facts(1) v(1,2)])
  then have "resolveAlias g' v = Some v" using v(4) by (intro resolve_here) simp
  then show "items_at g' (valueOf (topPairs g' root) key) = Content (node_at g v)"
    using facts(3) node by (simp add: valueOf_def items_at_def)
  show "\<forall>k. k \<noteq> key \<longrightarrow> map_of (topPairs g' root) k = map_of (topPairs g root) k"
    using facts(3) by simp
qed

text \<open>Where the rules of the overlay and of the profile lead, before and after the sections were merged.\<close>

lemma rules_lead:
  assumes m: "mergeable env h rk p root" and g: "grown root h g"
    and a: "a = valueOf (topPairs h root) ''rules''" "list_or_null env h a"
    and own: "own = valueOf (mergedPairs n env h p) ''rules''" "list_or_null env h own"
  obtains a' o' where
    "resolveAlias g a = Some a'" "node_at g a' = node_at h a'"
    "a = 0 \<or> a' \<noteq> 0 \<and> (Kind (node_at h a') = KSequence \<or> isNull env (node_at h a'))"
    "resolveAlias g own = Some o'" "node_at g o' = node_at h o'"
    "own = 0 \<or> o' \<noteq> 0 \<and> (Kind (node_at h o') = KSequence \<or> isNull env (node_at h o'))"
    "items_at h a = Content (node_at h a')" "items_at h own = Content (node_at h o')"
    "a' \<le> length h" "a' = 0 \<or> rk a' < rk root" "o' = 0 \<or> reaches h p o'"
proof -
  have h: "ranked h rk" "nil_free h" "nulls_empty env h" "valid h" "0 < root" "root \<le> length h" "p \<le> length h"
      "\<not> reaches h p root"
    using m by (simp_all add: mergeable_def mapping_ok_def)
  obtain a' where a': "resolveAlias h a = Some a'" "a = 0 \<or> a' \<noteq> 0 \<and> (Kind (node_at h a') = KSequence \<or> isNull env (node_at h a'))"
    using a(2) by (auto simp: list_or_null_def split: option.splits)
  obtain o' where o': "resolveAlias h own = Some o'" "own = 0 \<or> o' \<noteq> 0 \<and> (Kind (node_at h o') = KSequence \<or> isNull env (node_at h o'))"
    using own(2) by (auto simp: list_or_null_def split: option.splits)
  have a_child: "a = 0 \<or> a \<in> set (Content (node_at h root))"
    using valueOf_mem [of "topPairs h root" "''rules''"] pairs_of_set
    by (fastforce simp: a(1) topPairs_def topOf_def)
  then have a_len: "a \<le> length h" using valid_content [OF h(4)] by auto
  have a_rank: "a' = 0 \<or> rk a' < rk root"
    using a_child ranked_child [OF h(1), of a root] reaches_rank [OF resolve_reaches [OF h(1) a'(1)] h(1)] a'(1) by auto
  have zero: "\<not> reaches h 0 root"
    using reaches_nil [of h 0 root] h(5) by auto
  have "\<not> reaches h a root"
  proof (cases "a = 0")
    case True
    then show ?thesis using zero by simp
  next
    case False
    then have "rk a < rk root" using a_child ranked_child [OF h(1), of a root] by simp
    then show ?thesis using reaches_rank [OF _ h(1), of a root] by auto
  qed
  then have a_g: "resolveAlias g a = Some a'" "node_at g a' = node_at h a'"
    using agree_items [OF grown_agree [OF g h(4) a_len] a'(1)] by simp_all
  have own_reach: "own = 0 \<or> reaches h p own"
    using mergedPairs_reach [OF h(1) valueOf_mem, of n env p "''rules''"] own(1) by auto
  have o_reach: "o' = 0 \<or> reaches h p o'"
  proof (cases "own = 0")
    case True
    then show ?thesis using o'(1) by simp
  next
    case False
    then show ?thesis using own_reach reaches_trans [OF resolve_reaches [OF h(1) o'(1)], of p] by simp
  qed
  have own_len: "own \<le> length h"
    using own_reach reaches_valid [OF _ h(4,7)] by auto
  have "\<not> reaches h own root"
  proof (cases "own = 0")
    case True
    then show ?thesis using zero by simp
  next
    case False
    then show ?thesis using own_reach h(8) reaches_trans [of h own root p] by blast
  qed
  then have o_g: "resolveAlias g own = Some o'" "node_at g o' = node_at h o'"
    using agree_items [OF grown_agree [OF g h(4) own_len] o'(1)] by simp_all
  have items: "items_at h a = Content (node_at h a')" "items_at h own = Content (node_at h o')"
    by (simp_all add: items_at_def a'(1) o'(1))
  moreover have "a' \<le> length h" using reaches_valid [OF resolve_reaches [OF h(1) a'(1)] h(4) a_len] by auto
  ultimately show thesis using that [OF a_g a'(2) o_g o'(2)] a_rank o_reach by blast
qed

text \<open>A new list of rules, put into the mapping.\<close>

lemma fresh_rules:
  assumes g: "grown root h g" "mapping_ok g root" "ranked g rk0" and root: "0 < root"
    and m: "m = zeroNode\<lparr>Kind := KSequence, Tag := ''!!seq'', Content := cs\<rparr>" and new: "(v, g1) = new_node g m"
    and child: "\<And>q. q \<in> set cs \<Longrightarrow> rk0 q < x \<and> q \<le> length g" and x: "x < rk0 root"
    and g': "g' = setMappingValue g1 root ''rules'' v"
  shows "grown root h g'" "mapping_ok g' root" "\<exists>rk'. ranked g' rk' \<and> rk' root = rk0 root"
    "items_at g' (valueOf (topPairs g' root) ''rules'') = cs"
    "\<forall>k. k \<noteq> ''rules'' \<longrightarrow> map_of (topPairs g' root) k = map_of (topPairs g root) k"
proof -
  have vg: "v = Suc (length g)" "g1 = snd (new_node g m)"
    using new by (simp_all add: new_node_def)
  have g_valid: "valid g" "root \<le> length g" using g(2) by (simp_all add: mapping_ok_def)
  define rk1 where "rk1 = rk0(Suc (length g) := x)"
  have refs: "\<forall>q\<in>set (Content m). q \<le> length g" using child by (simp add: m)
  have "ranked g1 rk1"
    unfolding vg(2) rk1_def using child by (intro ranked_new [OF g(3) g_valid(1)]) (fastforce simp: m)+
  moreover have root_same: "node_at g1 root = node_at g root" using g_valid(2) by (simp add: vg(2) node_at_new)
  moreover have "grown root h g1"
    using g(1) grown_new [of root g m] root g_valid(2) grown_trans unfolding vg(2) by blast
  moreover have "mapping_ok g1 root"
    using g(2) root_same valid_new [OF g_valid(1) refs] unfolding mapping_ok_def vg(2)
    by (simp add: m new_node_def)
  moreover have "v \<le> length g1" "v \<noteq> root" using g_valid(2) by (simp_all add: vg new_node_def)
  moreover have root1: "rk1 root = rk0 root" using g_valid(2) by (simp add: rk1_def)
  moreover have "rk1 v < rk1 root" using x g_valid(2) by (simp add: rk1_def vg(1))
  moreover have node: "node_at g1 v = m" by (simp add: vg node_at_new)
  ultimately have set: "grown root h g'" "mapping_ok g' root" "\<exists>rk'. ranked g' rk' \<and> rk' root = rk1 root"
    "items_at g' (valueOf (topPairs g' root) ''rules'') = Content m"
    "\<forall>k. k \<noteq> ''rules'' \<longrightarrow> map_of (topPairs g' root) k = map_of (topPairs g1 root) k"
    using rules_set [of root h g1 rk1 v g' "''rules''"] g' by (simp_all add: m)
  have "topPairs g1 root = topPairs g root"
    unfolding topPairs_def root_same using valid_content [OF g_valid(1)]
    by (intro topOf_cong) (fastforce simp: vg(2) node_at_new)
  with set root1 show "grown root h g'" "mapping_ok g' root" "\<exists>rk'. ranked g' rk' \<and> rk' root = rk0 root"
    "items_at g' (valueOf (topPairs g' root) ''rules'') = cs"
    "\<forall>k. k \<noteq> ''rules'' \<longrightarrow> map_of (topPairs g' root) k = map_of (topPairs g root) k"
    by (simp_all add: m)
qed

lemma mergeRules_result:
  assumes m: "mergeable env h rk p root" and rks: "rks = (\<lambda>q. if reaches h p q then rk q else Suc (rk p) + rk q)"
    and st: "stage env h rks root g" and n: "rk p < n"
    and a: "a = valueOf (topPairs g root) ''rules''" "a = valueOf (topPairs h root) ''rules''" "list_or_null env h a"
    and own: "own = valueOf (mergedPairs n env h p) ''rules''" "list_or_null env h own"
  shows "\<exists>g' rk'. mergeRules n env p root g = Some (Inr (), g') \<and> grown root h g' \<and> mapping_ok g' root \<and>
    ranked g' rk' \<and> rk' root = rks root \<and>
    items_at g' (valueOf (topPairs g' root) ''rules'') = items_at h a @ items_at h own \<and>
    (\<forall>key. key \<noteq> ''rules'' \<longrightarrow> map_of (topPairs g' root) key = map_of (topPairs g root) key)"
proof -
  have h: "ranked h rk" "nil_free h" "nulls_empty env h" "valid h" "0 < root" "root \<le> length h" "p \<le> length h"
      "\<not> reaches h p root"
    using m by (simp_all add: mergeable_def mapping_ok_def)
  obtain rk0 where g: "grown root h g" "mapping_ok g root" "plain_keys env g root" "ranked g rk0"
      "\<forall>q \<le> length h. rk0 q = rks q"
    using st by (auto simp: stage_def)
  have rks_le: "rks q \<le> Suc (rk p) + rk q" for q by (simp add: rks)
  have rks_root: "rks root = Suc (rk p) + rk root" using h(8) by (simp add: rks)
  \<comment> \<open>the two lookups\<close>
  obtain n' where "n = Suc n'" using n by (cases n) auto
  then have run_a: "mappingValue n env g ''rules'' root = Some a"
    using plain_lookup [OF g(3)] a(1) by simp
  have "mappingValue n env g ''rules'' p = mappingValue n env h ''rules'' p"
    using agree_mappingValue [OF grown_agree [OF g(1) h(4,7,8)]] reaches_refl by simp
  then have run_own: "mappingValue n env g ''rules'' p = Some own"
    using lookup_is_merged_view [OF h(1,2) n] own(1) by simp
  obtain a' o' where a_g: "resolveAlias g a = Some a'" "node_at g a' = node_at h a'"
    and a': "a = 0 \<or> a' \<noteq> 0 \<and> (Kind (node_at h a') = KSequence \<or> isNull env (node_at h a'))"
    and o_g: "resolveAlias g own = Some o'" "node_at g o' = node_at h o'"
    and o': "own = 0 \<or> o' \<noteq> 0 \<and> (Kind (node_at h o') = KSequence \<or> isNull env (node_at h o'))"
    and items: "items_at h a = Content (node_at h a')" "items_at h own = Content (node_at h o')"
    and a_len: "a' \<le> length h" and a_rank: "a' = 0 \<or> rk a' < rk root" and o_reach: "o' = 0 \<or> reaches h p o'"
    by (rule rules_lead [OF m g(1) a(2,3) own])
  have null: "isNull env (node_at h r) \<Longrightarrow> Content (node_at h r) = []" for r
    using h(3) by (simp add: nulls_empty_def)
  have len: "length h \<le> length g" using g(1) by (simp add: grown_def)
  have low: "rk0 v < rk0 root \<and> v \<noteq> root \<and> v \<le> length h" if "v \<in> {a', o'}" "v \<noteq> 0" for v
  proof -
    have "v \<noteq> root \<and> rks v < rks root"
    proof (cases "v = o'")
      case True
      then have "reaches h p v" using o_reach that by simp
      moreover from this have "rk v \<le> rk p" by (rule reaches_rank [OF _ h(1)])
      ultimately show ?thesis using h(8) rks_root by (auto simp: rks)
    next
      case False
      then have "rk v < rk root" using that a_rank by auto
      then show ?thesis using rks_le [of v] rks_root by auto
    qed
    moreover have "v \<le> length h"
      using that o_reach reaches_valid [OF _ h(4,7), of o'] a_len by auto
    ultimately show ?thesis using g(5) h(6) by simp
  qed
  obtain v g1 where app: "appendRules env g a own = Some (Inr v, g1)"
    and out: "v = 0 \<and> g1 = g \<and> own = 0 \<or>
      v \<noteq> 0 \<and> v \<in> {a', o'} \<and> g1 = g \<and> Kind (node_at g v) \<noteq> KAlias \<and>
        Content (node_at g v) = Content (node_at g a') @ Content (node_at g o') \<or>
      (v, g1) = new_node g (zeroNode\<lparr>Kind := KSequence, Tag := ''!!seq'',
        Content := Content (node_at g a') @ Content (node_at g o')\<rparr>)"
    using appendRules_result [OF a_g(1) a' [folded a_g(2)] o_g(1) o' [folded o_g(2)]
        null [of a', folded a_g(2)] null [of o', folded o_g(2)]] by auto
  have run: "mergeRules n env p root g = Some (Inr (), if v \<noteq> 0 then setMappingValue g1 root ''rules'' v else g1)"
    by (simp add: mergeRules_def run_a run_own app)
  from out consider (none) "v = 0" "g1 = g" "own = 0"
    | (one) "v \<noteq> 0" "v \<in> {a', o'}" "g1 = g" "Kind (node_at g v) \<noteq> KAlias"
        "Content (node_at g v) = Content (node_at g a') @ Content (node_at g o')"
    | (new) "(v, g1) = new_node g (zeroNode\<lparr>Kind := KSequence, Tag := ''!!seq'',
        Content := Content (node_at g a') @ Content (node_at g o')\<rparr>)" by blast
  then show ?thesis
  proof cases
    case none
    have "items_at g a = items_at h a" "items_at h own = []"
      using a_g items(1) none(3) by (simp_all add: items_at_def)
    moreover have "rk0 root = rks root" using g(5) h(6) by simp
    ultimately show ?thesis
      using none run g(1,2,4) a(1) by (intro exI [of _ g] exI [of _ rk0]) simp
  next
    case one
    have v: "rk0 v < rk0 root" "v \<noteq> root" "v \<le> length g" using low one len by force+
    obtain g' where g': "g' = setMappingValue g root ''rules'' v" by simp
    note set = rules_set [OF g(1,2,4) v(3,2,1) one(4) g']
    obtain rk' where "ranked g' rk'" "rk' root = rks root" using set(3) g(5) h(6) by auto
    moreover have "items_at g' (valueOf (topPairs g' root) ''rules'') = items_at h a @ items_at h own"
      by (simp only: set(4) one(5) a_g(2) o_g(2) items)
    moreover have "mergeRules n env p root g = Some (Inr (), g')"
      using run one g' by simp
    ultimately show ?thesis using set(1,2,5) by blast
  next
    case new
    let ?cs = "Content (node_at g a') @ Content (node_at g o')"
    define x where "x = (if a' = 0 then rk p else Suc (rk p) + rk a')"
    have child: "rk0 q < x \<and> q \<le> length h" if "q \<in> set ?cs" for q
    proof -
      have q_in: "q \<in> set (Content (node_at h a')) \<or> q \<in> set (Content (node_at h o'))"
        using that a_g(2) o_g(2) by auto
      then have "q \<le> length h" using valid_content [OF h(4)] by blast
      moreover have "rks q < x"
      proof (cases "q \<in> set (Content (node_at h o'))")
        case True
        then have o0: "o' \<noteq> 0" by (cases "o' = 0") auto
        then have "reaches h p q" using o_reach child_reaches [OF True] reaches_trans by blast
        then have "rks q = rk q" by (simp add: rks)
        moreover have "rk q < rk o'" "rk o' \<le> rk p"
          using ranked_child [OF h(1) True] o_reach o0 reaches_rank [OF _ h(1)] by auto
        ultimately show ?thesis by (simp add: x_def)
      next
        case False
        then have q: "q \<in> set (Content (node_at h a'))" using q_in by simp
        then have "a' \<noteq> 0" by (cases "a' = 0") auto
        then show ?thesis using ranked_child [OF h(1) q] rks_le [of q] by (simp add: x_def)
      qed
      ultimately show ?thesis using g(5) by simp
    qed
    have x: "x < rk0 root" using a_rank g(5) h(6) rks_root by (auto simp: x_def)
    have child': "rk0 q < x \<and> q \<le> length g" if "q \<in> set ?cs" for q using child [OF that] len by simp
    obtain g' where g': "g' = setMappingValue g1 root ''rules'' v" by simp
    note set = fresh_rules [OF g(1,2,4) h(5) refl new child' x g']
    have "v \<noteq> 0" using new by (simp add: new_node_def)
    then have "mergeRules n env p root g = Some (Inr (), g')" using run g' by simp
    moreover have "?cs = items_at h a @ items_at h own" by (simp add: a_g(2) o_g(2) items)
    moreover have "rk0 root = rks root" using g(5) h(6) by simp
    ultimately show ?thesis using set by metis
  qed
qed

subsection \<open>The whole merge\<close>

lemma new_agree:
  assumes "valid g" and "p \<le> length g"
  shows "agree {s. reaches g p s} g (snd (new_node g n))"
proof -
  have "s \<noteq> Suc (length g)" if "reaches g p s" for s
    using reaches_valid [OF that assms] by simp
  then show ?thesis
    by (auto simp: agree_def node_at_new intro: reaches_edge)
qed

lemma items_agree:
  assumes "agree {s. reaches h p s} h g"
  shows "items_at g p = items_at h p"
proof (cases "resolveAlias h p")
  case None
  then show ?thesis
    using agree_resolve [OF assms, of p] by (simp add: items_at_def reaches_refl)
next
  case (Some s)
  then show ?thesis using agree_items [OF assms Some] by (simp add: items_at_def)
qed

lemma items_retagged:
  assumes "retagged h g"
  shows "items_at g p = items_at h p" and "topPairs g r = topPairs h r"
proof -
  have "same_links h g" by (simp add: same_links_def retagged_parts [OF assms])
  then show "items_at g p = items_at h p"
    by (simp add: items_at_def resolve_same_links [of h g] retagged_parts [OF assms] split: option.split)
  show "topPairs g r = topPairs h r"
    by (simp add: topPairs_def topOf_def retagged_parts [OF assms])
qed

lemma edges_retagged: "retagged h g \<Longrightarrow> edges g r = edges h r"
  by (simp add: edges_def retagged_parts)

lemma valid_retagged: "retagged h g \<Longrightarrow> valid h \<Longrightarrow> valid g"
  by (simp add: valid_def edges_retagged) (simp add: retagged_def)

lemma first_stage:
  assumes m: "mergeable env h rk p root" and rks: "rks = (\<lambda>q. if reaches h p q then rk q else Suc (rk p) + rk q)"
  shows "stage env h rks root h"
proof -
  have h: "ranked h rk" using m by (simp add: mergeable_def)
  have "rks q < rks r" if "q \<in> set (edges h r)" for q r
  proof -
    have "rk q < rk r" using h that by (simp add: ranked_def)
    then show ?thesis using reaches_edge [of h p r q] that by (simp add: rks)
  qed
  then have "ranked h rks" by (simp add: ranked_def)
  then show ?thesis using m by (auto simp: stage_def mergeable_def grown_refl)
qed

text \<open>The last steps, retagging and the document around the mapping, keep what it maps and its rules.\<close>

lemma finish_document:
  assumes g: "grown root h g2" "mapping_ok g2 root" "ranked g2 rk'" and n: "rk' root < n"
    and v: "v = valueOf (topPairs g2 root) ''rules''"
  obtains g3 b g where "(if retag then retagShortIDs n g2 root else Some (g2, False)) = Some (g3, b)"
    "new_node g3 (zeroNode\<lparr>Kind := KDocument, Content := [root]\<rparr>) = (Suc (length g3), g)"
    "Content (node_at g (Suc (length g3))) = [root]" "topPairs g root = topPairs g2 root"
    "items_at g v = items_at g2 v" "\<And>r. r \<le> length h \<Longrightarrow> r \<noteq> root \<Longrightarrow> retags (node_at h r) (node_at g r)"
proof -
  have "\<exists>g3 b. (if retag then retagShortIDs n g2 root else Some (g2, False)) = Some (g3, b) \<and> retagged g2 g3"
  proof (cases retag)
    case True
    then show ?thesis
      using n retagShortIDs_returns [OF g(3) retagged_refl] retagger_shortIDs unfolding retagger_def by fastforce
  next
    case False
    then show ?thesis by (intro exI [of _ g2] exI [of _ False]) (simp add: retagged_refl)
  qed
  then obtain g3 b where g3: "(if retag then retagShortIDs n g2 root else Some (g2, False)) = Some (g3, b)"
      "retagged g2 g3" by blast
  let ?doc = "zeroNode\<lparr>Kind := KDocument, Content := [root]\<rparr>"
  define g where "g = snd (new_node g3 ?doc)"
  have v3: "valid g3" and len: "length g3 = length g2" "length h \<le> length g2" "root \<le> length g2"
    using valid_retagged [OF g3(2)] g(1,2) g3(2) by (auto simp: mapping_ok_def retagged_def grown_def)
  have "topOf g c = topOf g3 c" if "c = Content (node_at g3 root)" for c
    unfolding that g_def using valid_content [OF v3] by (intro topOf_cong) (fastforce simp: node_at_new)
  moreover have "node_at g root = node_at g3 root"
    using len by (simp add: g_def node_at_new)
  ultimately have top: "topPairs g root = topPairs g2 root"
    using items_retagged(2) [OF g3(2), of root] by (simp add: topPairs_def)
  have "v = 0 \<or> v \<in> set (Content (node_at g2 root))"
    using valueOf_mem [of "topPairs g2 root" "''rules''"] pairs_of_set
    by (fastforce simp: v topPairs_def topOf_def)
  then have "v \<le> length g3" using valid_content assms(2) len by (auto simp: mapping_ok_def)
  then have items: "items_at g v = items_at g2 v"
    using items_agree [OF new_agree [OF v3]] items_retagged(1) [OF g3(2)] by (simp add: g_def)
  have "retags (node_at h r) (node_at g r)" if "r \<le> length h" "r \<noteq> root" for r
  proof -
    have "retags (node_at g2 r) (node_at g3 r)" using g3(2) by (simp add: retagged_def)
    then show ?thesis
      using grown_node [OF assms(1) that] len that by (simp add: g_def node_at_new)
  qed
  with g3(1) top items show thesis
    by (intro that [of g3 b g]) (simp_all add: g_def node_at_new, simp add: new_node_def)
qed

text \<open>
  \<^bold>\<open>C26.\<close> The merge of a profile with an overlay returns, with fuel for the depths of both. It is the
  overlay's mapping, except that each section the profile has replaces the overlay's and that the rules are
  the overlay's rules followed by the profile's. Of the nodes of both documents nothing changes but the tags
  of numbers that are retagged.
\<close>

lemma merge_keeps_the_parts:
  assumes m: "mergeable env h rk profile root" and n: "rk profile + rk root + 1 < n"
    and "list_or_null env h (valueOf (topPairs h root) ''rules'')"
    and "list_or_null env h (valueOf (mergedPairs n env h profile) ''rules'')"
  shows "\<exists>d g. mergeMappings n env retag profile root h = Some (Inr d, g) \<and>
    Content (node_at g d) = [root] \<and>
    (\<forall>key. key \<noteq> ''rules'' \<longrightarrow> map_of (topPairs g root) key =
       (if key \<in> set profileBaseSections \<and> valueOf (mergedPairs n env h profile) key \<noteq> 0
        then Some (valueOf (mergedPairs n env h profile) key) else map_of (topPairs h root) key)) \<and>
    items_at g (valueOf (topPairs g root) ''rules'') =
      items_at h (valueOf (topPairs h root) ''rules'') @
      items_at h (valueOf (mergedPairs n env h profile) ''rules'') \<and>
    (\<forall>r \<le> length h. r \<noteq> root \<longrightarrow> retags (node_at h r) (node_at g r))"
proof -
  define rks where "rks = (\<lambda>q. if reaches h profile q then rk q else Suc (rk profile) + rk q)"
  have h: "env_ok env" "ranked h rk" "nil_free h" "valid h" "root \<le> length h" "profile \<le> length h"
      "\<not> reaches h profile root"
    using m by (simp_all add: mergeable_def mapping_ok_def)
  have root: "rks root = Suc (rk profile) + rk root" using h(7) by (simp add: rks_def)
  have below: "rks q = rk q \<and> rk q < rks root" if "reaches h profile q" for q
    using that reaches_rank [OF that h(2)] root by (simp add: rks_def)
  obtain g1 where g1: "mergeSections n env profile root profileBaseSections h = Some g1" "stage env h rks root g1"
    and top1: "\<And>key. map_of (topPairs g1 root) key =
       (if key \<in> set profileBaseSections \<and> valueOf (mergedPairs n env h profile) key \<noteq> 0
        then Some (valueOf (mergedPairs n env h profile) key) else map_of (topPairs h root) key)"
    using mergeSections_result [OF h(1,2,3,4,5,6) _ h(7) below first_stage [OF m rks_def], of n profileBaseSections] n
    by auto
  have "''rules'' \<notin> set profileBaseSections" by (simp add: profileBaseSections_def)
  then have a: "valueOf (topPairs g1 root) ''rules'' = valueOf (topPairs h root) ''rules''"
    by (simp add: valueOf_def top1)
  obtain g2 rk' where g2: "mergeRules n env profile root g1 = Some (Inr (), g2)" "grown root h g2"
      "mapping_ok g2 root" "ranked g2 rk'" "rk' root = rks root"
    and items2: "items_at g2 (valueOf (topPairs g2 root) ''rules'') =
      items_at h (valueOf (topPairs h root) ''rules'') @ items_at h (valueOf (mergedPairs n env h profile) ''rules'')"
    and top2: "\<And>key. key \<noteq> ''rules'' \<Longrightarrow> map_of (topPairs g2 root) key = map_of (topPairs g1 root) key"
    using mergeRules_result [OF m rks_def g1(2) _ a [symmetric] refl assms(3) refl assms(4)] n a by auto
  have last: "rk' root < n" using g2(5) root n by simp
  obtain g3 b g where g3: "(if retag then retagShortIDs n g2 root else Some (g2, False)) = Some (g3, b)"
    "new_node g3 (zeroNode\<lparr>Kind := KDocument, Content := [root]\<rparr>) = (Suc (length g3), g)"
    "Content (node_at g (Suc (length g3))) = [root]" and top: "topPairs g root = topPairs g2 root"
    and items: "items_at g (valueOf (topPairs g2 root) ''rules'') = items_at g2 (valueOf (topPairs g2 root) ''rules'')"
    and rest: "\<And>r. r \<le> length h \<Longrightarrow> r \<noteq> root \<Longrightarrow> retags (node_at h r) (node_at g r)"
    using finish_document [OF g2(2,3,4) last refl, where retag = retag] by blast
  have "mergeMappings n env retag profile root h = Some (Inr (Suc (length g3)), g)"
    by (simp add: mergeMappings_def g1 g2 g3)
  then show ?thesis
    using g3(3) items items2 rest top top1 top2 by (intro exI [of _ "Suc (length g3)"] exI [of _ g]) simp
qed

text \<open>A profile with proxies and a rule, at node 1, and an overlay with a port and a rule, at node 7.\<close>

definition twoDocuments :: heap where
  "twoDocuments =
     [zeroNode\<lparr>Kind := KMapping, Tag := ''!!map'', Content := [2, 3, 4, 5]\<rparr>,
      scalar ''!!str'' ''proxies'', zeroNode\<lparr>Kind := KSequence, Tag := ''!!seq''\<rparr>,
      scalar ''!!str'' ''rules'', zeroNode\<lparr>Kind := KSequence, Tag := ''!!seq'', Content := [6]\<rparr>,
      scalar ''!!str'' ''MATCH,g'',
      zeroNode\<lparr>Kind := KMapping, Tag := ''!!map'', Content := [8, 9, 10, 11]\<rparr>,
      scalar ''!!str'' ''mixed-port'', scalar ''!!int'' ''7890'',
      scalar ''!!str'' ''rules'', zeroNode\<lparr>Kind := KSequence, Tag := ''!!seq'', Content := [12]\<rparr>,
      scalar ''!!str'' ''DOMAIN,a.test,DIRECT'']"

definition depths :: "ref \<Rightarrow> nat" where
  "depths r = (if r = 1 \<or> r = 7 then 2 else if r = 5 \<or> r = 11 then 1 else 0)"

lemma list_all_nodes:
  assumes "P zeroNode"
  shows "(\<forall>r. P (node_at h r)) \<longleftrightarrow> list_all P h"
proof
  assume "list_all P h"
  then show "\<forall>r. P (node_at h r)" using assms by (auto simp: node_at_def list_all_length)
next
  assume a: "\<forall>r. P (node_at h r)"
  have "P (h ! i)" if "i < length h" for i
    using a [rule_format, of "Suc i"] that by (simp add: node_at_def)
  then show "list_all P h" by (simp add: list_all_length)
qed

lemma valid_code: "valid h \<longleftrightarrow>
    list_all (\<lambda>n. list_all (\<lambda>q. q \<le> length h) ((if Kind n = KAlias then [Alias n] else []) @ Content n)) h"
  unfolding valid_def edges_def by (subst list_all_nodes [symmetric]) (auto simp: list_all_iff)

lemma nulls_empty_code: "nulls_empty env h \<longleftrightarrow> list_all (\<lambda>n. isNull env n \<longrightarrow> Content n = []) h"
  unfolding nulls_empty_def by (subst list_all_nodes [symmetric]) auto

lemma reaches_low:
  assumes "reaches h r s" and "list_all (\<lambda>r. list_all (\<lambda>q. q \<le> k) (edges h r)) [1..<Suc k]" and "r \<le> k"
  shows "s \<le> k"
  using assms
proof (induction rule: reaches.induct)
  case (reaches_edge r s q)
  then have "s \<le> k" by simp
  moreover have "s \<noteq> 0" using reaches_edge(2) edges_out [of s h] by (cases "s = 0") auto
  ultimately show ?case using reaches_edge(2,4) by (auto simp: list_all_iff)
qed simp

lemma twoDocuments_ok: "mergeable plainEnv twoDocuments depths 1 7"
proof -
  have "env_ok plainEnv" by (simp add: env_ok_def plainEnv_def)
  moreover have "ranked twoDocuments depths" "nil_free twoDocuments" "nulls_empty plainEnv twoDocuments" "valid twoDocuments"
    unfolding ranked_code nil_free_code nulls_empty_code valid_code by code_simp+
  moreover have "even (length (Content (node_at twoDocuments 7)))" "length twoDocuments = 12"
    by (simp_all add: twoDocuments_def node_at_def)
  moreover have "plain_keys plainEnv twoDocuments 7"
    unfolding plain_keys_def by (simp add: twoDocuments_def node_at_def scalar_def zeroNode_def plainEnv_def)
  moreover have "list_all (\<lambda>r. list_all (\<lambda>q. q \<le> 6) (edges twoDocuments r)) [1..<Suc 6]"
    by code_simp
  then have "\<not> reaches twoDocuments 1 7" using reaches_low [of twoDocuments 1 7 6] by auto
  ultimately show ?thesis by (simp add: mergeable_def mapping_ok_def)
qed

lemma merge_keeps_the_parts_witness:
  "\<exists>d g. mergeMappings 6 plainEnv True 1 7 twoDocuments = Some (Inr d, g) \<and>
     map_of (topPairs g 7) ''proxies'' = Some 3 \<and> map_of (topPairs g 7) ''mixed-port'' = Some 9 \<and>
     items_at g (valueOf (topPairs g 7) ''rules'') = [12, 6]"
proof -
  have keys: "topPairs twoDocuments 7 = [(''mixed-port'', 9), (''rules'', 11)]"
    "Kind (node_at twoDocuments 5) = KSequence" "Kind (node_at twoDocuments 11) = KSequence"
    "Content (node_at twoDocuments 5) = [6]" "Content (node_at twoDocuments 11) = [12]"
    by (simp_all add: topPairs_def twoDocuments_def node_at_def scalar_def)
  have view: "mergedPairs 6 plainEnv twoDocuments 1 = [(''proxies'', 3), (''rules'', 5)]"
    unfolding mergedPairs_numeral
    by (simp add: twoDocuments_def node_at_def scalar_def zeroNode_def plainEnv_def)
  have here: "resolveAlias twoDocuments 5 = Some 5" "resolveAlias twoDocuments 11 = Some 11"
    by (rule resolve_here; simp add: keys)+
  have lists: "list_or_null plainEnv twoDocuments (valueOf (topPairs twoDocuments 7) ''rules'')"
    "list_or_null plainEnv twoDocuments (valueOf (mergedPairs 6 plainEnv twoDocuments 1) ''rules'')"
    unfolding keys view by (simp_all add: keys list_or_null_def here valueOf_def)
  have rules: "valueOf (topPairs twoDocuments 7) ''rules'' = 11" "valueOf [(''proxies'', 3), (''rules'', 5)] ''rules'' = 5"
    "items_at twoDocuments 11 = [12]" "items_at twoDocuments 5 = [6]"
    by (simp_all add: keys items_at_def here valueOf_def)
  have sections: "''proxies'' \<in> set profileBaseSections" "''mixed-port'' \<notin> set profileBaseSections"
    by (simp_all add: profileBaseSections_def)
  have fuel: "depths 1 + depths 7 + 1 < 6" by (simp add: depths_def)
  note merge = merge_keeps_the_parts [OF twoDocuments_ok fuel lists, of True, unfolded view rules]
  show ?thesis
  proof (rule exE [OF merge], elim exE conjE)
    fix d g
    assume run: "mergeMappings 6 plainEnv True 1 7 twoDocuments = Some (Inr d, g)"
      and items: "items_at g (valueOf (topPairs g 7) ''rules'') = [12] @ [6]"
      and top: "\<forall>key. key \<noteq> ''rules'' \<longrightarrow> map_of (topPairs g 7) key =
       (if key \<in> set profileBaseSections \<and> valueOf [(''proxies'', 3), (''rules'', 5)] key \<noteq> 0
        then Some (valueOf [(''proxies'', 3), (''rules'', 5)] key) else map_of (topPairs twoDocuments 7) key)"
    have "map_of (topPairs g 7) ''proxies'' = Some 3" "map_of (topPairs g 7) ''mixed-port'' = Some 9"
      using top [rule_format, of "''proxies''"] top [rule_format, of "''mixed-port''"]
      by (simp_all add: sections valueOf_def keys)
    then show ?thesis
      using run items by (intro exI [of _ d] exI [of _ g]) simp
  qed
qed

end
