(* ===== verification/ProfileWrite.thy ===== *)
theory ProfileWrite
  imports ProfileMerge
begin

section \<open>Writing a merged profile and reading configs (\<open>core/profile_base.go\<close>, \<open>core/config.go\<close>)\<close>

text \<open>
  The merged document goes out in pieces: a long top-level list in slices, everything else as one pair. The
  encoder reads a tree of nodes and panics on a nil child (\<open>None\<close>); the file system is a map.
\<close>

record writeEnv =
  encode :: "tree \<Rightarrow> (string, bytes) result option"   \<comment> \<open>the YAML encoder\<close>
  flushError :: "bytes \<Rightarrow> string option"              \<comment> \<open>what writing and flushing the whole reports\<close>
  createTemp :: "string \<Rightarrow> string \<Rightarrow> (string, string) result"
  closeError :: "string option"
  chmodError :: "string option"
  renameError :: "string option"

subsection \<open>Aliases written out\<close>

definition clearAnchor :: "heap \<Rightarrow> ref \<Rightarrow> heap" where
  "clearAnchor h r = set_node h r ((node_at h r)\<lparr>Anchor := []\<rparr>)"

definition setChild :: "heap \<Rightarrow> ref \<Rightarrow> nat \<Rightarrow> ref \<Rightarrow> heap" where
  "setChild h r i q = setContent h r ((Content (node_at h r))[i := q])"

fun walkChildren ::
  "(heap \<times> ref list \<Rightarrow> ref \<Rightarrow> (heap \<times> ref list) option) \<Rightarrow> ref \<Rightarrow> nat list \<Rightarrow> heap \<times> ref list \<Rightarrow>
     (heap \<times> ref list) option" where
  "walkChildren f r [] s = Some s"
| "walkChildren f r (i # is) (h, visited) =
     (case resolveAlias h (Content (node_at h r) ! i) of
        None \<Rightarrow> None
      | Some child \<Rightarrow>
          (case f (setChild h r i child, visited) child of
             None \<Rightarrow> None
           | Some s \<Rightarrow> walkChildren f r is s))"

primrec walk :: "nat \<Rightarrow> heap \<times> ref list \<Rightarrow> ref \<Rightarrow> (heap \<times> ref list) option" where
  "walk 0 s r = None"
| "walk (Suc n) s r =
     (let (h, visited) = s in
      if r \<in> set visited then Some s
      else (let (h, visited) =
              (if Anchor (node_at h r) \<noteq> [] then (clearAnchor h r, r # visited) else (h, visited))
            in walkChildren (walk n) r [0..<length (Content (node_at h r))] (h, visited)))"

definition inlineAliases :: "nat \<Rightarrow> heap \<Rightarrow> ref \<Rightarrow> heap option" where
  "inlineAliases n h root = map_option fst (walk n (h, []) root)"

subsection \<open>The pieces\<close>

definition trim_suffix :: "string \<Rightarrow> string \<Rightarrow> string" where
  "trim_suffix suf s = (if has_prefix (rev suf) (rev s) then take (length s - length suf) s else s)"

definition newline :: string where "newline = [CHR 0x0A]"

definition encodeYamlPiece :: "writeEnv \<Rightarrow> tree \<Rightarrow> string option \<Rightarrow> bytes \<Rightarrow> (string, bytes) result option" where
  "encodeYamlPiece env t suffix out =
     (case encode env t of
        None \<Rightarrow> None
      | Some (Inl e) \<Rightarrow> Some (Inl e)
      | Some (Inr buffer) \<Rightarrow>
          (let piece = trim_suffix (''...'' @ newline) buffer
           in Some (Inr (out @ (case suffix of None \<Rightarrow> piece | Some x \<Rightarrow> trim_suffix newline piece @ x)))))"

definition encodeSliceLength :: nat where "encodeSliceLength = 4096"

definition pairTree :: "tree \<Rightarrow> tree \<Rightarrow> tree" where
  "pairTree k v = Tree KMapping ''!!map'' 0 [] [k, v]"

definition sliceTree :: "tree list \<Rightarrow> tree" where
  "sliceTree ts = Tree KSequence ''!!seq'' 0 [] ts"

definition clearItems :: "heap \<Rightarrow> ref \<Rightarrow> nat \<Rightarrow> nat \<Rightarrow> heap" where
  "clearItems h r a b =
     (let c = Content (node_at h r) in setContent h r (take a c @ replicate (b - a) 0 @ drop b c))"

fun encodeSlices ::
  "writeEnv \<Rightarrow> nat \<Rightarrow> ref \<Rightarrow> nat list \<Rightarrow> heap \<Rightarrow> bytes \<Rightarrow> ((string, bytes) result \<times> heap) option" where
  "encodeSlices env d value [] h out = Some (Inr out, h)"
| "encodeSlices env d value (start # starts) h out =
     (let c = Content (node_at h value);
          stop = min (start + encodeSliceLength) (length c);
          items = take (stop - start) (drop start c)
      in case encodeYamlPiece env (sliceTree (map (treeOf d h) items)) None out of
           None \<Rightarrow> None
         | Some (Inl e) \<Rightarrow> Some (Inl e, h)
         | Some (Inr out) \<Rightarrow> encodeSlices env d value starts (clearItems h value start stop) out)"

text \<open>The starts of the inner loop: 0, 4096, 8192, up to the length.\<close>

definition sliceStarts :: "nat \<Rightarrow> nat list" where
  "sliceStarts n = filter (\<lambda>i. i mod encodeSliceLength = 0) [0..<n]"

definition encodePair ::
  "writeEnv \<Rightarrow> nat \<Rightarrow> ref \<Rightarrow> ref \<Rightarrow> heap \<Rightarrow> bytes \<Rightarrow> ((string, bytes) result \<times> heap) option" where
  "encodePair env d key value h out =
     (let v = node_at h value in
      if Kind v \<noteq> KSequence \<or> length (Content v) \<le> encodeSliceLength
      then map_option (\<lambda>r. (r, h)) (encodeYamlPiece env (pairTree (treeOf d h key) (treeOf d h value)) None out)
      else (case encodeYamlPiece env (treeOf d h key) (Some ('':'' @ newline)) out of
              None \<Rightarrow> None
            | Some (Inl e) \<Rightarrow> Some (Inl e, h)
            | Some (Inr out) \<Rightarrow> encodeSlices env d value (sliceStarts (length (Content v))) h out))"

fun encodePairs ::
  "writeEnv \<Rightarrow> nat \<Rightarrow> ref \<Rightarrow> nat list \<Rightarrow> heap \<Rightarrow> bytes \<Rightarrow> ((string, bytes) result \<times> heap) option" where
  "encodePairs env d mapping [] h out = Some (Inr out, h)"
| "encodePairs env d mapping (i # is) h out =
     (let c = Content (node_at h mapping)
      in case encodePair env d (c ! i) (c ! Suc i) (setChild h mapping (Suc i) 0) out of
           None \<Rightarrow> None
         | Some (Inl e, h) \<Rightarrow> Some (Inl e, h)
         | Some (Inr out, h) \<Rightarrow> encodePairs env d mapping is h out)"

definition encodeConfigMapping ::
  "writeEnv \<Rightarrow> nat \<Rightarrow> heap \<Rightarrow> ref \<Rightarrow> ((string, bytes) result \<times> heap) option" where
  "encodeConfigMapping env d h mapping =
     encodePairs env d mapping
       (map (\<lambda>j. 2 * j) [0..<length (Content (node_at h mapping)) div 2]) h []"

subsection \<open>Files\<close>

definition writeDocumentFile ::
  "nat \<Rightarrow> writeEnv \<Rightarrow> string \<Rightarrow> string \<Rightarrow> heap \<Rightarrow> ref \<Rightarrow> files \<Rightarrow> ((string, string) result \<times> files) option" where
  "writeDocumentFile n env dir pattern h document fs =
     (case inlineAliases n h document of
        None \<Rightarrow> None
      | Some h \<Rightarrow>
          (case createTemp env dir pattern of
             Inl e \<Rightarrow> Some (Inl e, fs)
           | Inr name \<Rightarrow>
               (case encodeConfigMapping env n h (hd (Content (node_at h document))) of
                  None \<Rightarrow> None
                | Some (encoded, _) \<Rightarrow>
                    (let data = (case encoded of Inl _ \<Rightarrow> [] | Inr out \<Rightarrow> out);
                         errors = List.map_filter id
                           [case encoded of Inl e \<Rightarrow> Some e | Inr _ \<Rightarrow> None, flushError env data,
                            closeError env, chmodError env]
                     in if errors \<noteq> [] then Some (Inl (str_join newline errors), fs(name := None))
                        else Some (Inr name, fs(name \<mapsto> data))))))"

definition writeConfigDocument ::
  "nat \<Rightarrow> writeEnv \<Rightarrow> string \<Rightarrow> string \<Rightarrow> heap \<Rightarrow> ref \<Rightarrow> files \<Rightarrow> (string option \<times> files) option" where
  "writeConfigDocument n env dir path h document fs =
     (case writeDocumentFile n env dir ''.config-*.yaml'' h document fs of
        None \<Rightarrow> None
      | Some (Inl e, fs) \<Rightarrow> Some (Some e, fs)
      | Some (Inr temporary, fs) \<Rightarrow>
          (case renameError env of
             Some e \<Rightarrow> Some (Some e, fs(temporary := None))
           | None \<Rightarrow> Some (None, (fs(temporary := None))(path := fs temporary))))"

end
