(* ===== verification/ProfileInline.thy ===== *)
theory ProfileInline
  imports ProfileWrite
begin

text \<open>Writing the aliases of a document out in full keeps what every node stands for.\<close>

subsection \<open>One step of the walk\<close>

definition same_meaning :: "heap \<Rightarrow> heap \<Rightarrow> bool" where
  "same_meaning h g \<longleftrightarrow> same_links h g \<and>
     (\<forall>r. length (Content (node_at g r)) = length (Content (node_at h r))) \<and>
     (\<forall>d r. treeOf d g r = treeOf d h r)"

lemma same_meaning_refl: "same_meaning h h"
  by (simp add: same_meaning_def same_links_def)

lemma same_meaning_trans: "same_meaning h g \<Longrightarrow> same_meaning g k \<Longrightarrow> same_meaning h k"
  by (simp add: same_meaning_def same_links_def)

lemma same_meaningI:
  assumes links: "same_links h g"
    and parts: "\<And>r. Tag (node_at g r) = Tag (node_at h r) \<and> Style (node_at g r) = Style (node_at h r) \<and>
      Value (node_at g r) = Value (node_at h r) \<and> length (Content (node_at g r)) = length (Content (node_at h r))"
    and children: "\<And>r i. i < length (Content (node_at h r)) \<Longrightarrow>
      resolveAlias h (Content (node_at g r) ! i) = resolveAlias h (Content (node_at h r) ! i)"
  shows "same_meaning h g"
proof -
  have "\<forall>r. treeOf d g r = treeOf d h r" for d
  proof (induction d)
    case 0
    then show ?case by simp
  next
    case (Suc d)
    have child: "treeOf d h p = treeOf d h q" if "resolveAlias h p = resolveAlias h q" for p q
      using that by (cases d) simp_all
    have "map (treeOf d g) (Content (node_at g s)) = map (treeOf d h) (Content (node_at h s))" for s
      using Suc parts [of s] child [OF children [of _ s]] by (intro nth_equalityI) auto
    moreover have "Kind (node_at g s) = Kind (node_at h s)" for s
      using links by (simp add: same_links_def)
    ultimately show ?case
      using resolve_same_links [OF links] parts by (simp add: Let_def split: option.split)
  qed
  then show ?thesis using links parts by (simp add: same_meaning_def)
qed

lemma node_at_setChild:
  "node_at (setChild h r i q) s =
     (if s = r \<and> 0 < r \<and> r \<le> length h then (node_at h r)\<lparr>Content := (Content (node_at h r))[i := q]\<rparr> else node_at h s)"
  by (simp add: setChild_def setContent_def node_at_set)

lemma node_at_clearAnchor:
  "node_at (clearAnchor h r) s = (if s = r \<and> 0 < r \<and> r \<le> length h then (node_at h r)\<lparr>Anchor := []\<rparr> else node_at h s)"
  by (simp add: clearAnchor_def node_at_set)

lemma setChild_meaning:
  assumes "resolveAlias h (Content (node_at h r) ! i) = Some c"
  shows "same_meaning h (setChild h r i c)"
proof (rule same_meaningI)
  show "same_links h (setChild h r i c)" by (simp add: same_links_def node_at_setChild)
  fix s j
  assume "j < length (Content (node_at h s))"
  then show "resolveAlias h (Content (node_at (setChild h r i c) s) ! j) = resolveAlias h (Content (node_at h s) ! j)"
    using assms resolve_resolved [OF assms] by (cases "j = i") (auto simp: node_at_setChild)
qed (auto simp: node_at_setChild)

lemma clearAnchor_meaning: "same_meaning h (clearAnchor h r)"
  by (rule same_meaningI) (auto simp: same_links_def node_at_clearAnchor)

subsection \<open>Nodes without an alias below them\<close>

definition clean :: "heap \<Rightarrow> ref \<Rightarrow> bool" where
  "clean h r \<longleftrightarrow> Anchor (node_at h r) = [] \<and> (\<forall>c\<in>set (Content (node_at h r)). Kind (node_at h c) \<noteq> KAlias)"

definition deep :: "heap \<Rightarrow> ref \<Rightarrow> bool" where
  "deep h r \<longleftrightarrow> (\<forall>s. below h r s \<longrightarrow> clean h s)"

definition named :: "heap \<Rightarrow> bool" where
  "named h \<longleftrightarrow> (\<forall>r. Kind (node_at h r) = KAlias \<longrightarrow> Alias (node_at h r) \<noteq> 0)"

lemma deepI:
  assumes "clean h r" and "\<And>c. c \<in> set (Content (node_at h r)) \<Longrightarrow> deep h c"
  shows "deep h r"
  using assms unfolding deep_def by (auto elim: belowE)

lemma deep_clean: "deep h r \<Longrightarrow> clean h r"
  by (simp add: deep_def below_refl)

lemma deep_child: "deep h r \<Longrightarrow> c \<in> set (Content (node_at h r)) \<Longrightarrow> deep h c"
  unfolding deep_def by (meson below_child)

text \<open>A change of a node that leaves it alone when it is clean keeps every deep node deep.\<close>

lemma deep_keeps:
  assumes "deep h q" and kinds: "\<And>s. Kind (node_at g s) = Kind (node_at h s)"
    and others: "\<And>s. clean h s \<Longrightarrow> node_at g s = node_at h s"
  shows "deep g q"
proof -
  have "below g q s \<Longrightarrow> deep h q \<Longrightarrow> clean g s" for s
  proof (induction rule: below.induct)
    case (below_refl r)
    then show ?case using others [OF deep_clean] deep_clean [of h r] by (simp add: clean_def kinds)
  next
    case (below_child p r s)
    then have "p \<in> set (Content (node_at h r))" using others [OF deep_clean [OF below_child(4)]] by simp
    then show ?case using below_child deep_child by blast
  qed
  then show ?thesis using assms(1) by (simp add: deep_def)
qed

lemma clean_setChild:
  assumes "clean h s" and "resolveAlias h (Content (node_at h r) ! i) = Some c" and "i < length (Content (node_at h r))"
  shows "node_at (setChild h r i c) s = node_at h s"
proof (cases "s = r")
  case True
  then have "Kind (node_at h (Content (node_at h r) ! i)) \<noteq> KAlias"
    using assms by (auto simp: clean_def)
  then have "c = Content (node_at h r) ! i" using assms(2) resolve_here by fastforce
  then show ?thesis by (simp add: node_at_setChild)
next
  case False
  then show ?thesis by (simp add: node_at_setChild)
qed

lemma deep_setChild:
  assumes "deep h q" and "resolveAlias h (Content (node_at h r) ! i) = Some c" and "i < length (Content (node_at h r))"
  shows "deep (setChild h r i c) q"
  by (rule deep_keeps [OF assms(1)]) (simp add: node_at_setChild, rule clean_setChild [OF _ assms(2,3)])

lemma deep_clearAnchor: "deep h q \<Longrightarrow> deep (clearAnchor h r) q"
  by (rule deep_keeps) (auto simp: node_at_clearAnchor clean_def)

subsection \<open>The walk\<close>

definition walked ::
  "(ref \<Rightarrow> nat) \<Rightarrow> nat \<Rightarrow> heap \<times> ref list \<Rightarrow> heap \<times> ref list \<Rightarrow> bool" where
  "walked rk k s t \<longleftrightarrow> (case (s, t) of ((h, vis), (g, vis')) \<Rightarrow>
     same_meaning h g \<and> ranked g rk \<and> named g \<and> (\<forall>q. k < rk q \<longrightarrow> node_at g q = node_at h q) \<and>
     (\<forall>q. deep h q \<longrightarrow> deep g q) \<and> (\<forall>v\<in>set vis'. v \<in> set vis \<or> deep g v))"

lemma walkedI:
  "same_meaning h g \<Longrightarrow> ranked g rk \<Longrightarrow> named g \<Longrightarrow> (\<And>q. k < rk q \<Longrightarrow> node_at g q = node_at h q) \<Longrightarrow>
   (\<And>q. deep h q \<Longrightarrow> deep g q) \<Longrightarrow> (\<And>v. v \<in> set vis' \<Longrightarrow> v \<in> set vis \<or> deep g v) \<Longrightarrow>
   walked rk k (h, vis) (g, vis')"
  by (simp add: walked_def)

lemma walkedD:
  assumes "walked rk k (h, vis) (g, vis')"
  shows "same_meaning h g" "ranked g rk" "named g" "\<And>q. k < rk q \<Longrightarrow> node_at g q = node_at h q"
    "\<And>q. deep h q \<Longrightarrow> deep g q" "\<And>v. v \<in> set vis' \<Longrightarrow> v \<in> set vis \<or> deep g v"
  using assms by (auto simp: walked_def)

lemma walked_trans:
  assumes "walked rk k s t" and "walked rk k' t u" and "k' \<le> k" 
  shows "walked rk k s u"
proof -
  obtain h vis g vis' f vis'' where e: "s = (h, vis)" "t = (g, vis')" "u = (f, vis'')"
    by (metis surj_pair)
  note a = walkedD [OF assms(1) [unfolded e]] and b = walkedD [OF assms(2) [unfolded e]]
  show ?thesis unfolding e
    using a b same_meaning_trans [OF a(1) b(1)] assms(3) by (intro walkedI) (auto, metis le_less_trans)
qed

text \<open>What is asked of the state before a node is walked: the visited nodes not above it are done.\<close>

definition ready :: "(ref \<Rightarrow> nat) \<Rightarrow> ref \<Rightarrow> heap \<times> ref list \<Rightarrow> bool" where
  "ready rk r s \<longleftrightarrow> ranked (fst s) rk \<and> named (fst s) \<and> (\<forall>v\<in>set (snd s). rk v \<le> rk r \<longrightarrow> deep (fst s) v)"

lemma named_setChild: "named h \<Longrightarrow> named (setChild h r i c)"
  by (simp add: named_def node_at_setChild)

lemma ranked_setChild:
  assumes "ranked h rk" and "rk c < rk r"
  shows "ranked (setChild h r i c) rk"
  unfolding setChild_def
proof (rule ranked_setContent [OF assms(1)])
  fix q
  assume "q \<in> set ((Content (node_at h r))[i := c])"
  then have "q = c \<or> q \<in> set (Content (node_at h r))"
    using set_update_subset_insert by fastforce
  then show "rk q < rk r" using assms(2) ranked_child [OF assms(1)] by auto
qed

lemma step_child:
  assumes rk: "ranked h rk" "named h" and i: "i < length (Content (node_at h r))"
  obtains c where "resolveAlias h (Content (node_at h r) ! i) = Some c" and "rk c < rk r"
    and "Kind (node_at h c) \<noteq> KAlias" and "walked rk (rk r) (h, vis) (setChild h r i c, vis)"
proof -
  let ?q = "Content (node_at h r) ! i"
  have q: "rk ?q < rk r" using i by (intro ranked_child [OF rk(1)]) simp
  obtain c where c: "resolveAlias h ?q = Some c" "rk c \<le> rk ?q"
    using ranked_resolves [OF rk(1)] by blast
  have "ranked (setChild h r i c) rk"
    using c(2) q by (intro ranked_setChild [OF rk(1)]) simp
  then have "walked rk (rk r) (h, vis) (setChild h r i c, vis)"
    using setChild_meaning [OF c(1)] named_setChild [OF rk(2)] deep_setChild [OF _ c(1) i]
    by (intro walkedI) (auto simp: node_at_setChild)
  moreover have "Kind (node_at h c) \<noteq> KAlias"
    using resolve_end [OF c(1)] rk(2) by (auto simp: named_def)
  ultimately show ?thesis using that c q by simp
qed

lemma walked_kind: "walked rk k (h, vis) (g, vis') \<Longrightarrow> Kind (node_at g q) = Kind (node_at h q)"
  using walkedD(1) [of rk k h vis g vis'] by (simp add: same_meaning_def same_links_def)

lemma walkChildren_done:
  assumes f: "\<And>s q. rk q < rk r \<Longrightarrow> ready rk q s \<Longrightarrow> \<exists>t. f s q = Some t \<and> walked rk (rk q) s t \<and> deep (fst t) q"
    and "ranked h rk" and "named h" and "\<forall>v\<in>set vis. rk v < rk r \<longrightarrow> deep h v"
    and "js = [i..<length (Content (node_at h r))]"
    and "\<forall>j<i. deep h (Content (node_at h r) ! j) \<and> Kind (node_at h (Content (node_at h r) ! j)) \<noteq> KAlias"
  shows "\<exists>g vis'. walkChildren f r js (h, vis) = Some (g, vis') \<and> walked rk (rk r) (h, vis) (g, vis') \<and>
    Anchor (node_at g r) = Anchor (node_at h r) \<and>
    (\<forall>c\<in>set (Content (node_at g r)). deep g c \<and> Kind (node_at g c) \<noteq> KAlias)"
  using assms(2-)
proof (induction js arbitrary: h vis i)
  case Nil
  have "walked rk (rk r) (h, vis) (h, vis)"
    using Nil by (intro walkedI) (simp_all add: same_meaning_refl)
  moreover have "length (Content (node_at h r)) \<le> i"
    using Nil(4) [symmetric] by (cases "i = 0") (auto simp: upt_eq_Nil_conv)
  then have "\<forall>c\<in>set (Content (node_at h r)). deep h c \<and> Kind (node_at h c) \<noteq> KAlias"
    using Nil(5) by (auto simp: in_set_conv_nth)
  ultimately show ?case by simp
next
  case (Cons i' js)
  let ?m = "length (Content (node_at h r))"
  have "[i..<?m] = i' # js" using Cons(5) by (rule sym)
  then have upt: "i < ?m \<and> i = i' \<and> [Suc i..<?m] = js"
    unfolding upt_eq_Cons_conv Suc_eq_plus1 .
  note i = upt [THEN conjunct2, THEN conjunct1, symmetric] upt [THEN conjunct1]
    upt [THEN conjunct2, THEN conjunct2, symmetric]
  obtain c where c: "resolveAlias h (Content (node_at h r) ! i) = Some c" "rk c < rk r"
      "Kind (node_at h c) \<noteq> KAlias" "walked rk (rk r) (h, vis) (setChild h r i c, vis)"
    by (rule step_child [OF Cons(2,3) i(2)])
  define h1 where "h1 = setChild h r i c"
  note w1 = c(4) [folded h1_def]
  note h1 = walkedD [OF w1]
  have "0 < r \<and> r \<le> length h" using i(2) by (auto simp: node_at_def split: if_splits)
  then have r1: "node_at h1 r = (node_at h r)\<lparr>Content := (Content (node_at h r))[i := c]\<rparr>"
    by (simp add: h1_def node_at_setChild)
  have done_before: "\<forall>v\<in>set vis. rk v < rk r \<longrightarrow> deep h1 v"
    using Cons(4) h1(5) by blast
  then have "ready rk c (h1, vis)"
    using h1(2,3) c(2) by (auto simp: ready_def)
  then obtain g vis1 where g: "f (h1, vis) c = Some (g, vis1)" "walked rk (rk c) (h1, vis) (g, vis1)" "deep g c"
    using f [OF c(2)] by (metis fst_conv surj_pair)
  note w2 = walkedD [OF g(2)]
  have rg: "node_at g r = node_at h1 r" using w2(4) c(2) by simp
  have "\<forall>v\<in>set vis1. rk v < rk r \<longrightarrow> deep g v"
    using w2(5,6) done_before by blast
  moreover have "js = [Suc i..<length (Content (node_at g r))]" by (simp add: rg r1 i(3))
  moreover have "\<forall>j<Suc i. deep g (Content (node_at g r) ! j) \<and> Kind (node_at g (Content (node_at g r) ! j)) \<noteq> KAlias"
  proof (intro allI impI)
    fix j
    assume "j < Suc i"
    have kinds: "Kind (node_at g q) = Kind (node_at h q)" for q
      using walked_kind [OF g(2)] walked_kind [OF w1] by simp
    show "deep g (Content (node_at g r) ! j) \<and> Kind (node_at g (Content (node_at g r) ! j)) \<noteq> KAlias"
    proof (cases "j = i")
      case True
      then show ?thesis using g(3) c(3) i(2) by (simp add: rg r1 kinds)
    next
      case False
      then show ?thesis using \<open>j < Suc i\<close> Cons(6) h1(5) w2(5) by (simp add: rg r1 kinds)
    qed
  qed
  ultimately obtain g' vis' where fin: "walkChildren f r js (g, vis1) = Some (g', vis')"
      "walked rk (rk r) (g, vis1) (g', vis')" "Anchor (node_at g' r) = Anchor (node_at g r)"
      "\<forall>c\<in>set (Content (node_at g' r)). deep g' c \<and> Kind (node_at g' c) \<noteq> KAlias"
    using Cons(1) [OF w2(2,3), of vis1 "Suc i"] by blast
  have "walked rk (rk r) (h, vis) (g', vis')"
    using walked_trans [OF walked_trans [OF w1 g(2)] fin(2)] c(2) by simp
  moreover have "walkChildren f r (i' # js) (h, vis) = Some (g', vis')"
    using c(1) g(1) fin(1) i(1) by (simp add: h1_def)
  moreover have "Anchor (node_at g' r) = Anchor (node_at h r)"
    using fin(3) by (simp add: rg r1)
  ultimately show ?case using fin(4) by blast
qed

lemma walk_done:
  assumes "rk r < n" and "ready rk r s"
  shows "\<exists>t. walk n s r = Some t \<and> walked rk (rk r) s t \<and> deep (fst t) r"
  using assms
proof (induction n arbitrary: s r)
  case 0
  then show ?case by simp
next
  case (Suc n)
  obtain h vis where s: "s = (h, vis)" by (cases s)
  have h: "ranked h rk" "named h" "\<forall>v\<in>set vis. rk v \<le> rk r \<longrightarrow> deep h v"
    using Suc(3) by (simp_all add: ready_def s)
  show ?case
  proof (cases "r \<in> set vis")
    case True
    have "walked rk (rk r) (h, vis) (h, vis)"
      using h by (intro walkedI) (simp_all add: same_meaning_refl)
    then show ?thesis using True h(3) by (simp add: s)
  next
    case False
    define h1 vis1 where "h1 = (if Anchor (node_at h r) \<noteq> [] then clearAnchor h r else h)"
      and "vis1 = (if Anchor (node_at h r) \<noteq> [] then r # vis else vis)"
    have e: "edges h1 q = edges h q" for q
      by (simp add: h1_def edges_def node_at_clearAnchor)
    have h1: "same_meaning h h1" "ranked h1 rk" "named h1" "\<And>q. deep h q \<Longrightarrow> deep h1 q"
      "Anchor (node_at h1 r) = []" "\<And>q. q \<noteq> r \<Longrightarrow> node_at h1 q = node_at h q"
      "length (Content (node_at h1 r)) = length (Content (node_at h r))"
      using h clearAnchor_meaning deep_clearAnchor
      by (auto simp: h1_def same_meaning_refl ranked_def e [unfolded h1_def] named_def node_at_clearAnchor)
        (auto simp: node_at_def)
    have before: "\<forall>v\<in>set vis1. rk v < rk r \<longrightarrow> deep h1 v"
      using h(3) h1(4) by (auto simp: vis1_def)
    have "\<exists>g vis'. walkChildren (walk n) r [0..<length (Content (node_at h1 r))] (h1, vis1) = Some (g, vis') \<and>
        walked rk (rk r) (h1, vis1) (g, vis') \<and> Anchor (node_at g r) = Anchor (node_at h1 r) \<and>
        (\<forall>c\<in>set (Content (node_at g r)). deep g c \<and> Kind (node_at g c) \<noteq> KAlias)"
    proof (rule walkChildren_done [OF _ h1(2,3) before refl])
      fix s q
      assume "rk q < rk r" "ready rk q s"
      then show "\<exists>t. walk n s q = Some t \<and> walked rk (rk q) s t \<and> deep (fst t) q"
        using Suc(2) by (intro Suc(1)) simp_all
    qed simp
    then obtain g vis' where g: "walkChildren (walk n) r [0..<length (Content (node_at h1 r))] (h1, vis1) = Some (g, vis')"
        "walked rk (rk r) (h1, vis1) (g, vis')" "Anchor (node_at g r) = Anchor (node_at h1 r)"
        "\<forall>c\<in>set (Content (node_at g r)). deep g c \<and> Kind (node_at g c) \<noteq> KAlias"
      by (elim exE conjE)
    note w = walkedD [OF g(2)]
    have deep: "deep g r"
    proof (rule deepI)
      show "clean g r" unfolding clean_def g(3) h1(5) using g(4) by blast
    next
      fix c
      assume "c \<in> set (Content (node_at g r))"
      then show "deep g c" using g(4) by blast
    qed
    have "walked rk (rk r) (h, vis) (g, vis')"
    proof (rule walkedI [OF same_meaning_trans [OF h1(1) w(1)] w(2,3)])
      fix q
      assume "rk r < rk q"
      then show "node_at g q = node_at h q" using w(4) [of q] h1(6) [of q] by auto
    next
      fix q
      assume "deep h q"
      then show "deep g q" by (rule w(5) [OF h1(4)])
    next
      fix v
      assume "v \<in> set vis'"
      then have "v \<in> set vis1 \<or> deep g v" by (rule w(6))
      then show "v \<in> set vis \<or> deep g v" using deep by (auto simp: vis1_def split: if_splits)
    qed
    moreover have "walk (Suc n) s r = Some (g, vis')"
      using False g(1) by (simp add: s h1_def vis1_def Let_def split: if_splits)
    ultimately show ?thesis unfolding s using deep by (intro exI [of _ "(g, vis')"]) simp
  qed
qed

text \<open>
  \<^bold>\<open>C27.\<close> Writing the aliases of a document without a cycle out in full ends. Every node still stands for the
  same tree; and from the root down no node is an alias and none carries an anchor, so the document loads
  without the sections its anchors sat in.
\<close>

lemma aliases_written_out:
  assumes "ranked h rk" and "named h" and "rk root < n"
  shows "\<exists>g. inlineAliases n h root = Some g \<and> (\<forall>d r. treeOf d g r = treeOf d h r) \<and>
    (\<forall>s. below g root s \<longrightarrow>
       Anchor (node_at g s) = [] \<and> (\<forall>c\<in>set (Content (node_at g s)). Kind (node_at g c) \<noteq> KAlias))"
proof -
  have "ready rk root (h, [])" using assms by (simp add: ready_def)
  then obtain g vis where "walk n (h, []) root = Some (g, vis)" "walked rk (rk root) (h, []) (g, vis)" "deep g root"
    using walk_done [of rk root n "(h, [])", OF assms(3)] by auto
  then show ?thesis
    using walkedD(1) [of rk "rk root" h "[]" g vis]
    by (auto simp: inlineAliases_def same_meaning_def deep_def clean_def)
qed

lemma aliases_written_out_witness:
  "\<exists>g. inlineAliases 4 mergingHeap 1 = Some g \<and> treeOf 5 g 1 = treeOf 5 mergingHeap 1 \<and> Anchor (node_at g 1) = []"
proof -
  have "named mergingHeap"
    using list_all_nodes [of "\<lambda>n. Kind n = KAlias \<longrightarrow> Alias n \<noteq> 0" mergingHeap]
    by (simp add: named_def mergingHeap_def scalar_def)
  moreover have "mergingRank 1 < 4" by (simp add: mergingRank_def)
  ultimately show ?thesis
    using aliases_written_out [OF mergingHeap_ok(1), of 1 4] below_refl by blast
qed

end
