(* ===== verification/ProfileEncode.thy ===== *)
theory ProfileEncode
  imports ProfileInline
begin

text \<open>What the pieces of a written document say, and where two sections sharing a long list break it.\<close>

subsection \<open>Trees that the writing leaves alone\<close>

lemma agree_treeOf: "agree S h g \<Longrightarrow> r \<in> S \<Longrightarrow> treeOf d g r = treeOf d h r"
proof (induction d arbitrary: r)
  case 0
  then show ?case by simp
next
  case (Suc d)
  show ?case
  proof (cases "resolveAlias h r")
    case None
    then show ?thesis using agree_resolve [OF Suc(2,3)] by simp
  next
    case (Some s)
    have s: "s \<in> S" by (rule agree_resolved [OF Suc(2,3) Some])
    have "treeOf d g q = treeOf d h q" if "q \<in> set (Content (node_at h s))" for q
      using Suc(1) [OF Suc(2)] agree_content [OF Suc(2) s that] .
    moreover have "node_at g s = node_at h s" using Suc(2) s by (simp add: agree_def)
    ultimately show ?thesis
      using agree_resolve [OF Suc(2,3)] Some by (simp add: Let_def)
  qed
qed

lemma treeOf_unchanged:
  assumes "\<And>s. reaches h r s \<Longrightarrow> node_at g s = node_at h s"
  shows "treeOf d g r = treeOf d h r"
  by (rule agree_treeOf [of "{s. reaches h r s}"])
    (auto simp: agree_def assms intro: reaches_refl reaches_edge)

lemma treeOf_deep:
  assumes "ranked h rk" and "rk r < d"
  shows "treeOf (Suc d) h r = treeOf d h r"
  using assms(2)
proof (induction d arbitrary: r)
  case 0
  then show ?case by simp
next
  case (Suc d)
  obtain s where s: "resolveAlias h r = Some s" "rk s \<le> rk r"
    using ranked_resolves [OF assms(1)] by blast
  have "treeOf (Suc d) h q = treeOf d h q" if "q \<in> set (Content (node_at h s))" for q
    using Suc(1) [of q] ranked_child [OF assms(1) that] s(2) Suc(2) by simp
  then show ?case
    using s(1) by (subst (1 2) treeOf.simps(2)) (simp add: Let_def del: treeOf.simps)
qed

subsection \<open>Slices\<close>

lemma sliceLength_pos: "0 < encodeSliceLength"
  by (simp add: encodeSliceLength_def)

lemma sliceStarts_apart: "sorted_wrt (\<lambda>a b. a + encodeSliceLength \<le> b) (sliceStarts n)"
proof -
  have "a + k \<le> b" if ab: "a < b" "a mod k = 0" "b mod k = 0" for a b k :: nat
  proof -
    obtain i j where "a = k * i" "b = k * j" using ab(2,3) by (auto simp: mod_eq_0_iff_dvd elim!: dvdE)
    then have "i < j" using ab(1) by simp
    then have "k * (i + 1) \<le> k * j" by (intro mult_le_mono2) simp
    then show ?thesis using \<open>a = k * i\<close> \<open>b = k * j\<close> by simp
  qed
  then have "sorted_wrt (\<lambda>a b. a + encodeSliceLength \<le> b) (filter (\<lambda>i. i mod encodeSliceLength = 0) xs)"
    if "sorted_wrt (<) xs" for xs :: "nat list"
    using that sliceLength_pos by (induction xs) auto
  then show ?thesis by (simp add: sliceStarts_def)
qed

lemma sliceStarts_eq: "sliceStarts n = map (\<lambda>k. k * encodeSliceLength) [0..<(n + encodeSliceLength - 1) div encodeSliceLength]"
  (is "?l = ?r")
proof (rule sorted_distinct_set_unique)
  have K: "0 < encodeSliceLength" by (rule sliceLength_pos)
  have "k < (n + K - 1) div K \<longleftrightarrow> k * K < n" if "0 < K" for k K :: nat
  proof -
    have "k < (n + K - 1) div K \<longleftrightarrow> Suc k * K \<le> n + K - 1"
      using less_eq_div_iff_mult_less_eq [OF that, of "Suc k" "n + K - 1"] by (simp add: Suc_le_eq)
    then show ?thesis using that by auto
  qed
  note count = this [OF K]
  show "set ?l = set ?r"
  proof (rule set_eqI)
    fix i
    have "i \<in> set ?l \<longleftrightarrow> i < n \<and> i mod encodeSliceLength = 0"
      by (auto simp: sliceStarts_def)
    also have "\<dots> \<longleftrightarrow> (\<exists>k. k * encodeSliceLength < n \<and> i = k * encodeSliceLength)"
      by (metis add_0_right div_mult_mod_eq mod_mult_self2_is_0)
    also have "\<dots> \<longleftrightarrow> i \<in> set ?r"
      using count by auto
    finally show "i \<in> set ?l \<longleftrightarrow> i \<in> set ?r" .
  qed
  show "sorted ?l" by (simp add: sliceStarts_def sorted_wrt_filter)
  show "distinct ?l" by (simp add: sliceStarts_def)
  show "sorted ?r" by (simp add: sorted_map sorted_wrt_iff_nth_less mult_le_mono)
  show "distinct ?r" using K by (simp add: distinct_map inj_on_def)
qed

lemma slices_concat: "concat (map (\<lambda>i. take encodeSliceLength (drop i ts)) (sliceStarts (length ts))) = ts"
proof -
  let ?K = encodeSliceLength
  have "concat (map (\<lambda>k. take ?K (drop (k * ?K) ts)) [0..<m]) = take (m * ?K) ts" for m
    by (induction m) (simp_all add: take_add add.commute [of ?K])
  moreover have "length ts \<le> (length ts + ?K - 1) div ?K * ?K"
  proof -
    have "length ts + ?K - 1 < (length ts + ?K - 1) div ?K * ?K + ?K"
      using sliceLength_pos by (metis dividend_less_div_times mult.commute add.commute)
    then show ?thesis by simp
  qed
  ultimately show ?thesis by (simp add: sliceStarts_eq o_def)
qed

subsection \<open>The pieces\<close>

fun pieces :: "tree \<times> tree \<Rightarrow> (tree \<times> string option) list" where
  "pieces (k, Tree KSequence t s x ts) =
     (if length ts \<le> encodeSliceLength then [(pairTree k (Tree KSequence t s x ts), None)]
      else (k, Some ('':'' @ newline)) #
        map (\<lambda>i. (sliceTree (take encodeSliceLength (drop i ts)), None)) (sliceStarts (length ts)))"
| "pieces (k, v) = [(pairTree k v, None)]"

fun writePieces :: "writeEnv \<Rightarrow> (tree \<times> string option) list \<Rightarrow> bytes \<Rightarrow> (string, bytes) result option" where
  "writePieces env [] out = Some (Inr out)"
| "writePieces env ((t, s) # ps) out =
     (case encodeYamlPiece env t s out of
        None \<Rightarrow> None
      | Some (Inl e) \<Rightarrow> Some (Inl e)
      | Some (Inr out) \<Rightarrow> writePieces env ps out)"

lemma writePieces_append:
  "writePieces env (ps @ qs) out =
     (case writePieces env ps out of
        None \<Rightarrow> None
      | Some (Inl e) \<Rightarrow> Some (Inl e)
      | Some (Inr out) \<Rightarrow> writePieces env qs out)"
  by (induction env ps out rule: writePieces.induct) (auto split: option.split sum.split)

text \<open>How a reader puts the pieces together again: a list goes on as long as slices follow its key.\<close>

fun sliceItems :: "tree \<times> string option \<Rightarrow> tree list option" where
  "sliceItems (Tree KSequence t s x ts, None) = Some ts"
| "sliceItems _ = None"

function (sequential) readPieces :: "(tree \<times> string option) list \<Rightarrow> (tree \<times> tree) list" where
  "readPieces [] = []"
| "readPieces ((Tree KMapping t s x [k, v], None) # ps) = (k, v) # readPieces ps"
| "readPieces ((k, Some _) # ps) =
     (k, sliceTree (concat (map (the \<circ> sliceItems) (takeWhile (\<lambda>p. sliceItems p \<noteq> None) ps)))) #
       readPieces (dropWhile (\<lambda>p. sliceItems p \<noteq> None) ps)"
| "readPieces (p # ps) = readPieces ps"
  by pat_completeness auto

termination by (relation "measure length") (simp_all add: le_imp_less_Suc length_dropWhile_le)

fun asWritten :: "tree \<times> tree \<Rightarrow> tree \<times> tree" where
  "asWritten (k, Tree KSequence t s x ts) =
     (k, if length ts \<le> encodeSliceLength then Tree KSequence t s x ts else sliceTree ts)"
| "asWritten kv = kv"

lemma readPieces_slices:
  assumes "readPieces ps = r" and "ps = [] \<or> sliceItems (hd ps) = None"
  shows "readPieces ((k, Some x) # map (\<lambda>ts. (sliceTree ts, None)) tss @ ps) = (k, sliceTree (concat tss)) # r"
proof -
  have s: "sliceItems (sliceTree ts, None) = Some ts" for ts by (simp add: sliceTree_def)
  have "takeWhile (\<lambda>p. sliceItems p \<noteq> None) (map (\<lambda>ts. (sliceTree ts, None)) tss @ ps) =
      map (\<lambda>ts. (sliceTree ts, None)) tss"
    using assms(2) by (cases ps) (auto simp: s takeWhile_append)
  moreover have "dropWhile (\<lambda>p. sliceItems p \<noteq> None) (map (\<lambda>ts. (sliceTree ts, None)) tss @ ps) = ps"
    using assms(2) by (cases ps) (auto simp: s dropWhile_append)
  ultimately show ?thesis
    using assms(1) by (simp add: s o_def)
qed

lemma pieces_head: "sliceItems (hd (pieces kv)) = None \<and> pieces kv \<noteq> []"
  by (cases kv rule: pieces.cases) (auto simp: pairTree_def split: if_splits)

lemma pieces_read: "readPieces (concat (map pieces kvs)) = map asWritten kvs"
proof (induction kvs)
  case Nil
  then show ?case by simp
next
  case (Cons kv kvs)
  let ?ps = "concat (map pieces kvs)"
  have head: "?ps = [] \<or> sliceItems (hd ?ps) = None"
    using pieces_head by (cases kvs) (auto simp: hd_append)
  show ?case
  proof (cases "\<exists>k t s x ts. kv = (k, Tree KSequence t s x ts) \<and> encodeSliceLength < length ts")
    case True
    then obtain k t s x ts where kv: "kv = (k, Tree KSequence t s x ts)" "encodeSliceLength < length ts" by blast
    let ?tss = "map (\<lambda>i. take encodeSliceLength (drop i ts)) (sliceStarts (length ts))"
    have eq: "pieces kv @ ?ps = (k, Some ('':'' @ newline)) # map (\<lambda>ts. (sliceTree ts, None)) ?tss @ ?ps"
      using kv by (simp add: o_def)
    have "readPieces (pieces kv @ ?ps) = (k, sliceTree ts) # map asWritten kvs"
      unfolding eq readPieces_slices [OF Cons head] by (simp only: slices_concat)
    then show ?thesis using kv by (simp del: pieces.simps)
  next
    case False
    then have "pieces kv = [(pairTree (fst kv) (snd kv), None)]" "asWritten kv = kv"
      by (cases kv rule: pieces.cases; auto)+
    then show ?thesis using Cons by (simp add: pairTree_def)
  qed
qed

lemma pieces_bounded:
  "(Tree KSequence t s x ts, None) \<in> set (pieces kv) \<Longrightarrow> length ts \<le> encodeSliceLength"
  by (cases kv rule: pieces.cases) (auto simp: pairTree_def sliceTree_def split: if_splits)

subsection \<open>The writing of one mapping\<close>

text \<open>Content below a position may have been cleared; the rest stands.\<close>

definition upper_same :: "nat \<Rightarrow> ref list \<Rightarrow> ref list \<Rightarrow> bool" where
  "upper_same i c c' \<longleftrightarrow> length c' = length c \<and> (\<forall>j. i \<le> j \<longrightarrow> j < length c \<longrightarrow> c' ! j = c ! j)"

lemma upper_same_drop: "upper_same i c c' \<Longrightarrow> i \<le> j \<Longrightarrow> drop j c' = drop j c"
  by (intro nth_equalityI) (auto simp: upper_same_def)

lemma clearItems_facts:
  assumes "0 < r \<and> r \<le> length g" and "a \<le> b" and "b \<le> length (Content (node_at g r))"
  shows "s \<noteq> r \<Longrightarrow> node_at (clearItems g r a b) s = node_at g s"
    and "upper_same b (Content (node_at g r)) (Content (node_at (clearItems g r a b) r))"
    and "length (clearItems g r a b) = length g"
  using assms by (auto simp: clearItems_def Let_def setContent_def node_at_set upper_same_def nth_append)

lemma upper_same_trans: "upper_same i c c' \<Longrightarrow> upper_same j c' c'' \<Longrightarrow> i \<le> j \<Longrightarrow> upper_same j c c''"
  by (simp add: upper_same_def)

lemma encodeSlices_pieces:
  assumes v: "0 < v \<and> v \<le> length h" and c: "c = Content (node_at h v)" and apart: "\<And>q. q \<in> set c \<Longrightarrow> \<not> reaches h q v"
    and g: "length g = length h" "\<And>s. s \<noteq> v \<Longrightarrow> node_at g s = node_at h s"
      "upper_same i c (Content (node_at g v))"
    and starts: "sorted_wrt (\<lambda>a b. a + encodeSliceLength \<le> b) starts" "\<And>j. j \<in> set starts \<Longrightarrow> i \<le> j \<and> j < length c"
  shows "map_option fst (encodeSlices env d v starts g out) =
      writePieces env (map (\<lambda>j. (sliceTree (take encodeSliceLength (drop j (map (treeOf d h) c))), None)) starts) out"
    and "encodeSlices env d v starts g out = Some (Inr out', g') \<Longrightarrow>
      length g' = length h \<and> (\<forall>s. s \<noteq> v \<longrightarrow> node_at g' s = node_at h s)"
proof -
  have "map_option fst (encodeSlices env d v starts g out) =
      writePieces env (map (\<lambda>j. (sliceTree (take encodeSliceLength (drop j (map (treeOf d h) c))), None)) starts) out \<and>
    (encodeSlices env d v starts g out = Some (Inr out', g') \<longrightarrow>
      length g' = length h \<and> (\<forall>s. s \<noteq> v \<longrightarrow> node_at g' s = node_at h s))"
    using g starts
  proof (induction starts arbitrary: g out i)
    case Nil
    then show ?case by auto
  next
    case (Cons j starts)
    let ?c = "Content (node_at g v)" and ?K = encodeSliceLength
    let ?stop = "min (j + ?K) (length ?c)"
    have len: "length ?c = length c" using Cons(4) by (simp add: upper_same_def)
    have j: "i \<le> j" "j < length c" using Cons(6) by auto
    have items: "take (?stop - j) (drop j ?c) = take ?K (drop j c)"
      using upper_same_drop [OF Cons(4) j(1)] len by (cases "j + ?K \<le> length c") (auto simp: min_def)
    have "treeOf d g q = treeOf d h q" if "q \<in> set (take ?K (drop j c))" for q
    proof (rule treeOf_unchanged)
      fix s
      assume "reaches h q s"
      moreover have "q \<in> set c" using that by (meson in_set_dropD in_set_takeD)
      ultimately have "s \<noteq> v" using apart by blast
      then show "node_at g s = node_at h s" by (rule Cons(3))
    qed
    then have tree: "map (treeOf d g) (take (?stop - j) (drop j ?c)) = take ?K (drop j (map (treeOf d h) c))"
      unfolding items by (simp add: take_map drop_map)
    define g1 where "g1 = clearItems g v j ?stop"
    have valid: "0 < v \<and> v \<le> length g" "j \<le> ?stop" "?stop \<le> length ?c"
      using v Cons(2) j len by auto
    note facts = clearItems_facts [OF valid, folded g1_def]
    have upper: "upper_same ?stop c (Content (node_at g1 v))"
      using upper_same_trans [OF Cons(4) facts(2)] j(1) valid(2) by simp
    have later: "?stop \<le> k \<and> k < length c" if "k \<in> set starts" for k
      using that Cons(5,6) by auto
    note IH = Cons(1) [of g1 ?stop, OF _ _ upper _ later]
    have IH': "map_option fst (encodeSlices env d v starts g1 out) =
      writePieces env (map (\<lambda>j. (sliceTree (take encodeSliceLength (drop j (map (treeOf d h) c))), None)) starts) out \<and>
      (encodeSlices env d v starts g1 out = Some (Inr out', g') \<longrightarrow>
      length g' = length h \<and> (\<forall>s. s \<noteq> v \<longrightarrow> node_at g' s = node_at h s))" for out
      using Cons(2,3,5) facts(1,3) by (intro IH) auto
    show ?case
      using IH' by (simp add: Let_def tree g1_def [symmetric] split: option.split sum.split)
  qed
  then show "map_option fst (encodeSlices env d v starts g out) =
      writePieces env (map (\<lambda>j. (sliceTree (take encodeSliceLength (drop j (map (treeOf d h) c))), None)) starts) out"
    and "encodeSlices env d v starts g out = Some (Inr out', g') \<Longrightarrow>
      length g' = length h \<and> (\<forall>s. s \<noteq> v \<longrightarrow> node_at g' s = node_at h s)"
    by blast+
qed

lemma reaches_agree:
  assumes "agree {s. reaches h p s} h g" and "reaches g p s"
  shows "reaches h p s"
  using assms(2,1)
proof (induction rule: reaches.induct)
  case (reaches_refl r)
  show ?case by (rule reaches.reaches_refl)
next
  case (reaches_edge r s q)
  then have "reaches h r s" by simp
  moreover from this have "edges g s = edges h s" using reaches_edge(4) by (simp add: agree_def edges_def)
  ultimately show ?case using reaches_edge(2) by (auto intro: reaches.reaches_edge)
qed

definition keyAt :: "heap \<Rightarrow> ref \<Rightarrow> nat \<Rightarrow> ref" where "keyAt h m j = Content (node_at h m) ! (2 * j)"
definition valueAt :: "heap \<Rightarrow> ref \<Rightarrow> nat \<Rightarrow> ref" where "valueAt h m j = Content (node_at h m) ! Suc (2 * j)"

definition long_at :: "heap \<Rightarrow> ref \<Rightarrow> nat \<Rightarrow> bool" where
  "long_at h m j \<longleftrightarrow> Kind (node_at h (valueAt h m j)) = KSequence \<and>
     encodeSliceLength < length (Content (node_at h (valueAt h m j)))"

text \<open>No long list of the mapping is used again by a later pair.\<close>

definition unshared :: "heap \<Rightarrow> ref \<Rightarrow> bool" where
  "unshared h m \<longleftrightarrow> (\<forall>i j. i < j \<and> j < length (Content (node_at h m)) div 2 \<and> long_at h m i \<longrightarrow>
     \<not> reaches h (keyAt h m j) (valueAt h m i) \<and> \<not> reaches h (valueAt h m j) (valueAt h m i))"

text \<open>The heap after \<open>i\<close> pairs: only the mapping and the long lists written so far have changed.\<close>

definition written :: "heap \<Rightarrow> ref \<Rightarrow> nat \<Rightarrow> heap \<Rightarrow> bool" where
  "written h m i g \<longleftrightarrow> length g = length h \<and>
     (\<forall>s. s \<noteq> m \<longrightarrow> (\<forall>j<i. long_at h m j \<longrightarrow> s \<noteq> valueAt h m j) \<longrightarrow> node_at g s = node_at h s) \<and>
     upper_same (2 * i) (Content (node_at h m)) (Content (node_at g m))"

definition pairTrees :: "nat \<Rightarrow> heap \<Rightarrow> ref \<Rightarrow> nat \<Rightarrow> tree \<times> tree" where
  "pairTrees d h m j = (treeOf d h (keyAt h m j), treeOf d h (valueAt h m j))"

text \<open>The heap before a pair is written, its link to the value cleared: what the pair reaches is as it was.\<close>

lemma cleared_pair:
  assumes rk: "ranked h rk" "rk m \<le> d" and j: "j < length (Content (node_at h m)) div 2"
    and un: "unshared h m" and w: "written h m j g" and g1_def: "g1 = setChild g m (Suc (2 * j)) 0"
  shows "\<And>p s. reaches h p s \<Longrightarrow> p = keyAt h m j \<or> p = valueAt h m j \<Longrightarrow> node_at g1 s = node_at h s"
    and "treeOf d g1 (keyAt h m j) = treeOf d h (keyAt h m j)" "treeOf d g1 (valueAt h m j) = treeOf d h (valueAt h m j)"
    and "node_at g1 (valueAt h m j) = node_at h (valueAt h m j)"
    and "upper_same (2 * Suc j) (Content (node_at h m)) (Content (node_at g1 m))" "length g1 = length h"
    and "\<And>s. s \<noteq> m \<Longrightarrow> (\<forall>i<j. long_at h m i \<longrightarrow> s \<noteq> valueAt h m i) \<Longrightarrow> node_at g1 s = node_at h s"
    and "rk (keyAt h m j) < rk m" "rk (valueAt h m j) < rk m"
proof -
  let ?c = "Content (node_at h m)" and ?k = "keyAt h m j" and ?v = "valueAt h m j"
  have in_c: "?k \<in> set ?c" "?v \<in> set ?c"
    using j by (auto simp: keyAt_def valueAt_def)
  have rank: "rk ?k < rk m" "rk ?v < rk m"
    using ranked_child [OF rk(1)] in_c by auto
  have same: "node_at g1 s = node_at h s" if "reaches h p s" "p = ?k \<or> p = ?v" for p s
  proof -
    have "rk s < rk m" using reaches_rank [OF that(1) rk(1)] rank that(2) by auto
    then have "s \<noteq> m" by auto
    moreover have "s \<noteq> valueAt h m i" if "i < j" "long_at h m i" for i
      using un that j \<open>reaches h p s\<close> \<open>p = ?k \<or> p = ?v\<close> unfolding unshared_def by blast
    ultimately show ?thesis
      using w by (simp add: written_def g1_def node_at_setChild)
  qed
  have trees: "treeOf d g1 ?k = treeOf d h ?k" "treeOf d g1 ?v = treeOf d h ?v"
    using same by (auto intro!: treeOf_unchanged)
  have node: "node_at g1 ?v = node_at h ?v" using same reaches_refl by blast
  have g1_upper: "upper_same (2 * Suc j) ?c (Content (node_at g1 m))"
    using w by (auto simp: written_def g1_def node_at_setChild upper_same_def)
  have g1_len: "length g1 = length h" using w by (simp add: g1_def setChild_def setContent_def written_def)
  have written1: "s \<noteq> m \<Longrightarrow> (\<forall>i<j. long_at h m i \<longrightarrow> s \<noteq> valueAt h m i) \<Longrightarrow> node_at g1 s = node_at h s" for s
    using w by (simp add: written_def g1_def node_at_setChild)
  show "\<And>p s. reaches h p s \<Longrightarrow> p = ?k \<or> p = ?v \<Longrightarrow> node_at g1 s = node_at h s" by (rule same)
  show "treeOf d g1 ?k = treeOf d h ?k" "treeOf d g1 ?v = treeOf d h ?v" by (rule trees)+
  show "node_at g1 ?v = node_at h ?v" by (rule node)
  show "upper_same (2 * Suc j) ?c (Content (node_at g1 m))" by (rule g1_upper)
  show "length g1 = length h" by (rule g1_len)
  show "\<And>s. s \<noteq> m \<Longrightarrow> (\<forall>i<j. long_at h m i \<longrightarrow> s \<noteq> valueAt h m i) \<Longrightarrow> node_at g1 s = node_at h s" by (rule written1)
  show "rk ?k < rk m" "rk ?v < rk m" by (rule rank)+
qed

lemma short_pair:
  assumes rk: "ranked h rk" "rk m \<le> d" and j: "j < length (Content (node_at h m)) div 2"
    and target: "Kind (node_at h (valueAt h m j)) \<noteq> KAlias" and un: "unshared h m" and w: "written h m j g" and g1_def: "g1 = setChild g m (Suc (2 * j)) 0"
    and False: "\<not> long_at h m j"
  shows "map_option fst (encodePair env d (keyAt h m j) (valueAt h m j) g1 out) = writePieces env (pieces (pairTrees d h m j)) out \<and>
    (encodePair env d (keyAt h m j) (valueAt h m j) g1 out = Some (Inr out', g') \<longrightarrow> written h m (Suc j) g')"
proof -
  let ?c = "Content (node_at h m)" and ?k = "keyAt h m j" and ?v = "valueAt h m j"
  note facts = cleared_pair [OF rk j un w g1_def]
  note same = facts(1) and trees = facts(2,3) and node = facts(4) and g1_upper = facts(5) and g1_len = facts(6)
    and written1 = facts(7) and rank = facts(8,9)
  obtain d' where d: "d = Suc d'" using rank rk(2) by (cases d) auto
  have here: "resolveAlias h ?v = Some ?v" by (rule resolve_here [OF target])
  have short: "Kind (node_at g1 ?v) \<noteq> KSequence \<or> length (Content (node_at g1 ?v)) \<le> encodeSliceLength"
    using False unfolding node by (auto simp: long_at_def)
  then have run: "encodePair env d ?k ?v g1 out =
      map_option (\<lambda>r. (r, g1)) (encodeYamlPiece env (pairTree (treeOf d h ?k) (treeOf d h ?v)) None out)"
    unfolding encodePair_def Let_def trees by (rule if_P)
  have "pieces (pairTrees d h m j) = [(pairTree (treeOf d h ?k) (treeOf d h ?v), None)]"
  proof (cases "?v = 0")
    case True
    then show ?thesis by (simp add: pairTrees_def d)
  next
    case False
    then show ?thesis
      using short here by (cases "Kind (node_at h ?v)") (simp_all add: pairTrees_def d Let_def node)
  qed
  moreover have "written h m (Suc j) g1"
    unfolding written_def using g1_len g1_upper written1 by auto
  ultimately show ?thesis
    by (auto simp: run option.map_comp o_def split: option.split sum.split)
qed

lemma long_pair:
  assumes rk: "ranked h rk" "rk m \<le> d" and j: "j < length (Content (node_at h m)) div 2"
    and target: "Kind (node_at h (valueAt h m j)) \<noteq> KAlias" and un: "unshared h m" and w: "written h m j g" and g1_def: "g1 = setChild g m (Suc (2 * j)) 0"
    and True: "long_at h m j"
  shows "map_option fst (encodePair env d (keyAt h m j) (valueAt h m j) g1 out) = writePieces env (pieces (pairTrees d h m j)) out \<and>
    (encodePair env d (keyAt h m j) (valueAt h m j) g1 out = Some (Inr out', g') \<longrightarrow> written h m (Suc j) g')"
proof -
  let ?c = "Content (node_at h m)" and ?k = "keyAt h m j" and ?v = "valueAt h m j"
  note facts = cleared_pair [OF rk j un w g1_def]
  note same = facts(1) and trees = facts(2,3) and node = facts(4) and g1_upper = facts(5) and g1_len = facts(6)
    and written1 = facts(7) and rank = facts(8,9)
  obtain d' where d: "d = Suc d'" using rank rk(2) by (cases d) auto
  have here: "resolveAlias h ?v = Some ?v" by (rule resolve_here [OF target])
  let ?cv = "Content (node_at h ?v)"
  have long: "Kind (node_at h ?v) = KSequence" "encodeSliceLength < length ?cv"
    using True by (simp_all add: long_at_def)
  then have v: "0 < ?v \<and> ?v \<le> length g1"
    unfolding g1_len by (cases "0 < ?v \<and> ?v \<le> length h") (auto simp: node_at_def)
  have deep: "treeOf d' h q = treeOf d h q" if "q \<in> set ?cv" for q
    using treeOf_deep [OF rk(1), of q d'] ranked_child [OF rk(1) that] rank(2) rk(2) d by simp
  have child: "treeOf d g1 q = treeOf d h q" if "q \<in> set ?cv" for q
  proof (rule treeOf_unchanged)
    fix s
    assume "reaches h q s"
    then have "reaches h ?v s" using reaches_trans child_reaches [OF that] by blast
    then show "node_at g1 s = node_at h s" using same by blast
  qed
  have agree: "agree {s. reaches h ?v s} h g1"
    using same by (auto simp: agree_def intro: reaches_edge)
  have apart: "\<not> reaches g1 q ?v" if "q \<in> set (Content (node_at g1 ?v))" for q
  proof
    assume r: "reaches g1 q ?v"
    have q: "q \<in> set ?cv" using that by (simp add: node)
    have "agree {s. reaches h q s} h g1"
      using same reaches_trans child_reaches [OF q] unfolding agree_def by (blast intro: reaches_edge)
    then have "reaches h q ?v" using r by (rule reaches_agree)
    then show False using reaches_rank [OF _ rk(1)] ranked_child [OF rk(1) q] by (metis not_le)
  qed
  have upper0: "upper_same 0 (Content (node_at g1 ?v)) (Content (node_at g1 ?v))"
    by (simp add: upper_same_def)
  have start: "0 \<le> i \<and> i < length (Content (node_at g1 ?v))" if "i \<in> set (sliceStarts (length ?cv))" for i
    using that by (auto simp: sliceStarts_def node)
  note sliced = encodeSlices_pieces [OF v refl apart refl refl upper0 sliceStarts_apart [of "length ?cv"] start,
      where env = env and d = d]
  let ?ps = "map (\<lambda>i. (sliceTree (take encodeSliceLength (drop i (map (treeOf d h) ?cv))), None)) (sliceStarts (length ?cv))"
  have ts: "map (treeOf d g1) (Content (node_at g1 ?v)) = map (treeOf d h) ?cv"
    using child by (simp add: node)
  have "treeOf d h ?v = Tree KSequence (Tag (node_at h ?v)) (Style (node_at h ?v)) (Value (node_at h ?v)) (map (treeOf d h) ?cv)"
  proof -
    have "map (treeOf d' h) ?cv = map (treeOf d h) ?cv" using deep by (intro map_cong refl)
    moreover have "treeOf d h ?v = Tree KSequence (Tag (node_at h ?v)) (Style (node_at h ?v)) (Value (node_at h ?v)) (map (treeOf d' h) ?cv)"
      using here v long(1) by (simp add: d Let_def)
    ultimately show ?thesis by (simp only:)
  qed
  then have pieces: "pieces (pairTrees d h m j) = (treeOf d h ?k, Some ('':'' @ newline)) # ?ps"
    using long(2) by (simp add: pairTrees_def)
  have run: "encodePair env d ?k ?v g1 out =
      (case encodeYamlPiece env (treeOf d h ?k) (Some ('':'' @ newline)) out of
         None \<Rightarrow> None
       | Some (Inl e) \<Rightarrow> Some (Inl e, g1)
       | Some (Inr out) \<Rightarrow> encodeSlices env d ?v (sliceStarts (length ?cv)) g1 out)"
    using long by (simp add: encodePair_def Let_def trees node)
  have "written h m (Suc j) g'" if "encodeSlices env d ?v (sliceStarts (length ?cv)) g1 o1 = Some (Inr out', g')" for o1
  proof -
    have "length g' = length h \<and> (\<forall>s. s \<noteq> ?v \<longrightarrow> node_at g' s = node_at g1 s)"
      using sliced(2) [OF _ _ that] g1_len by simp
    moreover have "?v \<noteq> m" using rank(2) by auto
    ultimately show ?thesis
      using g1_upper written1 True by (auto simp: written_def less_Suc_eq)
  qed
  moreover have "map_option fst (encodeSlices env d ?v (sliceStarts (length ?cv)) g1 o1) = writePieces env ?ps o1" for o1
    using sliced(1) [unfolded ts] by blast
  ultimately show ?thesis
    unfolding run pieces by (auto split: option.split sum.split)
qed

lemma encodePair_pieces:
  assumes rk: "ranked h rk" "rk m \<le> d" and j: "j < length (Content (node_at h m)) div 2"
    and target: "Kind (node_at h (valueAt h m j)) \<noteq> KAlias" and un: "unshared h m" and w: "written h m j g"
  shows "map_option fst (encodePair env d (keyAt h m j) (valueAt h m j) (setChild g m (Suc (2 * j)) 0) out) =
      writePieces env (pieces (pairTrees d h m j)) out"
    and "encodePair env d (keyAt h m j) (valueAt h m j) (setChild g m (Suc (2 * j)) 0) out = Some (Inr out', g') \<Longrightarrow>
      written h m (Suc j) g'"
  using short_pair [OF rk j target un w refl, where env = env and out = out]
    long_pair [OF rk j target un w refl, where env = env and out = out]
  by (cases "long_at h m j"; blast)+

lemma encodePairs_pieces:
  assumes rk: "ranked h rk" "rk m \<le> d" and un: "unshared h m"
    and targets: "\<And>j. j < length (Content (node_at h m)) div 2 \<Longrightarrow> Kind (node_at h (valueAt h m j)) \<noteq> KAlias"
    and w: "written h m i g"
  shows "map_option fst (encodePairs env d m (map (\<lambda>j. 2 * j) [i..<length (Content (node_at h m)) div 2]) g out) =
    writePieces env (concat (map (\<lambda>j. pieces (pairTrees d h m j)) [i..<length (Content (node_at h m)) div 2])) out"
  using w
proof (induction "length (Content (node_at h m)) div 2 - i" arbitrary: i g out)
  case 0
  then show ?case by simp
next
  case (Suc k)
  let ?n = "length (Content (node_at h m)) div 2" and ?c = "Content (node_at g m)"
  have i: "i < ?n" using Suc(2) by simp
  have "?c ! (2 * i) = keyAt h m i" "?c ! Suc (2 * i) = valueAt h m i"
    using Suc(3) i by (auto simp: written_def upper_same_def keyAt_def valueAt_def)
  moreover note pair = encodePair_pieces [OF rk i targets [OF i] un Suc(3), of env]
  have "k = ?n - Suc i" using Suc(2) by simp
  note IH = Suc(1) [OF this]
  show ?case
    using pair(1) [of out, symmetric] pair(2) IH calculation
    by (auto simp: upt_conv_Cons [OF i] Let_def writePieces_append split: option.split sum.split)
qed

lemma pairs_of_index: "pairs_of c = map (\<lambda>j. (c ! (2 * j), c ! Suc (2 * j))) [0..<length c div 2]"
proof (induction c rule: pairs_of.induct)
  case (1 a b r)
  have "[0..<Suc (length r div 2)] = 0 # map Suc [0..<length r div 2]"
    by (simp add: map_Suc_upt upt_conv_Cons)
  with 1 show ?case by (simp add: o_def)
qed simp_all

text \<open>The pairs of a mapping as trees.\<close>

definition topTrees :: "nat \<Rightarrow> heap \<Rightarrow> ref \<Rightarrow> (tree \<times> tree) list" where
  "topTrees d h m = map (\<lambda>(k, v). (treeOf d h k, treeOf d h v)) (pairs_of (Content (node_at h m)))"

text \<open>
  \<^bold>\<open>C28.\<close> A mapping without a cycle, whose values are no aliases and whose long lists no later section uses
  again, is written as pieces that, put together again, are its pairs in order, every item of every list
  included: the pieces are those of the trees before the writing, although it drains the nodes as it goes.
  No piece holds a list of more than 4096 items at its top, whatever the mapping.
\<close>

lemma written_in_slices:
  assumes "ranked h rk" and "rk m \<le> d" and "unshared h m"
    and "\<forall>kv\<in>set (pairs_of (Content (node_at h m))). Kind (node_at h (snd kv)) \<noteq> KAlias"
  shows "map_option fst (encodeConfigMapping env d h m) = writePieces env (concat (map pieces (topTrees d h m))) [] \<and>
    readPieces (concat (map pieces (topTrees d h m))) = map asWritten (topTrees d h m) \<and>
    (\<forall>t s x ts. (Tree KSequence t s x ts, None) \<in> set (concat (map pieces (topTrees d h m))) \<longrightarrow>
       length ts \<le> encodeSliceLength)"
proof -
  let ?n = "length (Content (node_at h m)) div 2"
  have pairs: "pairs_of (Content (node_at h m)) = map (\<lambda>j. (keyAt h m j, valueAt h m j)) [0..<?n]"
    by (simp add: pairs_of_index keyAt_def valueAt_def)
  then have trees: "topTrees d h m = map (pairTrees d h m) [0..<?n]"
    by (simp add: topTrees_def pairTrees_def)
  have "written h m 0 h" by (simp add: written_def upper_same_def)
  moreover have "Kind (node_at h (valueAt h m j)) \<noteq> KAlias" if "j < ?n" for j
    using assms(4) that unfolding pairs by auto
  ultimately have "map_option fst (encodeConfigMapping env d h m) = writePieces env (concat (map pieces (topTrees d h m))) []"
    using encodePairs_pieces [OF assms(1-3), of 0 h env "[]"]
    by (simp add: encodeConfigMapping_def trees o_def)
  then show ?thesis
    using pieces_read [of "topTrees d h m"] pieces_bounded by fastforce
qed

lemma twoDocuments_short: "length (Content (node_at twoDocuments r)) \<le> encodeSliceLength"
proof -
  have "list_all (\<lambda>n. length (Content n) \<le> 4) twoDocuments"
    by (simp add: twoDocuments_def scalar_def)
  then have "\<forall>r. length (Content (node_at twoDocuments r)) \<le> 4"
    by (subst list_all_nodes [of "\<lambda>n. length (Content n) \<le> 4"]) simp_all
  then have "length (Content (node_at twoDocuments r)) \<le> 4" by blast
  then show ?thesis by (simp add: encodeSliceLength_def)
qed

fun has_nil :: "tree \<Rightarrow> bool" where
  "has_nil TNil = True"
| "has_nil (Tree k t s x ts) = list_ex has_nil ts"

text \<open>A file system without errors, and an encoder that panics on a nil child and else writes \<open>enc\<close>.\<close>

definition goodDisk :: "(tree \<Rightarrow> bytes) \<Rightarrow> writeEnv" where
  "goodDisk enc =
     \<lparr>encode = (\<lambda>t. if has_nil t then None else Some (Inr (enc t))), flushError = (\<lambda>_. None),
      createTemp = (\<lambda>d p. Inr (d @ p)), closeError = None, chmodError = None, renameError = None\<rparr>"

lemma written_in_slices_witness:
  "map_option fst (encodeConfigMapping (goodDisk (\<lambda>_. ''piece'')) 3 twoDocuments 1) =
     writePieces (goodDisk (\<lambda>_. ''piece'')) (concat (map pieces (topTrees 3 twoDocuments 1))) [] \<and>
   readPieces (concat (map pieces (topTrees 3 twoDocuments 1))) = map asWritten (topTrees 3 twoDocuments 1)"
proof -
  have "ranked twoDocuments depths" using twoDocuments_ok by (simp add: mergeable_def)
  moreover have "depths 1 \<le> 3" by (simp add: depths_def)
  moreover have "\<not> long_at twoDocuments 1 i" for i
    using twoDocuments_short by (simp add: long_at_def not_less)
  then have "unshared twoDocuments 1" by (simp add: unshared_def)
  moreover have "\<forall>kv\<in>set (pairs_of (Content (node_at twoDocuments 1))). Kind (node_at twoDocuments (snd kv)) \<noteq> KAlias"
    by (simp add: twoDocuments_def node_at_def)
  ultimately show ?thesis
    using written_in_slices [of twoDocuments depths 1 3] by blast
qed

subsection \<open>A long list that two sections share\<close>

text \<open>\<open>rules: &r [4097 rules]\<close>, and after it \<open>sub-rules: {s: *r}\<close>, with the alias already written out.\<close>

definition sharedRules :: heap where
  "sharedRules =
     [zeroNode\<lparr>Kind := KMapping, Tag := ''!!map'', Content := [2, 4, 3, 5]\<rparr>,
      scalar ''!!str'' ''rules'', scalar ''!!str'' ''sub-rules'',
      zeroNode\<lparr>Kind := KSequence, Tag := ''!!seq'', Content := replicate 4097 7\<rparr>,
      zeroNode\<lparr>Kind := KMapping, Tag := ''!!map'', Content := [6, 4]\<rparr>,
      scalar ''!!str'' ''s'', scalar ''!!str'' ''MATCH,DIRECT'']"

lemma clearItems_first:
  assumes "0 < r \<and> r \<le> length g" and "a < b" and "b \<le> length (Content (node_at g r))"
    and "a = 0 \<or> Content (node_at g r) ! 0 = 0"
  shows "Content (node_at (clearItems g r a b) r) ! 0 = 0 \<and>
    length (Content (node_at (clearItems g r a b) r)) = length (Content (node_at g r)) \<and>
    Kind (node_at (clearItems g r a b) r) = Kind (node_at g r)"
  using assms by (auto simp: clearItems_def Let_def setContent_def node_at_set nth_append)

lemma encodeSlices_first:
  assumes "encodeSlices env d v starts g out = Some (Inr out', g')" and "0 < v \<and> v \<le> length g"
    and "\<forall>j\<in>set starts. j < length (Content (node_at g v))"
    and "Content (node_at g v) ! 0 = 0 \<or> starts \<noteq> [] \<and> hd starts = 0"
  shows "Content (node_at g' v) ! 0 = 0 \<and> length (Content (node_at g' v)) = length (Content (node_at g v)) \<and>
    Kind (node_at g' v) = Kind (node_at g v) \<and> (\<forall>s. s \<noteq> v \<longrightarrow> node_at g' s = node_at g s)"
  using assms
proof (induction starts arbitrary: g out)
  case Nil
  then show ?case by simp
next
  case (Cons j starts)
  let ?stop = "min (j + encodeSliceLength) (length (Content (node_at g v)))"
  define g1 where "g1 = clearItems g v j ?stop"
  have stop: "j < ?stop" "?stop \<le> length (Content (node_at g v))"
    using Cons(4) sliceLength_pos by auto
  have first: "Content (node_at g1 v) ! 0 = 0 \<and> length (Content (node_at g1 v)) = length (Content (node_at g v)) \<and>
      Kind (node_at g1 v) = Kind (node_at g v)"
    unfolding g1_def using clearItems_first [OF Cons(3) stop] Cons(5) by auto
  have others: "length g1 = length g" "\<And>s. s \<noteq> v \<Longrightarrow> node_at g1 s = node_at g s"
    unfolding g1_def using clearItems_facts [OF Cons(3) less_imp_le [OF stop(1)] stop(2)] by auto
  obtain o1 where "encodeSlices env d v starts g1 o1 = Some (Inr out', g')"
    using Cons(2) by (auto simp: Let_def g1_def split: option.splits sum.splits)
  from Cons(1) [OF this] show ?case
    using Cons(3,4) first others by simp
qed

lemma sharedRules_nodes:
  "node_at sharedRules 1 = zeroNode\<lparr>Kind := KMapping, Tag := ''!!map'', Content := [2, 4, 3, 5]\<rparr>"
  "Kind (node_at sharedRules 4) = KSequence" "length (Content (node_at sharedRules 4)) = 4097"
  "node_at sharedRules 5 = zeroNode\<lparr>Kind := KMapping, Tag := ''!!map'', Content := [6, 4]\<rparr>"
  "length sharedRules = 7"
  by (simp_all add: sharedRules_def node_at_def)

lemma nil_in_tree:
  assumes "Kind (node_at g 5) = KMapping" and "Content (node_at g 5) = [6, 4]"
    and "Kind (node_at g 4) = KSequence" and "Content (node_at g 4) ! 0 = 0" and "0 < length (Content (node_at g 4))"
  shows "has_nil (treeOf d g 5)"
proof -
  have "resolveAlias g 4 = Some 4" "resolveAlias g 5 = Some 5"
    by (rule resolve_here; simp add: assms)+
  moreover have "0 \<in> set (Content (node_at g 4))" using assms(4,5) by (metis nth_mem)
  moreover have "treeOf k g 0 = TNil" for k by (cases k) simp_all
  ultimately have "has_nil (treeOf k g 4)" for k
    by (cases k) (auto simp: Let_def list_ex_iff intro!: bexI [of _ 0])
  then show ?thesis
    using \<open>resolveAlias g 5 = Some 5\<close> assms(1,2) by (cases d) (simp_all add: Let_def)
qed

lemma piece_no_error: "encodeYamlPiece (goodDisk enc) t x out \<noteq> Some (Inl e)"
  by (simp add: encodeYamlPiece_def goodDisk_def Let_def split: option.split)

lemma no_error: "encodePair (goodDisk enc) d k v g out \<noteq> Some (Inl e, g')"
proof -
  have "encodeSlices (goodDisk enc) d v starts g out \<noteq> Some (Inl e, g')" for starts g out
    using piece_no_error by (induction starts arbitrary: g out) (auto simp: Let_def split: option.split sum.split)
  then show ?thesis
    using piece_no_error by (auto simp: encodePair_def Let_def split: option.splits sum.splits)
qed

text \<open>The heap before the first pair is written, its link to the list cleared.\<close>

definition firstCleared :: heap where
  "firstCleared = setChild sharedRules 1 1 0"

lemma firstCleared_nodes:
  "s \<noteq> 1 \<Longrightarrow> node_at firstCleared s = node_at sharedRules s" "Content (node_at firstCleared 1) = [2, 0, 3, 5]"
  "length firstCleared = 7"
  by (simp_all add: firstCleared_def node_at_setChild setChild_def setContent_def sharedRules_nodes
      sharedRules_nodes [unfolded One_nat_def] node_at_set)

definition listCleared :: "heap \<Rightarrow> bool" where
  "listCleared g \<longleftrightarrow> Content (node_at g 4) ! 0 = 0 \<and> length (Content (node_at g 4)) = 4097 \<and>
     Kind (node_at g 4) = KSequence \<and> (\<forall>s. s \<noteq> 4 \<longrightarrow> node_at g s = node_at firstCleared s)"

lemma first_pair_clears:
  assumes "encodePair (goodDisk enc) d 2 4 firstCleared [] = Some (Inr out, g)"
  shows "listCleared g"
proof -
  have four: "node_at firstCleared 4 = node_at sharedRules 4" by (simp add: firstCleared_nodes)
  have starts: "sliceStarts 4097 = [0, 4096]"
    by (simp add: sliceStarts_eq encodeSliceLength_def upt_rec)
  obtain o1 where "encodeSlices (goodDisk enc) d 4 [0, 4096] firstCleared o1 = Some (Inr out, g)"
    using assms
    by (auto simp: encodePair_def Let_def four sharedRules_nodes starts encodeSliceLength_def
        simp del: encodeSlices.simps split: option.splits sum.splits)
  from encodeSlices_first [OF this] show ?thesis
    by (simp add: four firstCleared_nodes sharedRules_nodes listCleared_def)
qed

lemma second_pair_panics:
  assumes "listCleared g"
  shows "encodePair (goodDisk enc) d 3 5 (setChild g 1 3 0) out = None"
proof -
  let ?g = "setChild g 1 3 0"
  have g: "Content (node_at g 4) ! 0 = 0" "length (Content (node_at g 4)) = 4097" "Kind (node_at g 4) = KSequence"
    "node_at g s = node_at firstCleared s" if "s \<noteq> 4" for s
    using assms that by (simp_all add: listCleared_def)
  have "has_nil (treeOf d ?g 5)"
    using g [of 5] firstCleared_nodes(1) [of 5]
    by (intro nil_in_tree) (simp_all add: node_at_setChild sharedRules_nodes)
  then have "encodeYamlPiece (goodDisk enc) (pairTree (treeOf d ?g 3) (treeOf d ?g 5)) None out = None"
    by (simp add: encodeYamlPiece_def goodDisk_def pairTree_def)
  moreover have "Kind (node_at ?g 5) \<noteq> KSequence"
    using g(4) [of 5] firstCleared_nodes(1) [of 5] by (simp add: node_at_setChild sharedRules_nodes)
  ultimately show ?thesis by (simp add: encodePair_def Let_def)
qed


end
