(* ===== verification/ConfigLoad.thy ===== *)
theory ConfigLoad
  imports ProfileEncode Config
begin

section \<open>Loading configs (\<open>core/profile_base.go\<close>, \<open>core/short_id.go\<close>, \<open>core/quic.go\<close>, \<open>core/config.go\<close>)\<close>

text \<open>
  What the handlers of profiles and configs do with the merged document and with mihomo's raw config, of
  which the model has the fields the core reads; the rest is \<open>'r\<close>. mihomo's own parsing is \<open>configLib\<close>.
\<close>

record 'r RawConfig =
  rawProxy :: "proxyFields list"
  rawProxyGroup :: "proxyFields list"
  rawRule :: "string list"
  rawSubRules :: "(string, string list) gomap"
  rawProxyProvider :: "(string, proxyFields) gomap"
  rawRest :: 'r

record ('r, 'x) configLib =
  unmarshalRaw :: "bytes \<Rightarrow> (string, 'r RawConfig) result"         \<comment> \<open>\<open>config.UnmarshalRawConfig\<close>\<close>
  decodeRaw :: "heap \<Rightarrow> ref \<Rightarrow> (string, 'r RawConfig) result"      \<comment> \<open>\<open>Decode\<close> over the default\<close>
  parseRaw :: "'r RawConfig \<Rightarrow> (string, 'x config) result"         \<comment> \<open>\<open>config.ParseRawConfig\<close>\<close>
  sha256Hex :: "bytes \<Rightarrow> string"

definition unmarshalRawConfig ::
  "nat \<Rightarrow> yamlEnv \<Rightarrow> ('r, 'x) configLib \<Rightarrow> bytes \<Rightarrow> (string, 'r RawConfig) result option" where
  "unmarshalRawConfig n env lib buf =
     (if \<not> str_contains buf ''short-id'' then Some (unmarshalRaw lib buf)
      else (case parseYaml env buf [] of
              Inl _ \<Rightarrow> Some (unmarshalRaw lib buf)
            | Inr (document, h) \<Rightarrow>
                (case retagShortIDs n h document of
                   None \<Rightarrow> None
                 | Some (h, changed) \<Rightarrow>
                     Some (if changed then decodeRaw lib h document else unmarshalRaw lib buf))))"

definition readRawConfig ::
  "nat \<Rightarrow> yamlEnv \<Rightarrow> ('r, 'x) configLib \<Rightarrow> string \<Rightarrow> (string, 'r RawConfig) result option" where
  "readRawConfig n env lib path =
     (case readFile env path of
        Inl e \<Rightarrow> Some (Inl e)
      | Inr buf \<Rightarrow> unmarshalRawConfig n env lib buf)"

definition handleValidateConfig ::
  "nat \<Rightarrow> yamlEnv \<Rightarrow> ('r, 'x) configLib \<Rightarrow> string \<Rightarrow> string option option" where
  "handleValidateConfig n env lib path =
     map_option (\<lambda>r. case r of Inl e \<Rightarrow> Some e | Inr _ \<Rightarrow> None) (readRawConfig n env lib path)"

definition handleDecryptConfig ::
  "yamlEnv \<Rightarrow> (bytes \<Rightarrow> string \<Rightarrow> (string, bytes) result) \<Rightarrow> string \<Rightarrow> string \<Rightarrow> (string, string) result" where
  "handleDecryptConfig env decryptWith path key =
     (case readFile env path of
        Inl e \<Rightarrow> Inl e
      | Inr buf \<Rightarrow> decryptWith buf key)"

subsection \<open>Profiles\<close>

record 'r ProfileBase =
  pb_config :: "'r RawConfig"
  pb_digest :: string
  pb_matchRules :: "string list"
  pb_proxies :: nat
  pb_proxyGroups :: nat
  pb_rules :: nat

record ProfileOutbound =
  po_name :: string
  po_type :: string

definition isMatchRule :: "string \<Rightarrow> bool" where
  "isMatchRule rule = (case cut_at CHR '','' rule of (kind, _, _) \<Rightarrow> equal_fold_ascii (trim_space kind) ''MATCH'')"

definition handleGetProfileBase ::
  "nat \<Rightarrow> yamlEnv \<Rightarrow> ('r, 'x) configLib \<Rightarrow> string \<Rightarrow> (string, 'r ProfileBase) result option" where
  "handleGetProfileBase n env lib path =
     (case readFile env path of
        Inl e \<Rightarrow> Some (Inl e)
      | Inr buf \<Rightarrow>
          (case unmarshalRawConfig n env lib buf of
             None \<Rightarrow> None
           | Some (Inl e) \<Rightarrow> Some (Inl e)
           | Some (Inr raw) \<Rightarrow>
               Some (Inr \<lparr>pb_config = raw\<lparr>rawProxy := [], rawProxyGroup := [], rawRule := [], rawSubRules := []\<rparr>,
                 pb_digest = sha256Hex lib buf,
                 pb_matchRules = filter isMatchRule (rawRule raw),
                 pb_proxies = length (rawProxy raw), pb_proxyGroups = length (rawProxyGroup raw),
                 pb_rules = length (rawRule raw)\<rparr>)))"

definition stringField :: "proxyFields \<Rightarrow> string \<Rightarrow> string" where
  "stringField m key = (case map_of m key of Some (VString s) \<Rightarrow> s | _ \<Rightarrow> [])"

definition outboundsOf :: "proxyFields list \<Rightarrow> ProfileOutbound list" where
  "outboundsOf mappings =
     map (\<lambda>m. \<lparr>po_name = stringField m ''name'', po_type = stringField m ''type''\<rparr>) mappings"

definition handleGetProfileOutbounds ::
  "nat \<Rightarrow> yamlEnv \<Rightarrow> ('r, 'x) configLib \<Rightarrow> string \<Rightarrow>
     (string, ProfileOutbound list \<times> ProfileOutbound list) result option" where
  "handleGetProfileOutbounds n env lib path =
     (case readFile env path of
        Inl e \<Rightarrow> Some (Inl e)
      | Inr buf \<Rightarrow>
          (case unmarshalRawConfig n env lib buf of
             None \<Rightarrow> None
           | Some (Inl e) \<Rightarrow> Some (Inl e)
           | Some (Inr raw) \<Rightarrow> Some (Inr (outboundsOf (rawProxy raw), outboundsOf (rawProxyGroup raw)))))"

text \<open>\<open>mkdir\<close> is what \<open>makeSpilledResponseDir\<close> answers: the directory, or an error.\<close>

definition handleBuildProfile ::
  "nat \<Rightarrow> yamlEnv \<Rightarrow> writeEnv \<Rightarrow> (string, string) result \<Rightarrow> SetupBase \<Rightarrow> files \<Rightarrow>
     ((string, string) result \<times> files) option" where
  "handleBuildProfile n env wenv mkdir base fs =
     (case mergeProfileBase n env base [] of
        None \<Rightarrow> None
      | Some (Inl e, _) \<Rightarrow> Some (Inl e, fs)
      | Some (Inr document, h) \<Rightarrow>
          (case mkdir of
             Inl e \<Rightarrow> Some (Inl e, fs)
           | Inr dir \<Rightarrow> writeDocumentFile n wenv dir ''*.yaml'' h document fs))"

subsection \<open>QUIC defaults\<close>

definition hysteria2HandshakeTimeout :: string where "hysteria2HandshakeTimeout = ''10''"

definition quoted :: "string \<Rightarrow> string" where "quoted s = [CHR 0x22] @ s @ [CHR 0x22]"

definition hysteria2HandshakeTimeoutExpr :: string where
  "hysteria2HandshakeTimeoutExpr =
     ''(select(.type == '' @ quoted ''hysteria2'' @ '' and .handshake-timeout == null) | .handshake-timeout) = '' @
     hysteria2HandshakeTimeout"

definition hasAnyKey :: "proxyFields \<Rightarrow> string list \<Rightarrow> bool" where
  "hasAnyKey m keys = list_ex (\<lambda>k. map_of m k \<noteq> None) keys"

definition quicProxy :: "proxyFields \<Rightarrow> proxyFields" where
  "quicProxy m =
     (if map_of m ''type'' = Some (VString ''hysteria2'') \<and> \<not> hasAnyKey m [''handshake-timeout'', ''handshake_timeout'']
      then AList.update ''handshake-timeout'' (VNumber hysteria2HandshakeTimeout) m else m)"

definition nilOr :: "anyValue option \<Rightarrow> anyValue" where
  "nilOr v = (case v of None \<Rightarrow> VNil | Some v \<Rightarrow> v)"

definition quicProvider :: "proxyFields \<Rightarrow> proxyFields" where
  "quicProvider provider =
     (case (case nilOr (map_of provider ''override'') of VNil \<Rightarrow> Some [] | VMap m \<Rightarrow> Some m | _ \<Rightarrow> None) of
        None \<Rightarrow> provider
      | Some override \<Rightarrow>
          (case (case nilOr (map_of override ''override-expr'') of VNil \<Rightarrow> Some [] | VList vs \<Rightarrow> Some vs | _ \<Rightarrow> None) of
             None \<Rightarrow> provider
           | Some exprs \<Rightarrow>
               AList.update ''override''
                 (VMap (AList.update ''override-expr'' (VList (exprs @ [VString hysteria2HandshakeTimeoutExpr])) override))
                 provider))"

definition withQuicDefaults :: "'r RawConfig \<Rightarrow> 'r RawConfig" where
  "withQuicDefaults raw =
     raw\<lparr>rawProxy := map quicProxy (rawProxy raw),
         rawProxyProvider := map (map_prod id quicProvider) (rawProxyProvider raw)\<rparr>"

subsection \<open>Configs\<close>

definition parseWithDefaults ::
  "bool \<Rightarrow> ('r, 'x) configLib \<Rightarrow> 'r RawConfig \<Rightarrow> (string, 'x config) result" where
  "parseWithDefaults systemTimeWritable lib raw =
     (case parseRaw lib (withQuicDefaults raw) of
        Inl e \<Rightarrow> Inl e
      | Inr cfg \<Rightarrow> Inr (withPlatformLimits systemTimeWritable cfg))"

definition loadConfig :: "bool \<Rightarrow> yamlEnv \<Rightarrow> ('r, 'x) configLib \<Rightarrow> string \<Rightarrow> (string, 'x config) result" where
  "loadConfig systemTimeWritable env lib path =
     (case readFile env path of
        Inl e \<Rightarrow> Inl e
      | Inr buf \<Rightarrow>
          (case unmarshalRaw lib buf of
             Inl e \<Rightarrow> Inl e
           | Inr raw \<Rightarrow> parseWithDefaults systemTimeWritable lib raw))"

definition loadConfigWithBase ::
  "nat \<Rightarrow> bool \<Rightarrow> yamlEnv \<Rightarrow> writeEnv \<Rightarrow> ('r, 'x) configLib \<Rightarrow> SetupBase \<Rightarrow> string \<Rightarrow> string \<Rightarrow> files \<Rightarrow>
     ((string, 'x config) result \<times> files) option" where
  "loadConfigWithBase n systemTimeWritable env wenv lib base dir path fs =
     (case mergeProfileBase n env base [] of
        None \<Rightarrow> None
      | Some (Inl e, _) \<Rightarrow> Some (Inl e, fs)
      | Some (Inr document, h) \<Rightarrow>
          (case decodeRaw lib h document of
             Inl e \<Rightarrow> Some (Inl e, fs)
           | Inr raw \<Rightarrow>
               (case writeConfigDocument n wenv dir path h document fs of
                  None \<Rightarrow> None
                | Some (Some e, fs) \<Rightarrow> Some (Inl e, fs)
                | Some (None, fs) \<Rightarrow> Some (parseWithDefaults systemTimeWritable lib raw, fs))))"

definition loadSetupConfig ::
  "nat \<Rightarrow> bool \<Rightarrow> yamlEnv \<Rightarrow> writeEnv \<Rightarrow> ('r, 'x) configLib \<Rightarrow> SetupBase option \<Rightarrow> string \<Rightarrow> string \<Rightarrow> files \<Rightarrow>
     ((string, 'x config) result \<times> files) option" where
  "loadSetupConfig n systemTimeWritable env wenv lib base dir path fs =
     (case base of
        Some b \<Rightarrow> loadConfigWithBase n systemTimeWritable env wenv lib b dir path fs
      | None \<Rightarrow> Some (loadConfig systemTimeWritable env lib path, fs))"

text \<open>
  \<open>providerOf\<close> is the provider of a running proxy, if it has one; \<open>mappingAt\<close> asks a running provider for
  the mapping it built a proxy of, given the mapping that declares the provider.
\<close>

definition handleGetProxyDefinition ::
  "nat \<Rightarrow> yamlEnv \<Rightarrow> ('r, 'x) configLib \<Rightarrow> (string \<Rightarrow> string option) \<Rightarrow>
     (string \<Rightarrow> (proxyFields \<Rightarrow> string \<Rightarrow> (string, proxyFields option) result) option) \<Rightarrow> string \<Rightarrow> string \<Rightarrow>
     (string, proxyFields option) result option" where
  "handleGetProxyDefinition n env lib providerOf mappingAt path name =
     (case readRawConfig n env lib path of
        None \<Rightarrow> None
      | Some (Inl e) \<Rightarrow> Some (Inl e)
      | Some (Inr raw) \<Rightarrow>
          Some (case providerOf name of
             Some pd \<Rightarrow>
               (case (mappingAt pd, map_of (rawProxyProvider raw) pd) of
                  (Some ask, Some mapping) \<Rightarrow> ask mapping name
                | _ \<Rightarrow> Inr None)
           | None \<Rightarrow> Inr (find (\<lambda>m. map_of m ''name'' = Some (VString name)) (rawProxy raw))))"

subsection \<open>The config file is replaced whole or left alone\<close>

text \<open>The temporary file is a new one.\<close>

definition fresh_temp :: "writeEnv \<Rightarrow> string \<Rightarrow> string \<Rightarrow> files \<Rightarrow> bool" where
  "fresh_temp wenv dir path fs \<longleftrightarrow>
     (\<forall>pattern name. createTemp wenv dir pattern = Inr name \<longrightarrow> fs name = None \<and> name \<noteq> path)"

lemma map_filter_id_None: "List.map_filter id [a, b, c, d] = [] \<longleftrightarrow> a = None \<and> b = None \<and> c = None \<and> d = None"
  by (cases a; cases b; cases c; cases d) (simp_all add: map_filter_def)

lemma writeDocumentFile_outcome:
  assumes "writeDocumentFile n wenv dir pattern h document fs = Some (r, fs')"
    and "\<And>name. createTemp wenv dir pattern = Inr name \<Longrightarrow> fs name = None"
  shows "(\<exists>e. r = Inl e) \<and> fs' = fs \<or>
    (\<exists>name g data g'. r = Inr name \<and> createTemp wenv dir pattern = Inr name \<and> fs' = fs(name \<mapsto> data) \<and>
       inlineAliases n h document = Some g \<and>
       encodeConfigMapping wenv n g (hd (Content (node_at g document))) = Some (Inr data, g'))"
proof -
  obtain g where g: "inlineAliases n h document = Some g"
    using assms(1) by (auto simp: writeDocumentFile_def split: option.splits)
  show ?thesis
  proof (cases "createTemp wenv dir pattern")
    case (Inl e)
    then have "r = Inl e \<and> fs' = fs"
      using assms(1) g by (auto simp: writeDocumentFile_def)
    then show ?thesis by simp
  next
    case (Inr name)
    note fresh = assms(2) [OF Inr]
    obtain encoded g' where e: "encodeConfigMapping wenv n g (hd (Content (node_at g document))) = Some (encoded, g')"
      using assms(1) g Inr by (auto simp: writeDocumentFile_def split: option.splits)
    have "fs(name := None) = fs" using fresh by auto
    then show ?thesis
      using assms(1) g Inr e
      by (cases encoded) (auto simp: writeDocumentFile_def Let_def map_filter_id_None split: if_splits)
  qed
qed

text \<open>The writing of a merged document: it fails and leaves the files as they were, or replaces the one.\<close>

lemma writeConfigDocument_outcome:
  assumes w: "writeConfigDocument n wenv dir path h document fs = Some (w, fs1)" and "fresh_temp wenv dir path fs"
  shows "(\<exists>e. w = Some e) \<and> fs1 = fs \<or>
    (\<exists>g data g'. w = None \<and> fs1 = fs(path \<mapsto> data) \<and> inlineAliases n h document = Some g \<and>
       encodeConfigMapping wenv n g (hd (Content (node_at g document))) = Some (Inr data, g'))"
proof -
  obtain t fs2 where t: "writeDocumentFile n wenv dir ''.config-*.yaml'' h document fs = Some (t, fs2)"
    using w by (auto simp: writeConfigDocument_def split: option.splits)
  have fresh: "fs name = None" "name \<noteq> path" if "createTemp wenv dir ''.config-*.yaml'' = Inr name" for name
    using assms(2) that by (auto simp: fresh_temp_def)
  have "(\<exists>e. t = Inl e) \<and> fs2 = fs \<or>
    (\<exists>name g data g'. t = Inr name \<and> createTemp wenv dir ''.config-*.yaml'' = Inr name \<and>
       fs2 = fs(name \<mapsto> data) \<and> inlineAliases n h document = Some g \<and>
       encodeConfigMapping wenv n g (hd (Content (node_at g document))) = Some (Inr data, g'))"
    by (rule writeDocumentFile_outcome [OF t fresh(1)])
  then show ?thesis
  proof (elim disjE exE conjE)
    fix e
    assume "t = Inl e" "fs2 = fs"
    then show ?thesis using w t by (auto simp: writeConfigDocument_def)
  next
    fix name g data g'
    assume out: "t = Inr name" "createTemp wenv dir ''.config-*.yaml'' = Inr name" "fs2 = fs(name \<mapsto> data)"
      and parts: "inlineAliases n h document = Some g"
        "encodeConfigMapping wenv n g (hd (Content (node_at g document))) = Some (Inr data, g')"
    note name = fresh [OF out(2)]
    have "fs(name \<mapsto> data, name := None) = fs" using name(1) by auto
    with w t out(1,3) name(2) parts show ?thesis
      by (cases "renameError wenv") (auto simp: writeConfigDocument_def fun_upd_twist)
  qed
qed


definition emptyLib :: "(unit, unit) configLib" where
  "emptyLib = \<lparr>unmarshalRaw = (\<lambda>_. Inl ''unused''),
     decodeRaw = (\<lambda>_ _. Inr \<lparr>rawProxy = [], rawProxyGroup = [], rawRule = [], rawSubRules = [],
       rawProxyProvider = [], rawRest = ()\<rparr>),
     parseRaw = (\<lambda>_. Inl ''no proxies''), sha256Hex = id\<rparr>"


end
