(* ===== verification/RuleSets.thy ===== *)
theory RuleSets
  imports Netip Providers
begin

section \<open>Compiling a rule set (\<open>core/rule_set.go\<close>)\<close>

text \<open>
  A list of rules that the user wrote or a provider serves is compiled into mihomo's binary form when all its
  entries are domains or all are IP ranges. The parsers of addresses and of YAML and mihomo's converter are
  arguments. Paths are lists of components; the files are a map to what stands at a path, which may be a link
  that somebody planted.
\<close>

subsection \<open>Names\<close>

definition nameChar :: "char \<Rightarrow> bool" where
  "nameChar c \<longleftrightarrow> (97 \<le> code c \<and> code c \<le> 122) \<or> (65 \<le> code c \<and> code c \<le> 90) \<or>
     (48 \<le> code c \<and> code c \<le> 57) \<or> c = CHR ''.'' \<or> c = CHR ''-'' \<or> c = CHR ''_''"

definition ruleSetCachePath :: "string list \<Rightarrow> string \<Rightarrow> string list option" where
  "ruleSetCachePath homeDir name =
     (if name = [] \<or> hd name = CHR ''.'' then None
      else if list_all nameChar name then Some (homeDir @ [''providers'', ''rules'', name]) else None)"

definition withExt :: "string list \<Rightarrow> string \<Rightarrow> string list" where
  "withExt path ext = butlast path @ [last path @ ext]"

subsection \<open>Entries\<close>

datatype ruleBehavior = Domain | IPCIDR | Classical

datatype ruleFormat = YamlRule | TextRule | MrsRule

record RuleSetInfo =
  Behavior :: string
  Format :: string

datatype ruleSetError = RuleSetEmpty | RuleSetMixed | RuleSetInvalid

definition errRuleSet :: "ruleSetError \<Rightarrow> methodError" where
  "errRuleSet e =
     (case e of
        RuleSetEmpty \<Rightarrow> \<lparr>me_code = ''rule_set_empty'', me_message = ''rule set has no usable entries'', me_details = []\<rparr>
      | RuleSetMixed \<Rightarrow> \<lparr>me_code = ''rule_set_mixed'', me_message = ''rule set mixes domains and IP ranges'', me_details = []\<rparr>
      | RuleSetInvalid \<Rightarrow>
          \<lparr>me_code = ''rule_set_invalid'', me_message = ''rule set is not a readable mrs file'', me_details = []\<rparr>)"

definition zstdMagic :: bytes where
  "zstdMagic = [CHR 0x28, CHR 0xB5, CHR 0x2F, CHR 0xFD]"

record ipLib =
  ip_parsePrefix :: "string \<Rightarrow> prefix option"      \<comment> \<open>\<open>netip.ParsePrefix\<close>\<close>
  ip_parseAddr :: "string \<Rightarrow> addr option"           \<comment> \<open>\<open>netip.ParseAddr\<close>, its zone left out\<close>
  ip_prefixString :: "prefix \<Rightarrow> string"

record ruleLib =
  ips :: ipLib
  yamlLists :: "bytes \<Rightarrow> (string list option \<times> string list option) option"   \<comment> \<open>\<open>payload\<close> and \<open>rules\<close>\<close>
  ConvertToMrs :: "bytes \<Rightarrow> ruleBehavior \<Rightarrow> ruleFormat \<Rightarrow> bytes option"
  behaviorString :: "ruleBehavior \<Rightarrow> string"

definition trimmed :: "string list \<Rightarrow> string list" where
  "trimmed entries = filter (\<lambda>e. e \<noteq> []) (map trim_space entries)"

definition ruleSetEntries :: "ruleLib \<Rightarrow> bytes \<Rightarrow> ruleFormat \<times> string list" where
  "ruleSetEntries lib buf =
     (case yamlLists lib buf of
        Some (payload, rules) \<Rightarrow>
          if payload \<noteq> None \<or> rules \<noteq> None
          then (YamlRule, concat (map (\<lambda>l. case l of None \<Rightarrow> [] | Some entries \<Rightarrow> trimmed entries) [payload, rules]))
          else (TextRule, filter (\<lambda>l. \<not> (hd l = CHR ''#'' \<or> has_prefix ''//'' l)) (trimmed (split_on (CHR 0x0A) buf)))
      | None \<Rightarrow> (TextRule, filter (\<lambda>l. \<not> (hd l = CHR ''#'' \<or> has_prefix ''//'' l)) (trimmed (split_on (CHR 0x0A) buf))))"

definition bitLen :: "addr \<Rightarrow> nat" where
  "bitLen a = (case a of Addr4 _ \<Rightarrow> 32 | Addr6 _ \<Rightarrow> 128)"

definition parseCIDR :: "ipLib \<Rightarrow> string \<Rightarrow> string option" where
  "parseCIDR ip entry =
     (case ip_parsePrefix ip entry of
        Some _ \<Rightarrow> Some entry
      | None \<Rightarrow>
          (case ip_parseAddr ip entry of
             Some a \<Rightarrow> Some (ip_prefixString ip \<lparr>prefixAddr = a, prefixBits = bitLen a\<rparr>)
           | None \<Rightarrow> None))"

definition plainDomain :: "string \<Rightarrow> bool" where
  "plainDomain v \<longleftrightarrow> v \<noteq> [] \<and> hd v \<noteq> CHR ''.'' \<and> list_all (\<lambda>c. c \<noteq> CHR ''+'' \<and> c \<noteq> CHR ''*'' \<and> c \<noteq> CHR ''/'') v"

text \<open>One entry of a classical list: the key it becomes in a set of domains or of ranges, or no such key.\<close>

datatype classicalKey = DomainKey string | CidrKey string | NoKey

definition classicalEntry :: "ipLib \<Rightarrow> string \<Rightarrow> classicalKey" where
  "classicalEntry ip entry =
     (case cut_at (CHR '','') entry of
        (ruleType, v, ok) \<Rightarrow>
          if \<not> ok \<or> CHR '','' \<in> set v then NoKey
          else
            let v = trim_space v; ruleType = to_upper (trim_space ruleType)
            in if ruleType = ''DOMAIN'' then (if \<not> plainDomain v then NoKey else DomainKey v)
               else if ruleType = ''DOMAIN-SUFFIX'' then (if \<not> plainDomain v then NoKey else DomainKey (''+.'' @ v))
               else if ruleType = ''IP-CIDR'' \<or> ruleType = ''IP-CIDR6''
               then (if ip_parsePrefix ip v = None then NoKey else CidrKey v)
               else NoKey)"

fun classifyLoop :: "ipLib \<Rightarrow> string list \<Rightarrow> string list \<Rightarrow> string list \<Rightarrow> (string list \<times> string list) option" where
  "classifyLoop ip [] domains cidrs = Some (domains, cidrs)"
| "classifyLoop ip (entry # entries) domains cidrs =
     (case classicalEntry ip entry of
        NoKey \<Rightarrow> None
      | DomainKey d \<Rightarrow> classifyLoop ip entries (domains @ [d]) cidrs
      | CidrKey c \<Rightarrow> classifyLoop ip entries domains (cidrs @ [c]))"

definition classifyClassical :: "ipLib \<Rightarrow> string list \<Rightarrow> ruleBehavior \<times> string list" where
  "classifyClassical ip entries =
     (case classifyLoop ip entries [] [] of
        None \<Rightarrow> (Classical, [])
      | Some (domains, cidrs) \<Rightarrow>
          if cidrs = [] then (Domain, domains)
          else if domains = [] then (IPCIDR, cidrs)
          else (Classical, []))"

definition classifyRuleSet :: "ipLib \<Rightarrow> string list \<Rightarrow> (ruleSetError, ruleBehavior \<times> string list) result" where
  "classifyRuleSet ip entries =
     (if entries = [] then Inl RuleSetEmpty
      else if list_ex (\<lambda>e. CHR '','' \<in> set e) entries then Inr (classifyClassical ip entries)
      else
        let cidrs = List.map_filter (parseCIDR ip) entries
        in if cidrs = [] then Inr (Domain, entries)
           else if length cidrs = length entries then Inr (IPCIDR, cidrs)
           else Inl RuleSetMixed)"

definition ruleSetInfo :: "ruleLib \<Rightarrow> ruleFormat \<Rightarrow> ruleBehavior \<Rightarrow> RuleSetInfo" where
  "ruleSetInfo lib format behavior =
     \<lparr>Behavior = to_lower (behaviorString lib behavior),
      Format = (case format of YamlRule \<Rightarrow> ''yaml'' | TextRule \<Rightarrow> ''text'' | MrsRule \<Rightarrow> ''mrs'')\<rparr>"

definition compileRuleSet ::
  "ruleLib \<Rightarrow> bytes \<Rightarrow> bool \<Rightarrow> (ruleSetError, RuleSetInfo \<times> bytes option) result" where
  "compileRuleSet lib buf allowEmpty =
     (if has_prefix zstdMagic buf
      then (case find (\<lambda>b. ConvertToMrs lib buf b MrsRule \<noteq> None) [Domain, IPCIDR] of
              Some b \<Rightarrow> Inr (ruleSetInfo lib MrsRule b, None)
            | None \<Rightarrow> Inl RuleSetInvalid)
      else
        (case ruleSetEntries lib buf of
           (format, entries) \<Rightarrow>
             if entries = [] \<and> allowEmpty then Inr (ruleSetInfo lib format Classical, None)
             else
               (case classifyRuleSet (ips lib) entries of
                  Inl e \<Rightarrow> Inl e
                | Inr (behavior, keys) \<Rightarrow>
                    let info = ruleSetInfo lib format behavior
                    in if behavior = Classical then Inr (info, None)
                       else (case ConvertToMrs lib (str_join [CHR 0x0A] keys) behavior TextRule of
                               None \<Rightarrow> Inl RuleSetEmpty
                             | Some mrs \<Rightarrow> Inr (info, Some mrs)))))"

subsection \<open>Files\<close>

datatype fileNode = FileNode bytes | LinkNode "string list"

type_synonym tree = "string list \<rightharpoonup> fileNode"

record writeFaults =
  mkdirFails :: "string option"
  openFails :: "string option"        \<comment> \<open>for another reason than that something is there\<close>
  written :: "nat option"             \<comment> \<open>how many bytes get written, if not all\<close>
  closeFails :: "string option"
  renameFails :: "string option"
  removeFails :: bool
  meddle :: "tree \<Rightarrow> tree"            \<comment> \<open>what others do before the file is created\<close>

definition removeFile :: "writeFaults \<Rightarrow> string list \<Rightarrow> tree \<Rightarrow> tree" where
  "removeFile f path fs = (if removeFails f then fs else fs(path := None))"

text \<open>\<open>O_EXCL\<close>: nothing may stand at the path, not even a link.\<close>

definition writeRuleSetFile :: "writeFaults \<Rightarrow> string list \<Rightarrow> bytes \<Rightarrow> tree \<Rightarrow> string option \<times> tree" where
  "writeRuleSetFile f path buf fs =
     (case mkdirFails f of
        Some e \<Rightarrow> (Some e, fs)
      | None \<Rightarrow>
          let temp = withExt path ''.tmp'';
              fs = meddle f (removeFile f temp fs)
          in case (if fs temp \<noteq> None then Some ''file exists'' else openFails f) of
               Some e \<Rightarrow> (Some e, fs)
             | None \<Rightarrow>
                 let fs = fs(temp \<mapsto> FileNode (case written f of None \<Rightarrow> buf | Some n \<Rightarrow> take n buf));
                     err = (case written f of Some _ \<Rightarrow> Some ''short write'' | None \<Rightarrow> closeFails f)
                 in case err of
                      Some e \<Rightarrow> (Some e, removeFile f temp fs)
                    | None \<Rightarrow>
                        (case renameFails f of
                           Some e \<Rightarrow> (Some e, removeFile f temp fs)
                         | None \<Rightarrow> (None, fs(path := fs temp, temp := None))))"

text \<open>\<open>fetch\<close> is the read of mihomo's HTTP vehicle.\<close>

definition downloadRuleSet :: "(string \<Rightarrow> (fetchError, bytes) result) \<Rightarrow> string \<Rightarrow> (goError, bytes) result" where
  "downloadRuleSet fetch url =
     (case fetch url of
        Inl e \<Rightarrow>
          (case requestMethodError e [] of
             Some methodErr \<Rightarrow> Inl (AsMethodError methodErr)
           | None \<Rightarrow> Inl (OtherError (fe_message e)))
      | Inr buf \<Rightarrow> Inr buf)"

record CompileRuleSetParams =
  cp_name :: string
  cp_url :: string

definition handleCompileRuleSet ::
  "ruleLib \<Rightarrow> (string \<Rightarrow> (fetchError, bytes) result) \<Rightarrow> (string list \<Rightarrow> tree \<Rightarrow> (string, bytes) result) \<Rightarrow>
     writeFaults \<Rightarrow> writeFaults \<Rightarrow> bool \<Rightarrow> string list \<Rightarrow> CompileRuleSetParams \<Rightarrow> tree \<Rightarrow>
     (goError, RuleSetInfo) result \<times> tree" where
  "handleCompileRuleSet lib fetch readFile f1 f2 isInit homeDir params fs =
     (if \<not> isInit then (Inl (OtherError ''not initialized''), fs)
      else
        (case ruleSetCachePath homeDir (cp_name params) of
           None \<Rightarrow>
             (Inl (AsMethodError \<lparr>me_code = ''invalid_arguments'', me_message = ''invalid rule set name'', me_details = []\<rparr>), fs)
         | Some source \<Rightarrow>
             (case (if cp_url params \<noteq> [] then downloadRuleSet fetch (cp_url params)
                    else map_sum OtherError id (readFile source fs)) of
                Inl e \<Rightarrow> (Inl e, fs)
              | Inr buf \<Rightarrow>
                  (case compileRuleSet lib buf (cp_url params = []) of
                     Inl e \<Rightarrow> (Inl (AsMethodError (errRuleSet e)), fs)
                   | Inr (info, mrs) \<Rightarrow>
                       (case (if cp_url params \<noteq> [] then writeRuleSetFile f1 source buf fs else (None, fs)) of
                          (Some e, fs) \<Rightarrow> (Inl (OtherError e), fs)
                        | (None, fs) \<Rightarrow>
                            (case mrs of
                               None \<Rightarrow> (Inr info, fs)
                             | Some mrs \<Rightarrow>
                                 (case writeRuleSetFile f2 (withExt source ''.mrs'') mrs fs of
                                    (Some e, fs) \<Rightarrow> (Inl (OtherError e), fs)
                                  | (None, fs) \<Rightarrow> (Inr info, fs))))))))"

subsection \<open>What rules and sets match\<close>

text \<open>
  The meaning of rules as mihomo documents it: \<open>DOMAIN\<close> is one name, \<open>DOMAIN-SUFFIX\<close> a name and those below
  it, \<open>IP-CIDR\<close> a range; in a set of domains \<open>+.\<close> stands for a name and those below it, and a leading dot,
  \<open>+\<close> and \<open>*\<close> elsewhere for wildcards, which are the argument \<open>wild\<close>. Hosts are in lower case.
\<close>

datatype destination = Host string | Ip addr

definition below :: "string \<Rightarrow> string \<Rightarrow> bool" where
  "below v host \<longleftrightarrow> host = to_lower v \<or> (\<exists>sub. host = sub @ ''.'' @ to_lower v)"

text \<open>A name is what a set takes literally: not empty, and free of the signs above and of slashes.\<close>

definition nameIn :: "string \<Rightarrow> bool" where
  "nameIn key \<longleftrightarrow> (\<exists>c rest. key = c # rest \<and> c \<noteq> CHR ''.'') \<and> CHR ''+'' \<notin> set key \<and> CHR ''*'' \<notin> set key \<and>
     CHR ''/'' \<notin> set key"

lemma plainDomain_name: "plainDomain v = nameIn v"
proof -
  have free: "list_all (\<lambda>d. d \<noteq> a \<and> d \<noteq> b \<and> d \<noteq> c) v \<longleftrightarrow> a \<notin> set v \<and> b \<notin> set v \<and> c \<notin> set v" for a b c :: char
    by (auto simp: list_all_iff)
  have start: "(\<exists>c rest. v = c # rest \<and> c \<noteq> a) \<longleftrightarrow> v \<noteq> [] \<and> hd v \<noteq> a" for a
    by (cases v) simp_all
  show ?thesis unfolding plainDomain_def nameIn_def free start by (rule conj_assoc [symmetric])
qed

definition domainHits :: "(string \<Rightarrow> string \<Rightarrow> bool) \<Rightarrow> string \<Rightarrow> string \<Rightarrow> bool" where
  "domainHits wild key host \<longleftrightarrow>
     (if has_prefix ''+.'' key \<and> nameIn (drop 2 key) then below (drop 2 key) host
      else if nameIn key then host = to_lower key
      else wild key host)"

definition rangeOf :: "ipLib \<Rightarrow> string \<Rightarrow> prefix option" where
  "rangeOf ip s =
     (case ip_parsePrefix ip s of
        Some p \<Rightarrow> Some p
      | None \<Rightarrow> map_option (\<lambda>a. \<lparr>prefixAddr = a, prefixBits = bitLen a\<rparr>) (ip_parseAddr ip s))"

definition entryHits :: "ipLib \<Rightarrow> (string \<Rightarrow> string \<Rightarrow> bool) \<Rightarrow> string \<Rightarrow> destination \<Rightarrow> bool" where
  "entryHits ip wild entry t \<longleftrightarrow>
     (case split_on (CHR '','') entry of
        [e] \<Rightarrow>
          (case rangeOf ip e of
             Some p \<Rightarrow> (case t of Ip a \<Rightarrow> prefixContains p a | Host _ \<Rightarrow> False)
           | None \<Rightarrow> (case t of Host h \<Rightarrow> domainHits wild e h | Ip _ \<Rightarrow> False))
      | [ty, v] \<Rightarrow>
          let ty = to_upper (trim_space ty); v = trim_space v
          in (case t of
                Host h \<Rightarrow> ty = ''DOMAIN'' \<and> h = to_lower v \<or> ty = ''DOMAIN-SUFFIX'' \<and> below v h
              | Ip a \<Rightarrow> ty \<in> {''IP-CIDR'', ''IP-CIDR6''} \<and>
                  (case ip_parsePrefix ip v of None \<Rightarrow> False | Some p \<Rightarrow> prefixContains p a))
      | _ \<Rightarrow> False)"

definition setHits :: "ipLib \<Rightarrow> (string \<Rightarrow> string \<Rightarrow> bool) \<Rightarrow> ruleBehavior \<Rightarrow> string list \<Rightarrow> destination \<Rightarrow> bool" where
  "setHits ip wild behavior keys t \<longleftrightarrow>
     (case (behavior, t) of
        (Domain, Host h) \<Rightarrow> \<exists>k \<in> set keys. domainHits wild k h
      | (IPCIDR, Ip a) \<Rightarrow>
          \<exists>k \<in> set keys. (case ip_parsePrefix ip k of None \<Rightarrow> False | Some p \<Rightarrow> prefixContains p a)
      | _ \<Rightarrow> False)"

lemma split_on_none: "c \<notin> set s \<Longrightarrow> split_on c s = [s]"
  by (induction s) auto

lemma cut_split: "cut_at c s = (a, b, True) \<Longrightarrow> c \<notin> set b \<Longrightarrow> split_on c s = [a, b]"
  by (induction s arbitrary: a) (auto simp: split_on_none split: if_splits prod.splits)

lemma suffix_key: "has_prefix ''+.'' (''+.'' @ v)" "drop 2 (''+.'' @ v) = v"
  by simp_all

lemma plain_no_plus: "plainDomain v \<Longrightarrow> \<not> has_prefix ''+.'' v"
  by (cases v) (auto simp: plainDomain_def)

lemma classicalEntry_hits:
  "(case classicalEntry ip entry of
      DomainKey d \<Rightarrow> (case t of Host h \<Rightarrow> entryHits ip wild entry t = domainHits wild d h | Ip _ \<Rightarrow> \<not> entryHits ip wild entry t)
    | CidrKey k \<Rightarrow>
        (case t of
           Host _ \<Rightarrow> \<not> entryHits ip wild entry t
         | Ip a \<Rightarrow> entryHits ip wild entry t = (case ip_parsePrefix ip k of None \<Rightarrow> False | Some p \<Rightarrow> prefixContains p a))
    | NoKey \<Rightarrow> True)"
proof -
  obtain a b ok where cut: "cut_at (CHR '','') entry = (a, b, ok)" by (metis prod_cases3)
  show ?thesis
  proof (cases "\<not> ok \<or> CHR '','' \<in> set b")
    case True
    then show ?thesis using cut by (simp add: classicalEntry_def)
  next
    case False
    then have fields: "split_on (CHR '','') entry = [a, b]" using cut cut_split [of "CHR '',''" entry a b] by simp
    have "domainHits wild (''+.'' @ trim_space b) h = below (trim_space b) h" if "plainDomain (trim_space b)" for h
      using that by (simp add: domainHits_def plainDomain_name)
    moreover have "domainHits wild (trim_space b) h = (h = to_lower (trim_space b))" if "plainDomain (trim_space b)" for h
      using that plain_no_plus by (simp add: domainHits_def plainDomain_name)
    ultimately show ?thesis
      using False cut by (cases t) (simp_all add: classicalEntry_def entryHits_def fields Let_def)
  qed
qed

lemma classifyLoop_keys:
  assumes "classifyLoop ip entries ds cs = Some (ds', cs')"
  shows "(\<exists>d \<in> set ds'. P d) \<longleftrightarrow> (\<exists>d \<in> set ds. P d) \<or> (\<exists>e \<in> set entries. case classicalEntry ip e of DomainKey d \<Rightarrow> P d | _ \<Rightarrow> False)"
    and "(\<exists>c \<in> set cs'. Q c) \<longleftrightarrow> (\<exists>c \<in> set cs. Q c) \<or> (\<exists>e \<in> set entries. case classicalEntry ip e of CidrKey c \<Rightarrow> Q c | _ \<Rightarrow> False)"
    and "\<forall>e \<in> set entries. classicalEntry ip e \<noteq> NoKey"
  using assms by (induction ip entries ds cs rule: classifyLoop.induct) (auto split: classicalKey.splits)

lemma classical_matches:
  assumes "classifyClassical ip entries = (behavior, keys)" and "behavior \<noteq> Classical"
  shows "(\<exists>e \<in> set entries. entryHits ip wild e t) \<longleftrightarrow> setHits ip wild behavior keys t"
proof -
  obtain ds cs where loop: "classifyLoop ip entries [] [] = Some (ds, cs)"
    using assms by (auto simp: classifyClassical_def split: option.splits)
  note keys = classifyLoop_keys [OF loop]
  have dom: "(case t of Host h \<Rightarrow> entryHits ip wild e t = domainHits wild d h | Ip _ \<Rightarrow> \<not> entryHits ip wild e t)"
    if "classicalEntry ip e = DomainKey d" for e d
    using classicalEntry_hits [where ip = ip and entry = e and t = t and wild = wild] that by simp
  have cidr: "(case t of Host _ \<Rightarrow> \<not> entryHits ip wild e t
       | Ip a \<Rightarrow> entryHits ip wild e t = (case ip_parsePrefix ip k of None \<Rightarrow> False | Some p \<Rightarrow> prefixContains p a))"
    if "classicalEntry ip e = CidrKey k" for e k
    using classicalEntry_hits [where ip = ip and entry = e and t = t and wild = wild] that by simp
  show ?thesis
  proof (cases "cs = []")
    case True
    then have only: "\<exists>d. classicalEntry ip e = DomainKey d" if "e \<in> set entries" for e
      using keys(2) [of "\<lambda>_. True"] keys(3) that by (cases "classicalEntry ip e") fastforce+
    have "behavior = Domain" "keys = ds" using assms(1) loop True by (auto simp: classifyClassical_def)
    let ?P = "\<lambda>d. case t of Host h \<Rightarrow> domainHits wild d h | Ip _ \<Rightarrow> False"
    have "entryHits ip wild e t \<longleftrightarrow> (case classicalEntry ip e of DomainKey d \<Rightarrow> ?P d | _ \<Rightarrow> False)"
      if "e \<in> set entries" for e
      using only [OF that] dom [of e] by (cases t) auto
    moreover have "setHits ip wild behavior keys t \<longleftrightarrow> (\<exists>d \<in> set ds. ?P d)"
      using \<open>behavior = Domain\<close> \<open>keys = ds\<close> by (cases t) (simp_all add: setHits_def)
    ultimately show ?thesis using keys(1) [of ?P] by (simp cong: bex_cong)
  next
    case False
    then have ds: "ds = []" "behavior = IPCIDR" "keys = cs"
      using assms loop by (auto simp: classifyClassical_def split: if_splits)
    then have only: "\<exists>k. classicalEntry ip e = CidrKey k" if "e \<in> set entries" for e
      using keys(1) [of "\<lambda>_. True"] keys(3) that by (cases "classicalEntry ip e") fastforce+
    let ?Q = "\<lambda>k. case t of Host _ \<Rightarrow> False
      | Ip a \<Rightarrow> (case ip_parsePrefix ip k of None \<Rightarrow> False | Some p \<Rightarrow> prefixContains p a)"
    have "entryHits ip wild e t \<longleftrightarrow> (case classicalEntry ip e of CidrKey k \<Rightarrow> ?Q k | _ \<Rightarrow> False)"
      if "e \<in> set entries" for e
      using only [OF that] cidr [of e] by (cases t) auto
    moreover have "setHits ip wild behavior keys t \<longleftrightarrow> (\<exists>k \<in> set cs. ?Q k)"
      using ds by (cases t) (simp_all add: setHits_def)
    ultimately show ?thesis using keys(2) [of ?Q] by (simp cong: bex_cong)
  qed
qed

text \<open>The round trip of addresses that \<open>net/netip\<close> documents.\<close>

definition printsBack :: "ipLib \<Rightarrow> bool" where
  "printsBack ip \<longleftrightarrow> (\<forall>a. ip_parsePrefix ip (ip_prefixString ip \<lparr>prefixAddr = a, prefixBits = bitLen a\<rparr>) =
     Some \<lparr>prefixAddr = a, prefixBits = bitLen a\<rparr>)"

lemma parseCIDR_range:
  assumes "printsBack ip"
  shows "map_option (\<lambda>k. ip_parsePrefix ip k) (parseCIDR ip e) = map_option Some (rangeOf ip e)"
  using assms by (auto simp: parseCIDR_def rangeOf_def printsBack_def split: option.split)

lemma map_filter_all:
  "length (List.map_filter f xs) = length xs \<longleftrightarrow> (\<forall>x \<in> set xs. f x \<noteq> None)"
proof -
  have le: "length (List.map_filter f xs) \<le> length xs" for xs
    by (induction xs) (auto simp: List.map_filter_simps split: option.split)
  show ?thesis
    using le by (induction xs) (auto simp: List.map_filter_simps split: option.split dest: le_antisym, (metis Suc_n_not_le_n)+)
qed

lemma map_filter_none: "List.map_filter f xs = [] \<longleftrightarrow> (\<forall>x \<in> set xs. f x = None)"
  by (induction xs) (auto simp: List.map_filter_simps split: option.split)

lemma set_map_filter_ex: "(\<exists>k \<in> set (List.map_filter f xs). Q k) \<longleftrightarrow> (\<exists>x \<in> set xs. case f x of None \<Rightarrow> False | Some k \<Rightarrow> Q k)"
  by (induction xs) (auto simp: List.map_filter_simps split: option.split)

text \<open>
  \<^bold>\<open>C36.\<close> A list that is compiled into a set of domains or ranges matches the same hosts and addresses as
  before: the list of rules by what each of its rules means, the set by what its keys mean. Whatever would
  not survive, rules of another type or with an option, values a set reads as wildcards, both kinds in one
  list, leaves the list uncompiled.
\<close>

theorem compiled_set_matches_alike:
  assumes "printsBack ip" and "classifyRuleSet ip entries = Inr (behavior, keys)" and "behavior \<noteq> Classical"
  shows "(\<exists>e \<in> set entries. entryHits ip wild e t) \<longleftrightarrow> setHits ip wild behavior keys t"
proof (cases "list_ex (\<lambda>e. CHR '','' \<in> set e) entries")
  case True
  then show ?thesis using assms(2,3) by (intro classical_matches) (auto simp: classifyRuleSet_def split: if_splits)
next
  case False
  then have bare: "split_on (CHR '','') e = [e]" if "e \<in> set entries" for e
    using that split_on_none by (auto simp: list_ex_iff)
  have parse: "(case parseCIDR ip e of None \<Rightarrow> rangeOf ip e = None | Some k \<Rightarrow> rangeOf ip e = ip_parsePrefix ip k)" for e
    using parseCIDR_range [OF assms(1), of e] by (cases "rangeOf ip e") (auto split: option.splits)
  show ?thesis
  proof (cases "List.map_filter (parseCIDR ip) entries = []")
    case True
    then have none: "rangeOf ip e = None" if "e \<in> set entries" for e
      using parse [of e] that by (auto simp: map_filter_none)
    have "behavior = Domain" "keys = entries"
      using assms(2) False True by (auto simp: classifyRuleSet_def Let_def split: if_splits)
    then show ?thesis
      using bare none by (cases t) (auto simp: setHits_def entryHits_def)
  next
    case some: False
    then have "behavior = IPCIDR" and keys: "keys = List.map_filter (parseCIDR ip) entries"
      and "length keys = length entries"
      using assms(2) False by (auto simp: classifyRuleSet_def Let_def split: if_splits)
    then have all: "parseCIDR ip e \<noteq> None" if "e \<in> set entries" for e
      using that map_filter_all by metis
    have hit: "entryHits ip wild e (Ip a) \<longleftrightarrow> (case parseCIDR ip e of None \<Rightarrow> False
        | Some k \<Rightarrow> (case ip_parsePrefix ip k of None \<Rightarrow> False | Some p \<Rightarrow> prefixContains p a))"
      and nohost: "\<not> entryHits ip wild e (Host h)" if "e \<in> set entries" for e a h
      using bare [OF that] all [OF that] parse [of e]
      by (auto simp: entryHits_def rangeOf_def parseCIDR_def split: option.splits)
    show ?thesis
      using hit nohost \<open>behavior = IPCIDR\<close> unfolding keys
      by (cases t) (simp_all add: setHits_def set_map_filter_ex)
  qed
qed

subsection \<open>Which files change\<close>

text \<open>Others may put anything, a link too, where the temporary file is about to be made.\<close>

definition plantsOnly :: "writeFaults \<Rightarrow> string list \<Rightarrow> bool" where
  "plantsOnly f path \<longleftrightarrow> (\<forall>fs q. q \<noteq> withExt path ''.tmp'' \<longrightarrow> meddle f fs q = fs q)"

lemma withExt_neq: "ext \<noteq> [] \<Longrightarrow> path \<noteq> [] \<Longrightarrow> withExt path ext \<noteq> path"
  by (simp add: withExt_def) (metis append_butlast_last_id append_self_conv last_snoc)

lemma removeFile_other: "q \<noteq> path \<Longrightarrow> removeFile f path fs q = fs q"
  by (simp add: removeFile_def)

lemma writeRuleSetFile_effect:
  assumes "writeRuleSetFile f path buf fs = (e, fs')" and "plantsOnly f path" and "path \<noteq> []"
  shows "q \<noteq> path \<Longrightarrow> q \<noteq> withExt path ''.tmp'' \<Longrightarrow> fs' q = fs q"
    and "fs' path = (if e = None then Some (FileNode buf) else fs path)"
  using assms withExt_neq [of "''.tmp''" path]
  by (auto simp: writeRuleSetFile_def Let_def plantsOnly_def removeFile_other split: option.splits if_splits)

lemma withExt_simps:
  "withExt (d @ [n]) ext = d @ [n @ ext]"
  by (simp add: withExt_def)

lemma nameChar_ext: "list_all nameChar ''.tmp''" "list_all nameChar ''.mrs''"
  by (simp_all add: nameChar_def code_def)

lemma ruleSet_names:
  assumes "source = homeDir @ [''providers'', ''rules'', name]" and "mrsPath = withExt source ''.mrs''"
  shows "source \<noteq> []" "mrsPath \<noteq> []" "source \<noteq> mrsPath" "source \<noteq> withExt mrsPath ''.tmp''"
    "mrsPath \<noteq> withExt source ''.tmp''"
    "{source, mrsPath, withExt source ''.tmp'', withExt mrsPath ''.tmp''} =
       (\<lambda>ext. homeDir @ [''providers'', ''rules'', name @ ext]) ` {[], ''.tmp'', ''.mrs'', ''.mrs.tmp''}"
proof -
  have exts: "mrsPath = homeDir @ [''providers'', ''rules'', name @ ''.mrs'']"
    "withExt source ''.tmp'' = homeDir @ [''providers'', ''rules'', name @ ''.tmp'']"
    "withExt mrsPath ''.tmp'' = homeDir @ [''providers'', ''rules'', name @ ''.mrs.tmp'']"
    unfolding assms by (simp_all add: withExt_def butlast_append)
  show "source \<noteq> []" "mrsPath \<noteq> []" by (simp_all add: exts(1) assms(1))
  show "source \<noteq> mrsPath" by (simp add: exts(1) assms(1))
  show "source \<noteq> withExt mrsPath ''.tmp''" by (simp add: exts(3) assms(1))
  show "mrsPath \<noteq> withExt source ''.tmp''" unfolding exts(2) by (simp add: exts(1))
  show "{source, mrsPath, withExt source ''.tmp'', withExt mrsPath ''.tmp''} =
      (\<lambda>ext. homeDir @ [''providers'', ''rules'', name @ ext]) ` {[], ''.tmp'', ''.mrs'', ''.mrs.tmp''}"
    unfolding exts(2,3) unfolding exts(1) assms(1) by (simp add: insert_commute)
qed

text \<open>A call that gets as far as writing: the outcomes of its two writes, what it answers and what it leaves.\<close>

lemma compile_effects:
  assumes "handleCompileRuleSet lib fetch readFile f1 f2 True homeDir params fs = (r, fs')"
    and src: "source = homeDir @ [''providers'', ''rules'', cp_name params]" "mrsPath = withExt source ''.mrs''"
      "ruleSetCachePath homeDir (cp_name params) = Some source"
    and plants: "plantsOnly f1 source" "plantsOnly f2 mrsPath"
    and data: "(if cp_url params \<noteq> [] then downloadRuleSet fetch (cp_url params)
        else map_sum OtherError id (readFile source fs)) = Inr buf"
      "compileRuleSet lib buf (cp_url params = []) = Inr (info, mrs)"
  obtains e1 e2 where
    "r = (case e1 of Some e \<Rightarrow> Inl (OtherError e) | None \<Rightarrow>
       (case e2 of Some e \<Rightarrow> Inl (OtherError e) | None \<Rightarrow> Inr info))"
    "\<And>q. q \<notin> {source, mrsPath, withExt source ''.tmp'', withExt mrsPath ''.tmp''} \<Longrightarrow> fs' q = fs q"
    "fs' source = (if cp_url params \<noteq> [] \<and> e1 = None then Some (FileNode buf) else fs source)"
    "fs' mrsPath = (if mrs \<noteq> None \<and> e1 = None \<and> e2 = None then map_option FileNode mrs else fs mrsPath)"
proof -
  note names = ruleSet_names [OF src(1,2)]
  obtain e1 fs1 where w1: "(if cp_url params \<noteq> [] then writeRuleSetFile f1 source buf fs else (None, fs)) = (e1, fs1)"
    by (metis surj_pair)
  have fs1: "fs1 q = fs q" if "q \<noteq> source" "q \<noteq> withExt source ''.tmp''" for q
    using w1 that writeRuleSetFile_effect(1) [OF _ plants(1) names(1)] by (auto split: if_splits)
  have fs1s: "fs1 source = (if cp_url params \<noteq> [] \<and> e1 = None then Some (FileNode buf) else fs source)"
    using w1 writeRuleSetFile_effect(2) [OF _ plants(1) names(1), of buf fs e1 fs1] by (cases "cp_url params = []") simp_all
  obtain e2 fs2 where w2: "(case mrs of None \<Rightarrow> (None, fs1) | Some m \<Rightarrow> writeRuleSetFile f2 mrsPath m fs1) = (e2, fs2)"
    by (metis surj_pair)
  have fs2: "fs2 q = fs1 q" if "q \<noteq> mrsPath" "q \<noteq> withExt mrsPath ''.tmp''" for q
    using w2 that writeRuleSetFile_effect(1) [OF _ plants(2) names(2)] by (auto split: option.splits)
  have fs2m: "fs2 mrsPath = (if mrs \<noteq> None \<and> e2 = None then map_option FileNode mrs else fs1 mrsPath)"
    using w2 writeRuleSetFile_effect(2) [OF _ plants(2) names(2), of "the mrs" fs1 e2 fs2] by (cases mrs) simp_all
  have run: "(r, fs') = (case e1 of Some e \<Rightarrow> (Inl (OtherError e), fs1)
      | None \<Rightarrow> (case e2 of Some e \<Rightarrow> (Inl (OtherError e), fs2) | None \<Rightarrow> (Inr info, fs2)))"
    using assms(1) src(3) data w1 w2 [unfolded src(2)]
    by (simp add: handleCompileRuleSet_def split: option.splits prod.splits)
  then have last: "fs' = (if e1 = None then fs2 else fs1)" by (auto split: option.splits)
  show thesis
  proof (rule that)
    show "r = (case e1 of Some e \<Rightarrow> Inl (OtherError e) | None \<Rightarrow>
       (case e2 of Some e \<Rightarrow> Inl (OtherError e) | None \<Rightarrow> Inr info))"
      using run by (auto split: option.splits)
    show "fs' q = fs q" if "q \<notin> {source, mrsPath, withExt source ''.tmp'', withExt mrsPath ''.tmp''}" for q
      using last fs1 [of q] fs2 [of q] that by auto
    show "fs' source = (if cp_url params \<noteq> [] \<and> e1 = None then Some (FileNode buf) else fs source)"
      using last fs1s fs2 [of source] names(3,4) by auto
    show "fs' mrsPath = (if mrs \<noteq> None \<and> e1 = None \<and> e2 = None then map_option FileNode mrs else fs mrsPath)"
      using last fs1 [of mrsPath] fs2m names(3,5) by auto
  qed
qed


subsection \<open>Instances\<close>

text \<open>A writing of addresses that can be read back: the family and the number in unary.\<close>

definition unaryIp :: ipLib where
  "unaryIp =
     \<lparr>ip_parsePrefix = (\<lambda>s. case s of [] \<Rightarrow> None
        | c # r \<Rightarrow> if c = CHR ''4'' then Some \<lparr>prefixAddr = Addr4 (of_nat (length r)), prefixBits = 32\<rparr>
                  else if c = CHR ''6'' then Some \<lparr>prefixAddr = Addr6 (of_nat (length r)), prefixBits = 128\<rparr> else None),
      ip_parseAddr = (\<lambda>s. None),
      ip_prefixString = (\<lambda>p. case prefixAddr p of Addr4 a \<Rightarrow> CHR ''4'' # replicate (unat a) CHR ''x''
        | Addr6 a \<Rightarrow> CHR ''6'' # replicate (unat a) CHR ''x'')\<rparr>"

lemma unaryIp_printsBack: "printsBack unaryIp"
  by (auto simp: printsBack_def unaryIp_def bitLen_def split: addr.split)

definition sampleRules :: "string list" where
  "sampleRules = [''DOMAIN,a.com'', ''domain-suffix, b.org'']"

lemma sampleRules_compiled: "classifyRuleSet unaryIp sampleRules = Inr (Domain, [''a.com'', ''+.b.org''])"
  by code_simp

lemma compiled_set_matches_alike_witness:
  "(\<exists>e \<in> set sampleRules. entryHits unaryIp (\<lambda>_ _. False) e (Host ''b.org'')) \<longleftrightarrow>
     setHits unaryIp (\<lambda>_ _. False) Domain [''a.com'', ''+.b.org''] (Host ''b.org'')"
  using compiled_set_matches_alike [OF unaryIp_printsBack sampleRules_compiled] by simp

definition noFaults :: writeFaults where
  "noFaults = \<lparr>mkdirFails = None, openFails = None, written = None, closeFails = None, renameFails = None,
     removeFails = False, meddle = id\<rparr>"

definition sampleLib :: ruleLib where
  "sampleLib = \<lparr>ips = unaryIp, yamlLists = (\<lambda>_. None), ConvertToMrs = (\<lambda>buf _ _. Some (''M'' @ buf)),
     behaviorString = (\<lambda>b. case b of Domain \<Rightarrow> ''Domain'' | IPCIDR \<Rightarrow> ''IPCIDR'' | Classical \<Rightarrow> ''Classical'')\<rparr>"


end
