(* ===== verification/GoFields.thy ===== *)
theory GoFields
  imports GoStrings
begin

section \<open>Splitting into fields (Go's \<open>strings.Fields\<close> and \<open>strings.FieldsFunc\<close>)\<close>

text \<open>
  \<open>words_by P\<close> is \<open>FieldsFunc\<close> with the predicate \<open>P\<close> on bytes: the longest runs of bytes that are no
  separators. \<open>strings.Fields\<close> on ASCII splits at \<open>isSpace\<close>.
\<close>

definition isSpace :: "char \<Rightarrow> bool" where
  "isSpace c \<longleftrightarrow> code c \<in> {9, 10, 11, 12, 13, 32}"

lemma word_shorter:
  assumes "dropWhile P s \<noteq> []"
  shows "length (dropWhile (\<lambda>c. \<not> P c) (dropWhile P s)) < length s"
proof (cases "dropWhile P s")
  case (Cons c r)
  then have "\<not> P c" by (simp add: dropWhile_eq_Cons_conv)
  moreover have "length (dropWhile (\<lambda>c. \<not> P c) r) \<le> length r" by (rule length_dropWhile_le)
  moreover have "length (c # r) \<le> length s" using length_dropWhile_le [of P s] Cons by simp
  ultimately show ?thesis by (simp add: Cons)
qed (use assms in simp)

function words_by :: "(char \<Rightarrow> bool) \<Rightarrow> string \<Rightarrow> string list" where
  "words_by P s =
     (let s = dropWhile P s
      in if s = [] then []
         else takeWhile (\<lambda>c. \<not> P c) s # words_by P (dropWhile (\<lambda>c. \<not> P c) s))"
  by pat_completeness auto
termination by (relation "measure (length \<circ> snd)") (auto simp: word_shorter)

declare words_by.simps [simp del]

end
