(* ===== verification/OutboundIp.thy ===== *)
theory OutboundIp
  imports ServiceCheck Netip GoFields
begin

section \<open>The address a target leaves from (\<open>core/outbound_ip.go\<close>)\<close>

text \<open>
  Several sources are asked for the caller's address; the first usable answer wins. The sources run beside
  each other and their answers come in any order, with the ticks of a timer and the end of the context
  between them: what the loop's \<open>select\<close> takes is a list of events, and a run is the fold of the loop's body
  over it. An answer is what \<open>probeOutboundIpSource\<close> makes of one probe.
\<close>

definition outboundIpConcurrency :: nat where "outboundIpConcurrency = 3"
definition outboundIpStagger :: int where "outboundIpStagger = 800 * millisecond"
definition outboundIpMaxBody :: nat where "outboundIpMaxBody = 4096"

record OutboundIpParams =
  oi_proxyName :: string
  oi_urls :: "string list"
  oi_timeout :: int

record OutboundIpResult =
  or_url :: string
  or_body :: string
  or_delay :: int
  or_chains :: "string list"
  or_error :: string
  or_epoch :: u64
  or_version :: u64
  or_hits :: "RouteHit list"
  or_nodeHits :: "RouteHit list"

subsection \<open>Public addresses\<close>

definition v4In :: "32 word \<Rightarrow> nat \<Rightarrow> addr \<Rightarrow> bool" where
  "v4In base bits a = prefixContains \<lparr>prefixAddr = Addr4 base, prefixBits = bits\<rparr> a"

definition v6In :: "128 word \<Rightarrow> nat \<Rightarrow> addr \<Rightarrow> bool" where
  "v6In base bits a = prefixContains \<lparr>prefixAddr = Addr6 base, prefixBits = bits\<rparr> a"

text \<open>\<open>netip.Addr\<close>'s \<open>IsGlobalUnicast\<close> and \<open>IsPrivate\<close>, on an address that is not a mapped one.\<close>

definition isGlobalUnicast :: "addr \<Rightarrow> bool" where
  "isGlobalUnicast a \<longleftrightarrow>
     a \<noteq> Addr4 0 \<and> a \<noteq> Addr4 0xFFFFFFFF \<and> a \<noteq> Addr6 0 \<and>
     \<not> (v4In 0x7F000000 8 a \<or> a = Addr6 1) \<and>
     \<not> (v4In 0xE0000000 4 a \<or> v6In 0xFF000000000000000000000000000000 8 a) \<and>
     \<not> (v4In 0xA9FE0000 16 a \<or> v6In 0xFE800000000000000000000000000000 10 a)"

definition isPrivate :: "addr \<Rightarrow> bool" where
  "isPrivate a \<longleftrightarrow> v4In 0x0A000000 8 a \<or> v4In 0xAC100000 12 a \<or> v4In 0xC0A80000 16 a \<or>
     v6In 0xFC000000000000000000000000000000 7 a"

definition sharedAddressSpace :: prefix where
  "sharedAddressSpace = \<lparr>prefixAddr = Addr4 0x64400000, prefixBits = 10\<rparr>"

definition isTokenChar :: "char \<Rightarrow> bool" where
  "isTokenChar c \<longleftrightarrow> c = CHR ''.'' \<or> c = CHR '':'' \<or> (48 \<le> code c \<and> code c \<le> 57) \<or>
     (97 \<le> code c \<and> code c \<le> 122) \<or> (65 \<le> code c \<and> code c \<le> 90)"

definition usableAddr :: "addr \<Rightarrow> bool" where
  "usableAddr a \<longleftrightarrow> isGlobalUnicast a \<and> \<not> isPrivate a \<and> \<not> prefixContains sharedAddressSpace a"

definition mentionsIp :: "(string \<Rightarrow> addr option) \<Rightarrow> string \<Rightarrow> bool" where
  "mentionsIp parseAddr body \<longleftrightarrow>
     list_ex (\<lambda>token. case parseAddr token of None \<Rightarrow> False | Some a \<Rightarrow> usableAddr (unmapAddr a))
       (words_by (\<lambda>c. \<not> isTokenChar c) body)"

subsection \<open>One source\<close>

definition nodeHits :: "'m proxyEnv \<Rightarrow> string list \<Rightarrow> string \<Rightarrow> RouteHit list \<Rightarrow> RouteHit list option" where
  "nodeHits env hops proxyName hits =
     (if hops = [] \<or> hd hops = proxyName then Some []
      else
        (let node = hd hops
         in fold (\<lambda>hit through. Option.bind through (\<lambda>through.
              map_option (\<lambda>exit. withHit through \<lparr>hitHost = hitHost hit, hitProxy = node, hitExit = exit\<rparr>)
                (resolveExit env (hitHost hit) node))) hits (Some [])))"

definition sourceRequest :: "string \<Rightarrow> string \<Rightarrow> int \<Rightarrow> probeRequest" where
  "sourceRequest url proxyName timeout =
     \<lparr>rq_method = ''GET'', rq_url = url, rq_proxyName = proxyName, rq_headers = [(''User-Agent'', browserUserAgent)],
      rq_body = [], rq_timeout = timeout, rq_maxBody = outboundIpMaxBody, rq_noRedirect = False, rq_until = None\<rparr>"

text \<open>\<open>None\<close> inside is an unusable answer; outside, \<open>resolveExit\<close> that does not return.\<close>

definition answerOf ::
  "'m proxyEnv \<Rightarrow> (string \<Rightarrow> addr option) \<Rightarrow> string \<Rightarrow> string \<Rightarrow> ProbeResult option \<Rightarrow> OutboundIpResult option option" where
  "answerOf env parseAddr url proxyName probe =
     (case probe of
        None \<Rightarrow> Some None
      | Some r \<Rightarrow>
          if pr_error r \<noteq> [] \<or> pr_status r \<noteq> 200 \<or> \<not> mentionsIp parseAddr (pr_body r) then Some None
          else map_option (\<lambda>through. Some
                 \<lparr>or_url = url, or_body = pr_body r, or_delay = pr_delay r, or_chains = pr_chains r, or_error = [],
                  or_epoch = pr_epoch r, or_version = pr_version r, or_hits = pr_hits r, or_nodeHits = through\<rparr>)
               (nodeHits env (pr_chains r) proxyName (pr_hits r)))"

definition probeOutboundIpSource ::
  "'w probeIO \<Rightarrow> 'm proxyEnv \<Rightarrow> (string \<Rightarrow> addr option) \<Rightarrow> string \<Rightarrow> string \<Rightarrow> int \<Rightarrow> RouteHit list option \<Rightarrow> 'w \<Rightarrow>
     OutboundIpResult option option \<times> RouteHit list option \<times> 'w" where
  "probeOutboundIpSource io env parseAddr url proxyName timeout hits w =
     (case runProbe io (sourceRequest url proxyName timeout) hits w of
        (result, hits, w) \<Rightarrow> (answerOf env parseAddr url proxyName result, hits, w))"

subsection \<open>The race\<close>

datatype 'r raceEnd = Won nat 'r | Exhausted | ContextDone netError

datatype 'r raceEvent = Answer nat "'r option" | Stagger | Done netError

record 'r race =
  nextSource :: nat
  inFlight :: "nat list"
  outcome :: "'r raceEnd option"

text \<open>The closure \<open>start\<close>; \<open>n\<close> is the number of sources.\<close>

definition startSource :: "nat \<Rightarrow> 'r race \<Rightarrow> 'r race" where
  "startSource n s =
     (if nextSource s \<ge> n \<or> length (inFlight s) \<ge> outboundIpConcurrency then s
      else s\<lparr>nextSource := nextSource s + 1, inFlight := inFlight s @ [nextSource s]\<rparr>)"

text \<open>The condition of the loop: with nothing in flight it is over.\<close>

definition loopHead :: "'r race \<Rightarrow> 'r race" where
  "loopHead s = (if inFlight s = [] then s\<lparr>outcome := Some Exhausted\<rparr> else s)"

definition initRace :: "nat \<Rightarrow> 'r race" where
  "initRace n = loopHead (startSource n \<lparr>nextSource = 0, inFlight = [], outcome = None\<rparr>)"

text \<open>One turn of the loop; \<open>None\<close> is an event that cannot come, an answer of a source that is not asked.\<close>

definition raceStep :: "nat \<Rightarrow> 'r raceEvent \<Rightarrow> 'r race \<Rightarrow> 'r race option" where
  "raceStep n ev s =
     (if outcome s \<noteq> None then None
      else
        (case ev of
           Answer i answer \<Rightarrow>
             if i \<notin> set (inFlight s) then None
             else
               (let s = s\<lparr>inFlight := remove1 i (inFlight s)\<rparr>
                in case answer of
                     Some r \<Rightarrow> Some (s\<lparr>outcome := Some (Won i r)\<rparr>)
                   | None \<Rightarrow> Some (loopHead (startSource n s)))
         | Stagger \<Rightarrow> Some (loopHead (startSource n s))
         | Done e \<Rightarrow> Some (s\<lparr>outcome := Some (ContextDone e)\<rparr>)))"

fun raceRun :: "nat \<Rightarrow> 'r raceEvent list \<Rightarrow> 'r race \<Rightarrow> 'r race option" where
  "raceRun n [] s = Some s"
| "raceRun n (ev # evs) s = Option.bind (raceStep n ev s) (raceRun n evs)"

subsection \<open>The claims\<close>

text \<open>Claims in force, by the address of their cancel function, and those that were cancelled.\<close>

definition claimOutboundIp :: "nat \<Rightarrow> u64 \<Rightarrow> (nat, u64) gomap \<Rightarrow> (nat, u64) gomap \<times> nat list" where
  "claimOutboundIp claim coreEpoch claims =
     (AList.update claim coreEpoch (filter (\<lambda>(_, other). \<not> other < coreEpoch) claims),
      map fst (filter (\<lambda>(_, other). other < coreEpoch) claims))"

definition releaseOutboundIp :: "nat \<Rightarrow> (nat, u64) gomap \<Rightarrow> (nat, u64) gomap" where
  "releaseOutboundIp claim claims = AList.delete claim claims"

subsection \<open>The handler\<close>

definition outboundFailure :: "u64 \<times> u64 \<Rightarrow> RouteHit list \<Rightarrow> string \<Rightarrow> OutboundIpResult" where
  "outboundFailure stamp hits kind =
     \<lparr>or_url = [], or_body = [], or_delay = 0, or_chains = [], or_error = kind,
      or_epoch = fst stamp, or_version = snd stamp, or_hits = hits, or_nodeHits = []\<rparr>"

text \<open>What is returned once the loop has ended, with the hits recorded by then.\<close>

definition raceResult :: "u64 \<times> u64 \<Rightarrow> RouteHit list \<Rightarrow> OutboundIpResult raceEnd \<Rightarrow> OutboundIpResult" where
  "raceResult stamp hits e =
     (case e of
        Won _ r \<Rightarrow> r
      | Exhausted \<Rightarrow> outboundFailure stamp hits probeErrorFailed
      | ContextDone err \<Rightarrow> outboundFailure stamp hits (probeErrorKind err))"

text \<open>
  The handler over the events its loop takes: its result if the loop has ended, and the claims. The wait for
  the TUN and the reading of the stamp come before it.
\<close>

definition handleOutboundIp ::
  "OutboundIpParams \<Rightarrow> u64 \<times> u64 \<Rightarrow> nat \<Rightarrow> OutboundIpResult raceEvent list \<Rightarrow> RouteHit list \<Rightarrow> (nat, u64) gomap \<Rightarrow>
     (OutboundIpResult option \<times> (nat, u64) gomap \<times> nat list) option" where
  "handleOutboundIp params stamp claim evs hits claims =
     (if oi_urls params = [] then Some (Some (outboundFailure stamp hits probeErrorFailed), claims, [])
      else
        (case claimOutboundIp claim (fst stamp) claims of
           (claims, cancelled) \<Rightarrow>
             (case raceRun (length (oi_urls params)) evs (initRace (length (oi_urls params))) of
                None \<Rightarrow> None
              | Some s \<Rightarrow>
                  (case outcome s of
                     None \<Rightarrow> Some (None, claims, cancelled)
                   | Some e \<Rightarrow> Some (Some (raceResult stamp hits e), releaseOutboundIp claim claims, cancelled)))))"

definition outboundTimeout :: "OutboundIpParams \<Rightarrow> int" where
  "outboundTimeout params = timeoutFromMillis (oi_timeout params) defaultProbeTimeout"

subsection \<open>How the race ends\<close>

text \<open>The answers among the events, in the order they came.\<close>

definition answers :: "'r raceEvent list \<Rightarrow> (nat \<times> 'r option) list" where
  "answers evs = List.map_filter (\<lambda>ev. case ev of Answer i a \<Rightarrow> Some (i, a) | _ \<Rightarrow> None) evs"

lemma answers_simps [simp]:
  "answers [] = []" "answers (Answer i a # evs) = (i, a) # answers evs" "answers (Stagger # evs) = answers evs"
  "answers (Done e # evs) = answers evs"
  by (simp_all add: answers_def List.map_filter_simps)

definition asked_inv :: "nat \<Rightarrow> (nat \<times> 'r option) list \<Rightarrow> 'r race \<Rightarrow> bool" where
  "asked_inv n as s \<longleftrightarrow> length (inFlight s) \<le> outboundIpConcurrency \<and> distinct (map fst as @ inFlight s) \<and>
     set (map fst as @ inFlight s) = {..<nextSource s} \<and> nextSource s \<le> n"

definition ended_ok :: "nat \<Rightarrow> (nat \<times> 'r option) list \<Rightarrow> 'r race \<Rightarrow> bool" where
  "ended_ok n as s \<longleftrightarrow>
     (case outcome s of
        None \<Rightarrow> inFlight s \<noteq> [] \<and> (\<forall>a \<in> set as. snd a = None)
      | Some (Won i r) \<Rightarrow> as \<noteq> [] \<and> last as = (i, Some r) \<and> (\<forall>a \<in> set (butlast as). snd a = None)
      | Some Exhausted \<Rightarrow> length as = n \<and> (\<forall>a \<in> set as. snd a = None)
      | Some (ContextDone e) \<Rightarrow> \<forall>a \<in> set as. snd a = None)"

lemma start_asked: "asked_inv n as s \<Longrightarrow> asked_inv n as (startSource n s)"
  by (auto simp: asked_inv_def startSource_def outboundIpConcurrency_def lessThan_Suc)

lemma startSource_empty: "inFlight (startSource n s) = [] \<Longrightarrow> n \<le> nextSource (startSource n s)"
  by (auto simp: startSource_def outboundIpConcurrency_def split: if_splits)

lemma loopHead_asked: "asked_inv n as (loopHead s) = asked_inv n as s"
  by (simp add: asked_inv_def loopHead_def)

lemma loop_ended:
  assumes "asked_inv n as s" and "outcome s = None" and "\<forall>a \<in> set as. snd a = None"
  shows "ended_ok n as (loopHead (startSource n s))"
proof (cases "inFlight (startSource n s) = []")
  case True
  have inv: "asked_inv n as (startSource n s)" using assms(1) by (rule start_asked)
  then have "nextSource (startSource n s) = n" using startSource_empty [OF True] by (simp add: asked_inv_def)
  with inv True have "distinct (map fst as)" "set (map fst as) = {..<n}" by (simp_all add: asked_inv_def)
  then have "length as = n" by (metis card_lessThan distinct_card length_map)
  then show ?thesis using True assms(3) by (simp add: ended_ok_def loopHead_def)
next
  case False
  moreover have "outcome (startSource n s) = None" using assms(2) by (simp add: startSource_def)
  ultimately show ?thesis using assms(3) by (simp add: ended_ok_def loopHead_def)
qed

lemma raceStep_ok:
  assumes "raceStep n ev s = Some s'" and "asked_inv n as s" and "ended_ok n as s"
  shows "asked_inv n (as @ answers [ev]) s' \<and> ended_ok n (as @ answers [ev]) s'"
proof -
  have open_: "outcome s = None" and none: "\<forall>a \<in> set as. snd a = None"
    using assms(1,3) by (auto simp: raceStep_def ended_ok_def split: if_splits)
  show ?thesis
  proof (cases ev)
    case (Answer i a)
    let ?s = "s\<lparr>inFlight := remove1 i (inFlight s)\<rparr>"
    have i: "i \<in> set (inFlight s)" using assms(1) Answer by (auto simp: raceStep_def split: if_splits)
    have asked: "asked_inv n (as @ [(i, a)]) ?s"
      using assms(2) i length_remove1 [of i "inFlight s"] by (auto simp: asked_inv_def)
    show ?thesis
    proof (cases a)
      case None
      then have "s' = loopHead (startSource n ?s)"
        using assms(1) Answer i open_ by (simp add: raceStep_def Let_def)
      moreover have "ended_ok n (as @ [(i, a)]) (loopHead (startSource n ?s))"
        using asked open_ none None by (intro loop_ended) auto
      ultimately show ?thesis
        using asked Answer by (simp add: loopHead_asked start_asked)
    next
      case (Some r)
      then have "s' = ?s\<lparr>outcome := Some (Won i r)\<rparr>"
        using assms(1) Answer i open_ by (simp add: raceStep_def Let_def)
      then show ?thesis using asked Answer Some none by (simp add: asked_inv_def ended_ok_def)
    qed
  next
    case Stagger
    then have "s' = loopHead (startSource n s)" using assms(1) open_ by (simp add: raceStep_def)
    then show ?thesis
      using Stagger assms(2) loop_ended [OF assms(2) open_ none] by (simp add: loopHead_asked start_asked)
  next
    case (Done e)
    then have "s' = s\<lparr>outcome := Some (ContextDone e)\<rparr>" using assms(1) open_ by (simp add: raceStep_def)
    then show ?thesis using Done assms(2) none by (simp add: asked_inv_def ended_ok_def)
  qed
qed

lemma raceRun_ok:
  assumes "raceRun n evs s = Some s'" and "asked_inv n as s" and "ended_ok n as s"
  shows "asked_inv n (as @ answers evs) s' \<and> ended_ok n (as @ answers evs) s'"
  using assms
proof (induction evs arbitrary: as s)
  case (Cons ev evs)
  then obtain s1 where s1: "raceStep n ev s = Some s1" "raceRun n evs s1 = Some s'"
    by (auto simp: bind_eq_Some_conv)
  have "answers (ev # evs) = answers [ev] @ answers evs" by (cases ev) simp_all
  then show ?case using Cons(1) [OF s1(2), of "as @ answers [ev]"] raceStep_ok [OF s1(1) Cons(3,4)] by simp
qed simp

lemma initRace_ok:
  "asked_inv n [] (initRace n :: 'r race) \<and> ended_ok n [] (initRace n :: 'r race)"
proof -
  let ?s = "\<lparr>nextSource = 0, inFlight = [], outcome = None\<rparr> :: 'r race"
  have "asked_inv n [] ?s" by (simp add: asked_inv_def)
  then show ?thesis
    using loop_ended [of n "[]" ?s] start_asked [of n "[]" ?s] by (simp add: initRace_def loopHead_asked)
qed

text \<open>
  \<^bold>\<open>C38.\<close> However the answers, the ticks and the end of the context are ordered: the sources are asked in the
  order of the list, each at most once and at most three at a time; the first usable answer ends the race and
  is the result; the race ends without one only when the context is done, or when every source was asked and
  answered nothing usable. As long as it has not ended a source is being asked, so it waits for something, and
  since each source answers once, it ends after at most as many answers as there are sources.
\<close>

theorem race_asks_every_source:
  fixes evs :: "'r raceEvent list"
  assumes "raceRun n evs (initRace n) = Some s"
  shows "length (inFlight s) \<le> 3 \<and> distinct (map fst (answers evs) @ inFlight s) \<and>
    set (map fst (answers evs) @ inFlight s) = {..<nextSource s} \<and> length (answers evs) \<le> n \<and>
    (case outcome s of
       None \<Rightarrow> inFlight s \<noteq> [] \<and> (\<forall>a \<in> set (answers evs). snd a = None)
     | Some (Won i r) \<Rightarrow> (\<exists>before. answers evs = before @ [(i, Some r)] \<and> (\<forall>a \<in> set before. snd a = None))
     | Some Exhausted \<Rightarrow> length (answers evs) = n \<and> (\<forall>a \<in> set (answers evs). snd a = None)
     | Some (ContextDone e) \<Rightarrow> \<forall>a \<in> set (answers evs). snd a = None)"
proof -
  have ok: "asked_inv n (answers evs) s" "ended_ok n (answers evs) s"
    using raceRun_ok [OF assms, of "[]"] initRace_ok [of n, where 'r = 'r] by simp_all
  have "length (map fst (answers evs) @ inFlight s) = nextSource s"
    using ok(1) by (metis asked_inv_def card_lessThan distinct_card)
  then have "length (answers evs) \<le> n" using ok(1) by (simp add: asked_inv_def)
  moreover have "\<exists>before. answers evs = before @ [(i, Some r)] \<and> (\<forall>a \<in> set before. snd a = None)"
    if "outcome s = Some (Won i r)" for i r
    using ok(2) that by (intro exI [of _ "butlast (answers evs)"]) (auto simp: ended_ok_def dest: append_butlast_last_id)
  then have "case outcome s of
       None \<Rightarrow> inFlight s \<noteq> [] \<and> (\<forall>a \<in> set (answers evs). snd a = None)
     | Some (Won i r) \<Rightarrow> (\<exists>before. answers evs = before @ [(i, Some r)] \<and> (\<forall>a \<in> set before. snd a = None))
     | Some Exhausted \<Rightarrow> length (answers evs) = n \<and> (\<forall>a \<in> set (answers evs). snd a = None)
     | Some (ContextDone e) \<Rightarrow> \<forall>a \<in> set (answers evs). snd a = None"
    using ok(2) by (simp add: ended_ok_def split: option.splits raceEnd.splits)
  ultimately show ?thesis using ok(1) by (simp add: asked_inv_def outboundIpConcurrency_def)
qed

text \<open>Three sources: the second answers nothing usable, the third is asked by the timer, and the first wins.\<close>

lemma race_asks_every_source_witness:
  "\<exists>s. raceRun 3 [Stagger, Answer 1 None, Stagger, Answer 0 (Some ''ip'')] (initRace 3) = Some s \<and>
     outcome s = Some (Won 0 ''ip'') \<and> inFlight s = [2] \<and> nextSource s = 3 \<and>
     distinct (map fst (answers [Stagger, Answer 1 None, Stagger, Answer 0 (Some ''ip'')]) @ inFlight s)"
proof -
  define s :: "string race" where "s = \<lparr>nextSource = 3, inFlight = [2], outcome = Some (Won 0 ''ip'')\<rparr>"
  have run: "raceRun 3 [Stagger, Answer 1 None, Stagger, Answer 0 (Some ''ip'')] (initRace 3) = Some s"
    by (simp add: s_def initRace_def loopHead_def startSource_def raceStep_def outboundIpConcurrency_def)
  then show ?thesis
    using race_asks_every_source [OF run] by (intro exI [of _ s]) (simp add: s_def)
qed

text \<open>A claim cancels exactly the lookups of older epochs, and none that is as new.\<close>

lemma claim_supersedes:
  assumes "claimOutboundIp claim e claims = (claims', cancelled)" and "gm_wf claims"
  shows "gm_wf claims' \<and> set cancelled = {c. \<exists>other. map_of claims c = Some other \<and> other < e} \<and>
    (\<forall>c other. map_of claims' c = Some other \<longrightarrow> e \<le> other) \<and> map_of claims' claim = Some e"
proof -
  have claims': "claims' = AList.update claim e (filter (\<lambda>(_, other). \<not> other < e) claims)"
    and cancelled: "cancelled = map fst (filter (\<lambda>(_, other). other < e) claims)"
    using assms(1) by (simp_all add: claimOutboundIp_def)
  have "map_of claims c = Some other \<longleftrightarrow> (c, other) \<in> set claims" for c other
    using assms(2) by (simp add: gm_wf_def)
  then have "set cancelled = {c. \<exists>other. map_of claims c = Some other \<and> other < e}"
    by (force simp: cancelled)
  moreover have "e \<le> other" if "map_of claims' c = Some other" for c other
    using that map_of_SomeD [of "filter (\<lambda>(_, other). \<not> other < e) claims" c other]
    by (auto simp: claims' update_conv' split: if_splits)
  ultimately show ?thesis using assms(2) by (simp add: claims' update_conv')
qed

lemma release_forgets: "map_of (releaseOutboundIp claim claims) claim = None"
  by (simp add: releaseOutboundIp_def delete_conv')

end
