(* ===== verification/Ownership.thy ===== *)
theory Ownership
  imports Prelude
begin

section \<open>Giving files back to the user (\<open>core/ownership_unix.go\<close>)\<close>

text \<open>
  A core that runs as root hands the files of its home directory back to the user who started it. Anything
  may happen to the file system between two system calls, so the world answers each call by its place in the
  run: \<open>openAt t\<close> is what the \<open>t\<close>-th call answers if it opens. The calls made are kept in a trace;
  the calls of one run of a function stand together in it, for no run uses the descriptors of another.
\<close>

subsection \<open>The world\<close>

datatype fileType = Directory | Regular | Symlink | OtherFile

record Stat =
  st_dev :: nat
  st_ino :: nat
  st_type :: fileType
  st_uid :: nat
  st_nlink :: nat

type_synonym fd = nat

datatype sysCall = Lstat string | WalkDir string | Open string | Fstat fd | Fchown fd nat nat | Close fd

record world =
  lstatAt :: "nat \<Rightarrow> string \<Rightarrow> (string, Stat) result"
  walkAt :: "nat \<Rightarrow> string \<Rightarrow> (string \<times> (string, Stat) result) list"   \<comment> \<open>what \<open>filepath.WalkDir\<close> visits\<close>
  openAt :: "nat \<Rightarrow> string \<Rightarrow> (string, fd) result"       \<comment> \<open>with \<open>O_NOFOLLOW\<close>\<close>
  fstatAt :: "nat \<Rightarrow> fd \<Rightarrow> (string, Stat) result"
  fchownAt :: "nat \<Rightarrow> fd \<Rightarrow> string option"

record process =
  euid :: nat
  realUid :: nat
  realGid :: nat

definition isElevated :: "process \<Rightarrow> bool" where
  "isElevated p \<longleftrightarrow> euid p = 0 \<and> realUid p \<noteq> 0"

subsection \<open>What may be handed back\<close>

definition canReclaim :: "world \<Rightarrow> string \<Rightarrow> nat \<Rightarrow> sysCall list \<Rightarrow> bool \<times> sysCall list" where
  "canReclaim w homeDir uid tr =
     (if homeDir = [] then (False, tr)
      else ((case lstatAt w (length tr) homeDir of
               Inl _ \<Rightarrow> False
             | Inr s \<Rightarrow> st_type s = Directory \<and> st_uid s = uid), tr @ [Lstat homeDir]))"

definition shouldReclaimEntry :: "Stat \<Rightarrow> nat \<Rightarrow> bool" where
  "shouldReclaimEntry s uid \<longleftrightarrow>
     (if st_type s = Symlink then False
      else if st_uid s = uid then False
      else st_type s = Directory \<or> st_nlink s \<le> 1)"

record reclaimTarget =
  rt_path :: string
  rt_dev :: nat
  rt_ino :: nat

definition targetOf :: "string \<Rightarrow> Stat \<Rightarrow> reclaimTarget" where
  "targetOf path s = \<lparr>rt_path = path, rt_dev = st_dev s, rt_ino = st_ino s\<rparr>"

definition collectReclaimTargets ::
  "world \<Rightarrow> string \<Rightarrow> nat \<Rightarrow> sysCall list \<Rightarrow> reclaimTarget list \<times> sysCall list" where
  "collectReclaimTargets w homeDir uid tr =
     (case canReclaim w homeDir uid tr of
        (False, tr) \<Rightarrow> ([], tr)
      | (True, tr) \<Rightarrow>
          (List.map_filter (\<lambda>(path, info). case info of
              Inl _ \<Rightarrow> None
            | Inr s \<Rightarrow> if shouldReclaimEntry s uid then Some (targetOf path s) else None)
            (walkAt w (length tr) homeDir), tr @ [WalkDir homeDir]))"

definition isReclaimableStat :: "Stat \<Rightarrow> nat \<Rightarrow> bool" where
  "isReclaimableStat s uid \<longleftrightarrow>
     (case st_type s of
        Directory \<Rightarrow> st_uid s \<noteq> uid
      | Regular \<Rightarrow> if st_nlink s > 1 then False else st_uid s \<noteq> uid
      | _ \<Rightarrow> False)"

definition reclaimOpened ::
  "world \<Rightarrow> reclaimTarget \<Rightarrow> nat \<Rightarrow> nat \<Rightarrow> fd \<Rightarrow> sysCall list \<Rightarrow> (string, bool) result \<times> sysCall list" where
  "reclaimOpened w target uid gid fd tr =
     (let stat = fstatAt w (length tr) fd; tr = tr @ [Fstat fd]
      in case stat of
           Inl e \<Rightarrow> (Inl e, tr)
         | Inr s \<Rightarrow>
             if st_dev s \<noteq> rt_dev target \<or> st_ino s \<noteq> rt_ino target then (Inr False, tr)
             else if \<not> isReclaimableStat s uid then (Inr False, tr)
             else (case fchownAt w (length tr) fd of
                     Some e \<Rightarrow> (Inl e, tr @ [Fchown fd uid gid])
                   | None \<Rightarrow> (Inr True, tr @ [Fchown fd uid gid])))"

definition reclaimEntry ::
  "world \<Rightarrow> reclaimTarget \<Rightarrow> nat \<Rightarrow> nat \<Rightarrow> sysCall list \<Rightarrow> (string, bool) result \<times> sysCall list" where
  "reclaimEntry w target uid gid tr =
     (case openAt w (length tr) (rt_path target) of
        Inl e \<Rightarrow> (Inl e, tr @ [Open (rt_path target)])
      | Inr fd \<Rightarrow>
          (case reclaimOpened w target uid gid fd (tr @ [Open (rt_path target)]) of
             (r, tr) \<Rightarrow> (r, tr @ [Close fd])))"

fun reclaimAll :: "world \<Rightarrow> process \<Rightarrow> reclaimTarget list \<Rightarrow> nat \<Rightarrow> sysCall list \<Rightarrow> nat \<times> sysCall list" where
  "reclaimAll w p [] reclaimed tr = (reclaimed, tr)"
| "reclaimAll w p (target # targets) reclaimed tr =
     (case reclaimEntry w target (realUid p) (realGid p) tr of
        (Inl _, tr) \<Rightarrow> reclaimAll w p targets reclaimed tr
      | (Inr ok, tr) \<Rightarrow> reclaimAll w p targets (if ok then reclaimed + 1 else reclaimed) tr)"

definition reclaimOwnership :: "world \<Rightarrow> process \<Rightarrow> string \<Rightarrow> sysCall list \<Rightarrow> nat \<times> sysCall list" where
  "reclaimOwnership w p homeDir tr =
     (if \<not> isElevated p then (0, tr)
      else (case collectReclaimTargets w homeDir (realUid p) tr of
              (targets, tr) \<Rightarrow> if targets = [] then (0, tr) else reclaimAll w p targets 0 tr))"

definition reclaimDirOwnership :: "world \<Rightarrow> process \<Rightarrow> string \<Rightarrow> string \<Rightarrow> sysCall list \<Rightarrow> sysCall list" where
  "reclaimDirOwnership w p homeDir path tr =
     (if \<not> isElevated p then tr
      else (case canReclaim w homeDir (realUid p) tr of
              (False, tr) \<Rightarrow> tr
            | (True, tr) \<Rightarrow>
                (case lstatAt w (length tr) path of
                   Inl _ \<Rightarrow> tr @ [Lstat path]
                 | Inr s \<Rightarrow>
                     if st_type s \<noteq> Directory \<or> \<not> shouldReclaimEntry s (realUid p) then tr @ [Lstat path]
                     else snd (reclaimEntry w (targetOf path s) (realUid p) (realGid p) (tr @ [Lstat path])))))"

subsection \<open>When it happens\<close>

record ownership =
  reclaimHomeDir :: string
  reclaimPending :: bool
  sleeping :: "string list"      \<comment> \<open>the goroutines that sleep, by the home they will reclaim\<close>
  world_trace :: "sysCall list"

definition initOwnership :: "world \<Rightarrow> process \<Rightarrow> string \<Rightarrow> ownership \<Rightarrow> ownership" where
  "initOwnership w p homeDir s =
     s\<lparr>reclaimHomeDir := homeDir, world_trace := snd (reclaimOwnership w p homeDir (world_trace s))\<rparr>"

definition scheduleReclaimOwnership :: "process \<Rightarrow> ownership \<Rightarrow> ownership" where
  "scheduleReclaimOwnership p s =
     (if \<not> isElevated p then s
      else if reclaimHomeDir s = [] then s
      else if reclaimPending s then s
      else s\<lparr>reclaimPending := True, sleeping := sleeping s @ [reclaimHomeDir s]\<rparr>)"

inductive ownership_step :: "world \<Rightarrow> process \<Rightarrow> ownership \<Rightarrow> ownership \<Rightarrow> bool" for w p where
  step_init: "ownership_step w p s (initOwnership w p homeDir s)"
| step_schedule: "ownership_step w p s (scheduleReclaimOwnership p s)"
| step_dir: "ownership_step w p s (s\<lparr>world_trace := reclaimDirOwnership w p (reclaimHomeDir s) path (world_trace s)\<rparr>)"
| step_wake: "sleeping s = as @ homeDir # bs \<Longrightarrow>
    ownership_step w p s
      (s\<lparr>reclaimPending := False, sleeping := as @ bs,
         world_trace := snd (reclaimOwnership w p homeDir (world_trace s))\<rparr>)"

definition initOwner :: ownership where
  "initOwner = \<lparr>reclaimHomeDir = [], reclaimPending = False, sleeping = [], world_trace = []\<rparr>"

inductive ownership_reach :: "world \<Rightarrow> process \<Rightarrow> ownership \<Rightarrow> bool" for w p where
  reach_init: "ownership_reach w p initOwner"
| reach_step: "ownership_reach w p s \<Longrightarrow> ownership_step w p s t \<Longrightarrow> ownership_reach w p t"

subsection \<open>Every change of owner is justified\<close>

text \<open>
  A change of owner at a place of the trace is justified when the core is elevated, when it follows at once on
  an opening and a stat of the same descriptor, and when the stat answered a directory or a file with one name
  that the user does not own yet.
\<close>

definition justified :: "world \<Rightarrow> process \<Rightarrow> sysCall list \<Rightarrow> nat \<Rightarrow> bool" where
  "justified w p tr i \<longleftrightarrow>
     (\<forall>fd uid gid. tr ! i = Fchown fd uid gid \<longrightarrow>
        isElevated p \<and> uid = realUid p \<and> gid = realGid p \<and> 2 \<le> i \<and>
        (\<exists>path s. tr ! (i - 2) = Open path \<and> openAt w (i - 2) path = Inr fd \<and>
           tr ! (i - 1) = Fstat fd \<and> fstatAt w (i - 1) fd = Inr s \<and>
           st_uid s \<noteq> realUid p \<and> (st_type s = Directory \<or> st_type s = Regular \<and> st_nlink s \<le> 1)))"

definition all_justified :: "world \<Rightarrow> process \<Rightarrow> sysCall list \<Rightarrow> bool" where
  "all_justified w p tr \<longleftrightarrow> (\<forall>i < length tr. justified w p tr i)"

text \<open>The descriptors a trace leaves open.\<close>

fun open_fds :: "world \<Rightarrow> nat \<Rightarrow> sysCall list \<Rightarrow> fd list" where
  "open_fds w t [] = []"
| "open_fds w t (Open path # tr) =
     (case openAt w t path of Inl _ \<Rightarrow> open_fds w (Suc t) tr | Inr fd \<Rightarrow> fd # open_fds w (Suc t) tr)"
| "open_fds w t (c # tr) = open_fds w (Suc t) tr"

fun closed_fds :: "sysCall list \<Rightarrow> fd list" where
  "closed_fds [] = []"
| "closed_fds (Close fd # tr) = fd # closed_fds tr"
| "closed_fds (c # tr) = closed_fds tr"

lemma open_fds_append: "open_fds w t (tr @ us) = open_fds w t tr @ open_fds w (t + length tr) us"
  by (induction w t tr rule: open_fds.induct) (auto split: sum.split)

lemma closed_fds_append: "closed_fds (tr @ us) = closed_fds tr @ closed_fds us"
  by (induction tr rule: closed_fds.induct) auto

lemma justified_prefix: "i < length tr \<Longrightarrow> justified w p (tr @ us) i = justified w p tr i"
  unfolding justified_def by (auto simp: nth_append)

lemma justified_snoc:
  assumes "all_justified w p tr" and "justified w p (tr @ [c]) (length tr)"
  shows "all_justified w p (tr @ [c])"
  using assms justified_prefix [of _ tr w p "[c]"]
  by (auto simp: all_justified_def less_Suc_eq)

lemma justified_other: "(\<And>fd u g. c \<noteq> Fchown fd u g) \<Longrightarrow> justified w p (tr @ [c]) (length tr)"
  by (simp add: justified_def)

lemma all_justified_other:
  "all_justified w p tr \<Longrightarrow> (\<And>fd u g. c \<noteq> Fchown fd u g) \<Longrightarrow> all_justified w p (tr @ [c])"
  by (intro justified_snoc justified_other)

text \<open>A trace that balances its descriptors and justifies its changes.\<close>

definition sound :: "world \<Rightarrow> process \<Rightarrow> sysCall list \<Rightarrow> bool" where
  "sound w p tr \<longleftrightarrow> all_justified w p tr \<and> open_fds w 0 tr = closed_fds tr"

lemma sound_other:
  "sound w p tr \<Longrightarrow> (\<And>fd u g. c \<noteq> Fchown fd u g) \<Longrightarrow> (\<And>path. c \<noteq> Open path) \<Longrightarrow> (\<And>fd. c \<noteq> Close fd) \<Longrightarrow>
     sound w p (tr @ [c])"
  unfolding sound_def by (cases c) (auto intro: all_justified_other simp: open_fds_append closed_fds_append)

lemma sound_calls:
  "sound w p tr \<Longrightarrow> sound w p (tr @ [Lstat d])" "sound w p tr \<Longrightarrow> sound w p (tr @ [WalkDir d])"
  by (rule sound_other; simp)+

lemma reclaimEntry_sound:
  assumes "sound w p tr" and "isElevated p"
  shows "sound w p (snd (reclaimEntry w target (realUid p) (realGid p) tr))"
proof (cases "openAt w (length tr) (rt_path target)")
  case (Inl e)
  then show ?thesis
    using assms(1) by (auto simp: reclaimEntry_def sound_def open_fds_append closed_fds_append intro: all_justified_other)
next
  case (Inr fd)
  define t1 where "t1 = tr @ [Open (rt_path target)]"
  define t2 where "t2 = t1 @ [Fstat fd]"
  define t3 where "t3 = t2 @ [Fchown fd (realUid p) (realGid p)]"
  have j2: "all_justified w p t2"
    using assms(1) unfolding t2_def t1_def sound_def by (intro all_justified_other) simp_all
  have fds: "open_fds w 0 (t2 @ [Close fd]) = closed_fds (t2 @ [Close fd])"
    "open_fds w 0 (t3 @ [Close fd]) = closed_fds (t3 @ [Close fd])"
    using assms(1) Inr by (simp_all add: t3_def t2_def t1_def sound_def open_fds_append closed_fds_append)
  show ?thesis
  proof (cases "\<exists>s. fstatAt w (length t1) fd = Inr s \<and> st_dev s = rt_dev target \<and> st_ino s = rt_ino target \<and>
      isReclaimableStat s (realUid p)")
    case False
    then have "snd (reclaimEntry w target (realUid p) (realGid p) tr) = t2 @ [Close fd]"
      using Inr by (auto simp: reclaimEntry_def reclaimOpened_def t2_def t1_def Let_def split: sum.split)
    then show ?thesis
      using j2 fds(1) by (simp add: sound_def all_justified_other)
  next
    case True
    then obtain s where s: "fstatAt w (length t1) fd = Inr s" "st_dev s = rt_dev target" "st_ino s = rt_ino target"
        "isReclaimableStat s (realUid p)" by blast
    then have run: "snd (reclaimEntry w target (realUid p) (realGid p) tr) = t3 @ [Close fd]"
      using Inr by (auto simp: reclaimEntry_def reclaimOpened_def t3_def t2_def t1_def Let_def split: option.split)
    have len: "length t2 = length tr + 2" "length t1 = length tr + 1"
      by (simp_all add: t2_def t1_def)
    have "t3 ! (length t2 - 2) = Open (rt_path target)" "t3 ! (length t2 - 1) = Fstat fd"
      by (simp_all add: t3_def t2_def t1_def nth_append)
    moreover have "st_uid s \<noteq> realUid p \<and> (st_type s = Directory \<or> st_type s = Regular \<and> st_nlink s \<le> 1)"
      using s(4) by (auto simp: isReclaimableStat_def split: fileType.splits if_splits)
    moreover have "t3 ! length t2 = Fchown fd (realUid p) (realGid p)" by (simp add: t3_def)
    moreover have "openAt w (length t2 - 2) (rt_path target) = Inr fd" "fstatAt w (length t2 - 1) fd = Inr s"
      using Inr s(1) len by simp_all
    ultimately have "justified w p t3 (length t2)"
      using assms(2) len unfolding justified_def by auto
    then have "all_justified w p t3" unfolding t3_def by (intro justified_snoc [OF j2])
    then show ?thesis
      using fds(2) by (simp add: run sound_def all_justified_other)
  qed
qed

lemma reclaimAll_sound:
  "sound w p tr \<Longrightarrow> isElevated p \<Longrightarrow> sound w p (snd (reclaimAll w p targets n tr))"
proof (induction targets arbitrary: n tr)
  case Nil
  then show ?case by simp
next
  case (Cons target targets)
  obtain r tr1 where r: "reclaimEntry w target (realUid p) (realGid p) tr = (r, tr1)" by (meson surj_pair)
  have "sound w p tr1" using reclaimEntry_sound [OF Cons(2,3), of target] r by simp
  then show ?case using Cons(1) [of tr1] Cons(3) r by (simp split: sum.split)
qed

lemma canReclaim_sound: "sound w p tr \<Longrightarrow> sound w p (snd (canReclaim w d u tr))"
  by (simp add: canReclaim_def sound_calls)

lemma collect_sound: "sound w p tr \<Longrightarrow> sound w p (snd (collectReclaimTargets w d u tr))"
  using canReclaim_sound [of w p tr d u]
  by (auto simp: collectReclaimTargets_def sound_calls split: prod.split bool.split)

lemma reclaimOwnership_sound: "sound w p tr \<Longrightarrow> sound w p (snd (reclaimOwnership w p d tr))"
  using collect_sound [of w p tr d "realUid p"]
  by (auto simp: reclaimOwnership_def reclaimAll_sound split: prod.split)

lemma reclaimDir_sound: "sound w p tr \<Longrightarrow> sound w p (reclaimDirOwnership w p d path tr)"
  using canReclaim_sound [of w p tr d "realUid p"]
  by (auto simp: reclaimDirOwnership_def sound_calls reclaimEntry_sound split: prod.split bool.split sum.split)

text \<open>
  \<^bold>\<open>C31.\<close> In every reachable state, whatever happened to the file system between the core's calls, each
  change of owner was made by an elevated core, to the user it runs for, through a descriptor that it had just
  opened and that then was a directory or a file with no second name, not yet the user's; so no symbolic link
  and no other name of a file leads the core to a file of somebody else. No descriptor is left open. And at
  most one goroutine sleeps to reclaim, exactly when one is pending.
\<close>

lemma ownership_is_safe:
  assumes "ownership_reach w p s"
  shows "all_justified w p (world_trace s) \<and> open_fds w 0 (world_trace s) = closed_fds (world_trace s) \<and>
    length (sleeping s) = (if reclaimPending s then 1 else 0)"
proof -
  have "sound w p (world_trace s) \<and> length (sleeping s) = (if reclaimPending s then 1 else 0)"
    using assms
  proof (induction rule: ownership_reach.induct)
    case reach_init
    show ?case by (simp add: initOwner_def sound_def all_justified_def)
  next
    case (reach_step s t)
    from reach_step(2) show ?case
    proof cases
      case (step_init homeDir)
      then show ?thesis using reach_step(3) by (simp add: initOwnership_def reclaimOwnership_sound)
    next
      case step_schedule
      then show ?thesis using reach_step(3) by (auto simp: scheduleReclaimOwnership_def)
    next
      case (step_dir path)
      then show ?thesis using reach_step(3) by (simp add: reclaimDir_sound)
    next
      case (step_wake as homeDir bs)
      then show ?thesis using reach_step(3) by (auto simp: reclaimOwnership_sound split: if_splits)
    qed
  qed
  then show ?thesis by (simp add: sound_def)
qed

text \<open>A world with one file of root's in the user's home.\<close>

definition rootsFile :: world where
  "rootsFile =
     \<lparr>lstatAt = (\<lambda>t path. Inr \<lparr>st_dev = 1, st_ino = 2, st_type = Directory, st_uid = 501, st_nlink = 3\<rparr>),
      walkAt = (\<lambda>t path. [(''/h/cache'', Inr \<lparr>st_dev = 1, st_ino = 7, st_type = Regular, st_uid = 0, st_nlink = 1\<rparr>)]),
      openAt = (\<lambda>t path. Inr 5),
      fstatAt = (\<lambda>t fd. Inr \<lparr>st_dev = 1, st_ino = 7, st_type = Regular, st_uid = 0, st_nlink = 1\<rparr>),
      fchownAt = (\<lambda>t fd. None)\<rparr>"

definition userProcess :: process where
  "userProcess = \<lparr>euid = 0, realUid = 501, realGid = 20\<rparr>"

lemma rootsFile_run:
  "world_trace (initOwnership rootsFile userProcess ''/h'' initOwner) =
     [Lstat ''/h'', WalkDir ''/h'', Open ''/h/cache'', Fstat 5, Fchown 5 501 20, Close 5]"
  by (simp add: initOwnership_def reclaimOwnership_def isElevated_def userProcess_def collectReclaimTargets_def
      canReclaim_def rootsFile_def initOwner_def shouldReclaimEntry_def targetOf_def reclaimEntry_def reclaimOpened_def
      isReclaimableStat_def List.map_filter_def)

lemma ownership_is_safe_witness:
  "all_justified rootsFile userProcess
     [Lstat ''/h'', WalkDir ''/h'', Open ''/h/cache'', Fstat 5, Fchown 5 501 20, Close 5]"
  using ownership_is_safe [OF reach_step [OF reach_init step_init], of rootsFile userProcess "''/h''"]
  by (simp add: rootsFile_run)

end
