(* ===== verification/Hooks.thy ===== *)
theory Hooks
  imports LifecycleProofs RequestTraffic Proxies ProfileWrite Ownership
begin

section \<open>What mihomo reports (\<open>hooks.go\<close>, \<open>log.go\<close>, \<open>dns_query.go\<close>, \<open>certificate.go\<close>, \<open>filter.go\<close>, \<open>exit.go\<close>)\<close>

text \<open>
  The hooks the core sets into mihomo and the events they become, the pump of the log, and three small files:
  what is told of a DNS query, the relaxed check of certificates and the validation of filters. An event is a
  value handed to \<open>sendMessage\<close>; where the order of the core's own state matters a hook is a function on it.
\<close>

subsection \<open>DNS queries\<close>

datatype dnsAnswer = RecordA string | RecordAAAA string | RecordCNAME string | OtherRecord string string
  \<comment> \<open>an address as text, a target, or the text of the whole record and of its header\<close>

definition dnsAnswerValue :: "dnsAnswer \<Rightarrow> string" where
  "dnsAnswerValue rr =
     (case rr of
        RecordA a \<Rightarrow> a
      | RecordAAAA a \<Rightarrow> a
      | RecordCNAME target \<Rightarrow> trim_suffix ''.'' target
      | OtherRecord text header \<Rightarrow>
          trim_space (if has_prefix header text then drop (length header) text else text))"

record QueryRecord =
  qr_name :: string
  qr_type :: nat
  qr_initiator :: string
  qr_upstream :: string
  qr_cached :: bool
  qr_start :: int                                    \<comment> \<open>nanoseconds\<close>
  qr_err :: "string option"
  qr_msg :: "(nat \<times> dnsAnswer list) option"         \<comment> \<open>the return code and the answers\<close>

record DnsQuery =
  dq_domain :: string
  dq_type :: string
  dq_initiator :: string
  dq_upstream :: string
  dq_cached :: bool
  dq_answers :: "string list"
  dq_rcode :: string
  dq_error :: string
  dq_delay :: int
  dq_time :: int

definition newDnsQuery :: "(nat \<Rightarrow> string) \<Rightarrow> (nat \<Rightarrow> string) \<Rightarrow> int \<Rightarrow> QueryRecord \<Rightarrow> DnsQuery" where
  "newDnsQuery typeString rcodeString now r =
     (let query = \<lparr>dq_domain = trim_suffix ''.'' (qr_name r), dq_type = typeString (qr_type r),
            dq_initiator = qr_initiator r, dq_upstream = qr_upstream r, dq_cached = qr_cached r, dq_answers = [],
            dq_rcode = [], dq_error = [], dq_delay = (now - qr_start r) div millisecond, dq_time = qr_start r\<rparr>;
          query = (case qr_err r of None \<Rightarrow> query | Some e \<Rightarrow> query\<lparr>dq_error := e\<rparr>)
      in case qr_msg r of
           None \<Rightarrow> query
         | Some (rcode, answers) \<Rightarrow>
             query\<lparr>dq_rcode := rcodeString rcode, dq_answers := map dnsAnswerValue answers\<rparr>)"

subsection \<open>Filters\<close>

record ValidationIssue =
  vi_index :: nat
  vi_message :: string

text \<open>The first part of a filter that does not compile; \<open>compile\<close> is \<open>regexp2\<close>'s, with its message.\<close>

fun firstError :: "(string \<Rightarrow> string option) \<Rightarrow> string list \<Rightarrow> string option" where
  "firstError compile [] = None"
| "firstError compile (part # parts) = (case compile part of Some e \<Rightarrow> Some e | None \<Rightarrow> firstError compile parts)"

definition handleValidateFilters :: "(string \<Rightarrow> string option) \<Rightarrow> string list \<Rightarrow> ValidationIssue list" where
  "handleValidateFilters compile filters =
     List.map_filter (\<lambda>(i, filter). map_option (\<lambda>e. \<lparr>vi_index = i, vi_message = e\<rparr>)
         (firstError compile (split_on (CHR 0x60) filter)))
       (zip [0..<length filters] filters)"

subsection \<open>Certificates\<close>

text \<open>The settings of a connection that the hook changes; \<open>None\<close> is no check of its own.\<close>

record tlsConfig =
  InsecureSkipVerify :: bool
  VerifyConnection :: "(string list \<Rightarrow> bool) option"

text \<open>\<open>verifyPeer\<close> only decides whether a warning is logged, which is the second component.\<close>

definition acceptLogged :: "(string list \<Rightarrow> bool) \<Rightarrow> string list \<Rightarrow> bool \<times> bool" where
  "acceptLogged verifyPeer certificates =
     (if certificates = [] then (True, False) else (True, \<not> verifyPeer certificates))"

definition relaxCertVerify :: "bool \<Rightarrow> (string list \<Rightarrow> bool) \<Rightarrow> tlsConfig \<Rightarrow> tlsConfig" where
  "relaxCertVerify skip verifyPeer cfg =
     (if \<not> skip then cfg
      else cfg\<lparr>InsecureSkipVerify := True, VerifyConnection := Some (\<lambda>cs. fst (acceptLogged verifyPeer cs))\<rparr>)"

subsection \<open>Leaving\<close>

text \<open>\<open>inTime\<close>: the shutdown ends before \<open>exitCleanupTimeout\<close>. The result tells whether a notice is printed.\<close>

definition exitCleanupTimeout :: int where
  "exitCleanupTimeout = 3000 * millisecond"

definition releaseOnExit ::
  "('x, 's, 'g) outside \<Rightarrow> bool \<Rightarrow> ('x, 's, 'g) core \<Rightarrow> (('x, 's, 'g) core \<times> bool) option" where
  "releaseOnExit env inTime c =
     (if \<not> isInit c then Some (c, False)
      else map_option (\<lambda>c'. (if inTime then c' else c, \<not> inTime)) (handleShutdown env c))"

subsection \<open>Loops of dialers\<close>

definition dialerLoopReportInterval :: int where
  "dialerLoopReportInterval = 3000 * millisecond"

text \<open>The times of the last reports, and whether this one is sent.\<close>

definition reportDialerLoop :: "string \<Rightarrow> int \<Rightarrow> (string, int) gomap \<Rightarrow> (string, int) gomap \<times> bool" where
  "reportDialerLoop proxyName now reports =
     (case map_of reports proxyName of
        Some before \<Rightarrow>
          if now - before < dialerLoopReportInterval then (reports, False)
          else (AList.update proxyName now reports, True)
      | None \<Rightarrow> (AList.update proxyName now reports, True))"

fun reportAll :: "(string \<times> int) list \<Rightarrow> (string, int) gomap \<Rightarrow> (string \<times> int \<times> bool) list" where
  "reportAll [] reports = []"
| "reportAll ((name, now) # rs) reports =
     (case reportDialerLoop name now reports of (reports, told) \<Rightarrow> (name, now, told) # reportAll rs reports)"

subsection \<open>The other hooks\<close>

datatype 'c hookEvent =
    DelayEvent Delay
  | RequestEvent 'c
  | DnsEvent DnsQuery
  | LoadedEvent string

definition urlTestHook :: "string \<Rightarrow> string \<Rightarrow> 16 word \<Rightarrow> bool \<Rightarrow> 'c hookEvent list" where
  "urlTestHook url name delay timedOut = [DelayEvent \<lparr>dl_url = url, dl_name = name, dl_value = delayValue delay timedOut\<rparr>]"

text \<open>Whether the probes are told, the event, and whether the connection is watched.\<close>

definition requestNotify :: "bool \<Rightarrow> 'c \<Rightarrow> 'c hookEvent list \<times> bool" where
  "requestNotify hasListener c = (if hasListener then ([RequestEvent c], True) else ([], False))"

definition dnsNotify ::
  "(nat \<Rightarrow> string) \<Rightarrow> (nat \<Rightarrow> string) \<Rightarrow> int \<Rightarrow> bool \<Rightarrow> QueryRecord \<Rightarrow> 'c hookEvent list" where
  "dnsNotify typeString rcodeString now hasListener r =
     (if hasListener then [DnsEvent (newDnsQuery typeString rcodeString now r)] else [])"

text \<open>The timer that gives memory back to the system is left out.\<close>

definition providerLoadedHook :: "process \<Rightarrow> string \<Rightarrow> ownership \<Rightarrow> ownership \<times> 'c hookEvent list" where
  "providerLoadedHook p providerName s = (scheduleReclaimOwnership p s, [LoadedEvent providerName])"

subsection \<open>The log\<close>

text \<open>
  A subscription is the queue mihomo fills and the pump empties. The events are numbered as they are emitted;
  \<open>sent\<close> are the numbers of those that became messages.
\<close>

record pump =
  subscription :: "(nat \<times> nat) list"     \<comment> \<open>number and level\<close>
  stopped :: bool
  subscribed :: bool

record logs =
  pumps :: "pump list"
  activeLog :: "nat option"
  logLevel :: nat
  emitted :: nat
  sentLogs :: "nat list"

definition initLogs :: logs where
  "initLogs = \<lparr>pumps = [], activeLog = None, logLevel = 0, emitted = 0, sentLogs = []\<rparr>"

definition stopPump :: "pump \<Rightarrow> pump" where
  "stopPump p = p\<lparr>stopped := True, subscribed := False\<rparr>"

definition handleStartLog :: "logs \<Rightarrow> logs" where
  "handleStartLog s =
     (let ps = (case activeLog s of None \<Rightarrow> pumps s | Some i \<Rightarrow> (pumps s)[i := stopPump (pumps s ! i)])
      in s\<lparr>pumps := ps @ [\<lparr>subscription = [], stopped = False, subscribed = True\<rparr>], activeLog := Some (length ps)\<rparr>)"

definition handleStopLog :: "logs \<Rightarrow> logs" where
  "handleStopLog s =
     (case activeLog s of
        None \<Rightarrow> s
      | Some i \<Rightarrow> s\<lparr>pumps := (pumps s)[i := stopPump (pumps s ! i)], activeLog := None\<rparr>)"

text \<open>mihomo emits to everybody who is subscribed.\<close>

definition emitLog :: "nat \<Rightarrow> logs \<Rightarrow> logs" where
  "emitLog level s =
     s\<lparr>pumps := map (\<lambda>p. if subscribed p then p\<lparr>subscription := subscription p @ [(emitted s, level)]\<rparr> else p) (pumps s),
       emitted := emitted s + 1\<rparr>"

text \<open>One turn of the loop of \<open>run\<close>.\<close>

definition pumpTurn :: "nat \<Rightarrow> logs \<Rightarrow> logs" where
  "pumpTurn i s =
     (case subscription (pumps s ! i) of
        [] \<Rightarrow> s
      | (n, level) # rest \<Rightarrow>
          (let p = pumps s ! i; s = s\<lparr>pumps := (pumps s)[i := p\<lparr>subscription := rest\<rparr>]\<rparr>
           in if stopped p \<or> level < logLevel s then s else s\<lparr>sentLogs := sentLogs s @ [n]\<rparr>))"

inductive log_step :: "logs \<Rightarrow> logs \<Rightarrow> bool" where
  log_start: "log_step s (handleStartLog s)"
| log_stop: "log_step s (handleStopLog s)"
| log_emit: "log_step s (emitLog level s)"
| log_pump: "i < length (pumps s) \<Longrightarrow> log_step s (pumpTurn i s)"
| log_level: "log_step s (s\<lparr>logLevel := level\<rparr>)"

inductive log_reachable :: "logs \<Rightarrow> bool" where
  log_init: "log_reachable initLogs"
| log_next: "log_reachable s \<Longrightarrow> log_step s t \<Longrightarrow> log_reachable t"

subsection \<open>Properties\<close>

text \<open>Exactly the filters with a part that does not compile are reported, in order, by their index.\<close>

lemma firstError_None: "firstError compile parts = None \<longleftrightarrow> (\<forall>p \<in> set parts. compile p = None)"
  by (induction parts) (auto split: option.split)

lemma filters_reported:
  "i \<in> set (map vi_index (handleValidateFilters compile fs)) \<longleftrightarrow>
     i < length fs \<and> (\<exists>p \<in> set (split_on (CHR 0x60) (fs ! i)). compile p \<noteq> None)"
proof -
  have "i \<in> set (map vi_index (handleValidateFilters compile fs)) \<longleftrightarrow>
      (\<exists>f. (i, f) \<in> set (zip [0..<length fs] fs) \<and> firstError compile (split_on (CHR 0x60) f) \<noteq> None)"
    by (force simp: handleValidateFilters_def List.map_filter_def)
  moreover have "(i, f) \<in> set (zip [0..<length fs] fs) \<longleftrightarrow> i < length fs \<and> f = fs ! i" for f
    by (auto simp: in_set_zip) (metis add_0 diff_zero nth_upt length_upt)
  ultimately have "i \<in> set (map vi_index (handleValidateFilters compile fs)) \<longleftrightarrow>
      i < length fs \<and> firstError compile (split_on (CHR 0x60) (fs ! i)) \<noteq> None"
    by simp
  then show ?thesis using firstError_None [of compile "split_on (CHR 0x60) (fs ! i)"] by simp
qed

definition apart :: "string \<times> int \<times> bool \<Rightarrow> string \<times> int \<times> bool \<Rightarrow> bool" where
  "apart x y \<longleftrightarrow> (snd (snd x) \<and> snd (snd y) \<and> fst x = fst y \<longrightarrow> dialerLoopReportInterval \<le> fst (snd y) - fst (snd x))"

definition after_last :: "(string, int) gomap \<Rightarrow> string \<times> int \<times> bool \<Rightarrow> bool" where
  "after_last reports x \<longleftrightarrow>
     (snd (snd x) \<longrightarrow> (\<forall>l. map_of reports (fst x) = Some l \<longrightarrow> dialerLoopReportInterval \<le> fst (snd x) - l))"

lemma reportAll_gap:
  "list_all (after_last reports) (reportAll rs reports) \<and> sorted_wrt apart (reportAll rs reports)"
proof (induction rs reports rule: reportAll.induct)
  case (2 n t rs reports)
  obtain reports' told where r: "reportDialerLoop n t reports = (reports', told)" by (meson surj_pair)
  note IH = 2 [OF r [symmetric]]
  show ?case
  proof (cases told)
    case True
    then have r': "reports' = AList.update n t reports"
      and head: "\<forall>l. map_of reports n = Some l \<longrightarrow> dialerLoopReportInterval \<le> t - l"
      using r by (auto simp: reportDialerLoop_def split: option.splits if_splits)
    have "apart (n, t, told) x \<and> after_last reports x" if "x \<in> set (reportAll rs reports')" for x
    proof -
      have x: "after_last reports' x" using IH that by (simp add: list_all_iff)
      have "dialerLoopReportInterval \<le> fst (snd x) - t" if "snd (snd x)" "fst x = n"
        using x that by (simp add: after_last_def r' update_conv')
      moreover have "0 < dialerLoopReportInterval" by (simp add: dialerLoopReportInterval_def millisecond_def)
      ultimately show ?thesis
        using x head by (cases "fst x = n") (force simp: apart_def after_last_def r' update_conv')+
    qed
    then show ?thesis
      using IH head r True by (simp add: list_all_iff after_last_def)
  next
    case False
    then have "reports' = reports" using r by (auto simp: reportDialerLoop_def split: option.splits if_splits)
    then show ?thesis using IH r False by (simp add: after_last_def apart_def)
  qed
qed simp

lemma reportAll_covered:
  "reportAll rs reports = xs @ (n, t, False) # ys \<Longrightarrow>
     (\<exists>t'. (n, t', True) \<in> set xs \<and> t - t' < dialerLoopReportInterval) \<or>
     (\<exists>l. map_of reports n = Some l \<and> t - l < dialerLoopReportInterval)"
proof (induction rs reports arbitrary: xs rule: reportAll.induct)
  case (2 m u rs reports)
  obtain reports' told where r: "reportDialerLoop m u reports = (reports', told)" by (meson surj_pair)
  show ?case
  proof (cases xs)
    case Nil
    then show ?thesis using 2(2) r by (auto simp: reportDialerLoop_def split: option.splits if_splits)
  next
    case (Cons x xs')
    then have x: "x = (m, u, told)" "reportAll rs reports' = xs' @ (n, t, False) # ys" using 2(2) r by simp_all
    from 2(1) [OF r [symmetric] x(2)] show ?thesis
      using r x(1) Cons by (auto simp: reportDialerLoop_def update_conv' split: option.splits if_splits)
  qed
qed simp

text \<open>
  A proxy whose dials loop is reported at most once in three seconds, and every report that is not told
  has one of the same proxy that was told less than three seconds before it; proxies do not silence each other.
\<close>

lemma dialer_loops_reported:
  assumes "reportAll rs [] = xs @ (n, t, told) # ys"
  shows "if told then \<forall>t'. (n, t', True) \<in> set xs \<longrightarrow> dialerLoopReportInterval \<le> t - t'
    else \<exists>t'. (n, t', True) \<in> set xs \<and> t - t' < dialerLoopReportInterval"
proof (cases told)
  case True
  have "sorted_wrt apart (xs @ (n, t, told) # ys)"
    using reportAll_gap [of "[]" rs] assms by simp
  then show ?thesis using True by (auto simp: sorted_wrt_append apart_def)
next
  case False
  then show ?thesis using reportAll_covered [of rs "[]" xs n t ys] assms by simp
qed

definition activeQueue :: "logs \<Rightarrow> nat list" where
  "activeQueue s = (case activeLog s of None \<Rightarrow> [] | Some i \<Rightarrow> map fst (subscription (pumps s ! i)))"

definition log_inv :: "logs \<Rightarrow> bool" where
  "log_inv s \<longleftrightarrow>
     (\<forall>i < length (pumps s). if activeLog s = Some i then \<not> stopped (pumps s ! i) \<and> subscribed (pumps s ! i)
        else stopped (pumps s ! i) \<and> \<not> subscribed (pumps s ! i)) \<and>
     (\<forall>i. activeLog s = Some i \<longrightarrow> i < length (pumps s)) \<and>
     sorted_wrt (<) (sentLogs s @ activeQueue s) \<and> (\<forall>n \<in> set (sentLogs s @ activeQueue s). n < emitted s)"

lemma log_inv_step: "log_step s t \<Longrightarrow> log_inv s \<Longrightarrow> log_inv t"
proof (induction rule: log_step.induct)
  case (log_start s)
  then show ?case
    by (auto simp: log_inv_def handleStartLog_def Let_def stopPump_def activeQueue_def nth_append nth_list_update
        sorted_wrt_append split: option.splits if_splits)
next
  case (log_stop s)
  then show ?case
    by (auto simp: log_inv_def handleStopLog_def stopPump_def activeQueue_def nth_list_update sorted_wrt_append
        split: option.splits if_splits)
next
  case (log_emit s level)
  then show ?case
    by (auto simp: log_inv_def emitLog_def activeQueue_def sorted_wrt_append less_Suc_eq split: option.splits if_splits)
next
  case (log_pump i s)
  show ?case
  proof (cases "subscription (pumps s ! i)")
    case Nil
    then show ?thesis using log_pump by (simp add: pumpTurn_def)
  next
    case (Cons e rest)
    obtain n level where e: "e = (n, level)" by (cases e)
    show ?thesis
    proof (cases "activeLog s = Some i")
      case True
      then show ?thesis
        using log_pump Cons e
        by (auto simp: log_inv_def pumpTurn_def Let_def activeQueue_def nth_list_update sorted_wrt_append split: if_splits)
    next
      case False
      then show ?thesis
        using log_pump Cons e
        by (auto simp: log_inv_def pumpTurn_def Let_def activeQueue_def nth_list_update sorted_wrt_append
            split: if_splits option.splits)
    qed
  qed
next
  case (log_level s level)
  then show ?case by (cases "activeLog s") (simp_all add: log_inv_def activeQueue_def)
qed


text \<open>A log that is started again while its first pump still has an event in its queue.\<close>

definition restartedLog :: logs where
  "restartedLog = pumpTurn 0 (pumpTurn 1 (emitLog 2 (handleStartLog (emitLog 2 (handleStartLog initLogs)))))"

lemma restartedLog_reachable: "log_reachable restartedLog"
proof -
  let ?s = "emitLog 2 (handleStartLog (emitLog 2 (handleStartLog initLogs)))"
  have "log_reachable (emitLog 2 (handleStartLog initLogs))"
    by (rule log_next [OF log_next [OF log_init log_start] log_emit])
  then have "log_reachable ?s"
    by (rule log_next [OF log_next [OF _ log_start] log_emit])
  then have "log_reachable (pumpTurn 1 ?s)"
    by (rule log_next [OF _ log_pump]) (simp add: emitLog_def handleStartLog_def Let_def initLogs_def)
  then show ?thesis
    unfolding restartedLog_def
    by (rule log_next [OF _ log_pump])
      (simp add: emitLog_def handleStartLog_def Let_def initLogs_def pumpTurn_def stopPump_def)
qed


end
