(* ===== verification/Procfs.thy ===== *)
theory Procfs
  imports GoNumbers GoFields
begin

section \<open>Which user owns a socket (\<open>core/platform/procfs.go\<close>)\<close>

text \<open>
  Before Android 10 the core looks the owner of a connection up in the kernel's socket tables. The columns of
  interest are found once, in the heading of \<open>/proc/net/tcp\<close>; the tables are the argument \<open>fs\<close>, the contents
  of the files under \<open>/proc/net\<close> that open, and the byte order of the machine the argument \<open>little\<close>.
\<close>

subsection \<open>Columns\<close>

definition isBlank :: "char \<Rightarrow> bool" where
  "isBlank c \<longleftrightarrow> c = CHR '' '' \<or> c = CHR 0x09"

text \<open>The field of a row with this place, if there is one.\<close>

fun column :: "string \<Rightarrow> nat \<Rightarrow> string option" where
  "column row index =
     (let row = dropWhile isBlank row
      in if row = [] then None
         else (let field = takeWhile (\<lambda>c. \<not> isBlank c) row
               in case index of 0 \<Rightarrow> Some field | Suc i \<Rightarrow> column (drop (length field) row) i))"

declare column.simps [simp del]

lemma column_is_word:
  "column row index = (let ws = words_by isBlank row in if index < length ws then Some (ws ! index) else None)"
proof (induction row index rule: column.induct)
  case (1 row index)
  show ?case
  proof (cases "dropWhile isBlank row = []")
    case True
    then show ?thesis by (subst column.simps, subst words_by.simps) simp
  next
    case False
    then show ?thesis
      using 1 by (subst column.simps, subst words_by.simps)
        (auto simp: Let_def dropWhile_eq_drop split: nat.split)
  qed
qed

subsection \<open>The heading\<close>

record headerScan =
  txQueue :: bool
  rxQueue :: bool
  trSeen :: bool
  tmWhen :: bool
  netIndexOfLocal :: int
  netIndexOfUid :: int

definition initScan :: headerScan where
  "initScan = \<lparr>txQueue = False, rxQueue = False, trSeen = False, tmWhen = False,
     netIndexOfLocal = - 1, netIndexOfUid = - 1\<rparr>"

text \<open>Two pairs of headings stand over one column each.\<close>

definition scanHeading :: "nat \<times> string \<Rightarrow> headerScan \<Rightarrow> headerScan" where
  "scanHeading = (\<lambda>(idx, col) h.
     let offset = (if txQueue h \<and> rxQueue h then - 1 else 0) + (if trSeen h \<and> tmWhen h then - 1 else 0)
     in if col = ''tx_queue'' then h\<lparr>txQueue := True\<rparr>
        else if col = ''rx_queue'' then h\<lparr>rxQueue := True\<rparr>
        else if col = ''tr'' then h\<lparr>trSeen := True\<rparr>
        else if col = ''tm->when'' then h\<lparr>tmWhen := True\<rparr>
        else if col = ''local_address'' then h\<lparr>netIndexOfLocal := int idx + offset\<rparr>
        else if col = ''uid'' then h\<lparr>netIndexOfUid := int idx + offset\<rparr>
        else h)"

definition newline :: char where
  "newline = CHR 0x0A"

definition dropCR :: "string \<Rightarrow> string" where
  "dropCR l = (if l \<noteq> [] \<and> last l = CHR 0x0D then butlast l else l)"

text \<open>\<open>ReadLine\<close> of a reader with its 4096 bytes: the first line, cut off there if it is longer.\<close>

definition readLine :: "string \<Rightarrow> string option" where
  "readLine content =
     (if content = [] then None
      else let (line, _, ended) = cut_at newline content
           in Some (if length line < 4096 then (if ended then dropCR line else line) else take 4096 line))"

definition readHeader :: "(string \<Rightarrow> string option) \<Rightarrow> headerScan" where
  "readHeader fs =
     (case fs ''/proc/net/tcp'' of
        None \<Rightarrow> initScan
      | Some content \<Rightarrow>
          (case readLine content of
             None \<Rightarrow> initScan
           | Some header \<Rightarrow>
               let columns = words_by isSpace header
               in fold scanHeading (zip [0..<length columns] columns) initScan))"

subsection \<open>The rows\<close>

fun nativeEndianIP :: "bool \<Rightarrow> string \<Rightarrow> string" where
  "nativeEndianIP little (a # b # c # d # ip) =
     (if little then [d, c, b, a] else [a, b, c, d]) @ nativeEndianIP little ip"
| "nativeEndianIP little _ = []"      \<comment> \<open>addresses have 4 or 16 bytes\<close>

definition hexByte :: "nat \<Rightarrow> string" where
  "hexByte n = [hex_digit (n div 16), hex_digit (n mod 16)]"

definition localAddressColumn :: "bool \<Rightarrow> string \<Rightarrow> int \<Rightarrow> string" where
  "localAddressColumn little sIP sPort =
     (let port = nat (sPort mod 65536)
      in concat (map (\<lambda>c. hexByte (code c)) (nativeEndianIP little sIP)) @ '':'' @
         hexByte (port div 256) @ hexByte (port mod 256))"

text \<open>The lines of a \<open>bufio.Scanner\<close>, which gives up at a line of 64 KiB.\<close>

definition scanLines :: "string \<Rightarrow> string list" where
  "scanLines content =
     (let ls = split_on newline content;
          ls = (if last ls = [] then butlast ls else ls)
      in map dropCR (takeWhile (\<lambda>l. length l < 65536) ls))"

fun scanRows :: "string \<Rightarrow> nat \<Rightarrow> nat \<Rightarrow> string list \<Rightarrow> int" where
  "scanRows loc indexOfLocal indexOfUid [] = - 1"
| "scanRows loc indexOfLocal indexOfUid (row # rows) =
     (if \<not> (case column row indexOfLocal of None \<Rightarrow> False | Some c \<Rightarrow> equal_fold_ascii loc c)
      then scanRows loc indexOfLocal indexOfUid rows
      else (case column row indexOfUid of
              None \<Rightarrow> - 1
            | Some uidColumn \<Rightarrow> (case atoi uidColumn of None \<Rightarrow> - 1 | Some uid \<Rightarrow> uid)))"

definition doQuery :: "bool \<Rightarrow> headerScan \<Rightarrow> (string \<Rightarrow> string option) \<Rightarrow> string \<Rightarrow> string \<Rightarrow> int \<Rightarrow> int" where
  "doQuery little h fs path sIP sPort =
     (case fs path of
        None \<Rightarrow> - 1
      | Some content \<Rightarrow>
          scanRows (localAddressColumn little sIP sPort) (nat (netIndexOfLocal h)) (nat (netIndexOfUid h))
            (scanLines content))"

subsection \<open>The query\<close>

text \<open>\<open>net.IP\<close>'s \<open>To16\<close> and \<open>To4\<close>.\<close>

definition v4InV6Prefix :: string where
  "v4InV6Prefix = replicate 10 CHR 0x00 @ [CHR 0xFF, CHR 0xFF]"

definition to16 :: "string \<Rightarrow> string option" where
  "to16 ip = (if length ip = 4 then Some (v4InV6Prefix @ ip) else if length ip = 16 then Some ip else None)"

definition to4 :: "string \<Rightarrow> string option" where
  "to4 ip =
     (if length ip = 4 then Some ip
      else if length ip = 16 \<and> take 12 ip = v4InV6Prefix then Some (drop 12 ip) else None)"

datatype netAddr = TCPAddr string int | UDPAddr string int | OtherAddr string

fun networkOf :: "netAddr \<Rightarrow> string" where
  "networkOf (TCPAddr _ _) = ''tcp''"
| "networkOf (UDPAddr _ _) = ''udp''"
| "networkOf (OtherAddr network) = network"

fun ipPortOf :: "netAddr \<Rightarrow> (string \<times> int) option" where
  "ipPortOf (TCPAddr ip port) = Some (ip, port)"
| "ipPortOf (UDPAddr ip port) = Some (ip, port)"
| "ipPortOf (OtherAddr _) = None"

definition QuerySocketUidFromProcFs :: "bool \<Rightarrow> headerScan \<Rightarrow> (string \<Rightarrow> string option) \<Rightarrow> netAddr \<Rightarrow> int" where
  "QuerySocketUidFromProcFs little h fs source =
     (if netIndexOfLocal h < 0 \<or> netIndexOfUid h < 0 then - 1
      else
        let network = networkOf source;
            network = (if network \<noteq> [] \<and> last network \<in> {CHR ''4'', CHR ''6''} then butlast network else network);
            path = ''/proc/net/'' @ network
        in case ipPortOf source of
             None \<Rightarrow> - 1
           | Some (ip, sPort) \<Rightarrow>
               (case to16 ip of
                  None \<Rightarrow> - 1
                | Some ip16 \<Rightarrow>
                    let uid = doQuery little h fs (path @ ''6'') ip16 sPort
                    in if uid = - 1
                       then (case to4 ip16 of None \<Rightarrow> - 1 | Some ip4 \<Rightarrow> doQuery little h fs path ip4 sPort)
                       else uid))"

subsection \<open>What the kernel prints\<close>

text \<open>
  The kernel prints an address word by word with \<open>%08X\<close>, each word read in the byte order of the machine, and
  the port with \<open>%04X\<close>.
\<close>

fun hexN :: "nat \<Rightarrow> nat \<Rightarrow> string" where
  "hexN 0 v = []"
| "hexN (Suc k) v = hexN k (v div 16) @ [upper_byte (hex_digit (v mod 16))]"

definition kernelWord :: "bool \<Rightarrow> nat \<Rightarrow> nat \<Rightarrow> nat \<Rightarrow> nat \<Rightarrow> nat" where
  "kernelWord little a b c d =
     (if little then a + 256 * b + 65536 * c + 16777216 * d else d + 256 * c + 65536 * b + 16777216 * a)"

fun kernelIP :: "bool \<Rightarrow> string \<Rightarrow> string" where
  "kernelIP little (a # b # c # d # ip) =
     hexN 8 (kernelWord little (code a) (code b) (code c) (code d)) @ kernelIP little ip"
| "kernelIP little _ = []"

record socket =
  sk_ip :: string
  sk_port :: nat
  sk_uid :: nat

definition okSocket :: "nat \<Rightarrow> socket \<Rightarrow> bool" where
  "okSocket len s \<longleftrightarrow> length (sk_ip s) = len \<and> sk_port s < 65536 \<and> sk_uid s < 2 ^ 32"

definition cleanLine :: "string \<Rightarrow> bool" where
  "cleanLine l \<longleftrightarrow> newline \<notin> set l \<and> CHR 0x0D \<notin> set l \<and> length l < 4096"

definition showsSocket :: "bool \<Rightarrow> string \<Rightarrow> socket \<Rightarrow> bool" where
  "showsSocket little row s \<longleftrightarrow> cleanLine row \<and>
     (let ws = words_by isBlank row
      in 7 < length ws \<and> ws ! 1 = kernelIP little (sk_ip s) @ '':'' @ hexN 4 (sk_port s) \<and>
         ws ! 7 = dec_digits (sk_uid s))"

definition printLines :: "string list \<Rightarrow> string" where
  "printLines ls = concat (map (\<lambda>l. l @ [newline]) ls)"

text \<open>A table: a heading that names its second column, and a row for each socket.\<close>

definition socketTable :: "bool \<Rightarrow> nat \<Rightarrow> string \<Rightarrow> socket list \<Rightarrow> bool" where
  "socketTable little len content socks \<longleftrightarrow>
     (\<exists>header rows. content = printLines (header # rows) \<and> cleanLine header \<and>
        column header 1 = Some ''local_address'' \<and> list_all2 (showsSocket little) rows socks \<and>
        list_all (okSocket len) socks)"

definition tcpHeadings :: "string list" where
  "tcpHeadings = [''sl'', ''local_address'', ''rem_address'', ''st'', ''tx_queue'', ''rx_queue'', ''tr'',
     ''tm->when'', ''retrnsmt'', ''uid'', ''timeout'', ''inode'']"

subsection \<open>Hexadecimal columns\<close>

lemma code_lt_256: "code c < 256"
  by (simp add: code_def nat_of_char_less_256)

lemma hexN_byte: "b < 256 \<Longrightarrow> hexN (Suc (Suc k)) (b + 256 * v) = hexN k v @ hexN 2 b"
proof -
  assume b: "b < 256"
  have "(b + 256 * v) div 16 = b div 16 + 16 * v" by linarith
  moreover have "(b div 16 + 16 * v) div 16 = v" "(b div 16 + 16 * v) mod 16 = b div 16"
    using b by auto
  moreover have "(b + 256 * v) mod 16 = b mod 16" by (simp add: mod_add_eq [symmetric] mod_mult_eq)
  ultimately show ?thesis using b by (simp add: numeral_2_eq_2)
qed

lemma hexN_word:
  assumes "a < 256" "b < 256" "c < 256"
  shows "hexN 8 (a + 256 * b + 65536 * c + 16777216 * d) = hexN 2 d @ hexN 2 c @ hexN 2 b @ hexN 2 a"
proof -
  have "a + 256 * b + 65536 * c + 16777216 * d = a + 256 * (b + 256 * (c + 256 * d))" by simp
  moreover have "hexN 8 = hexN (Suc (Suc (Suc (Suc (Suc (Suc 2))))))" by simp
  ultimately show ?thesis using assms by (simp only: hexN_byte append_assoc)
qed

lemma hexN_kernelWord:
  "hexN 8 (kernelWord little (code a) (code b) (code c) (code d)) =
     (if little then hexN 2 (code d) @ hexN 2 (code c) @ hexN 2 (code b) @ hexN 2 (code a)
      else hexN 2 (code a) @ hexN 2 (code b) @ hexN 2 (code c) @ hexN 2 (code d))"
  unfolding kernelWord_def by (simp only: hexN_word code_lt_256 split: if_split) simp

lemma upper_hexByte: "n < 256 \<Longrightarrow> map upper_byte (hexByte n) = hexN 2 n"
  by (simp add: hexByte_def numeral_2_eq_2)

lemma upper_ip: "map upper_byte (concat (map (\<lambda>c. hexByte (code c)) (nativeEndianIP little ip))) = kernelIP little ip"
  by (induction little ip rule: nativeEndianIP.induct)
    (simp_all add: upper_hexByte code_lt_256 hexN_kernelWord del: hexN.simps)

lemma upper_colon: "upper_byte (CHR '':'') = CHR '':''"
  by (simp add: upper_byte_def code_def)

lemma upper_localAddress:
  assumes "port < 65536"
  shows "map upper_byte (localAddressColumn little ip (int port)) = kernelIP little ip @ '':'' @ hexN 4 port"
proof -
  have four: "(4 :: nat) = Suc (Suc 2)" by simp
  have "hexN (Suc (Suc 2)) (port mod 256 + 256 * (port div 256)) = hexN 2 (port div 256) @ hexN 2 (port mod 256)"
    by (rule hexN_byte) simp
  then have "hexN 4 port = hexN 2 (port div 256) @ hexN 2 (port mod 256)" unfolding four by simp
  moreover have "nat (int port mod 65536) = port" using assms by simp
  ultimately show ?thesis
    using assms by (simp add: localAddressColumn_def Let_def upper_ip upper_hexByte less_mult_imp_div_less upper_colon)
qed

fun unhex :: "char \<Rightarrow> nat" where
  "unhex c = (if code c < 65 then code c - 48 else code c - 55)"

lemma unhex_digit: "n < 16 \<Longrightarrow> unhex (upper_byte (hex_digit n)) = n"
  by (auto simp: hex_digit_def upper_byte_def code_def)

lemma upper_hex_upper: "n < 16 \<Longrightarrow> upper_byte (upper_byte (hex_digit n)) = upper_byte (hex_digit n)"
  by (auto simp: hex_digit_def upper_byte_def code_def)

lemma hexN_inject: "v < 16 ^ k \<Longrightarrow> w < 16 ^ k \<Longrightarrow> hexN k v = hexN k w \<Longrightarrow> v = w"
proof (induction k arbitrary: v w)
  case (Suc k)
  have "v mod 16 = w mod 16" using Suc(4) unhex_digit [of "v mod 16"] unhex_digit [of "w mod 16"] by simp
  moreover have "v div 16 = w div 16" using Suc by (intro Suc(1)) auto
  ultimately show ?case by (metis div_mult_mod_eq)
qed simp

lemma length_hexN [simp]: "length (hexN k v) = k"
  by (induction k v rule: hexN.induct) auto

lemma upper_hexN: "map upper_byte (hexN k v) = hexN k v"
  by (induction k v rule: hexN.induct) (auto simp: upper_hex_upper)

lemma upper_kernelIP: "map upper_byte (kernelIP little ip) = kernelIP little ip"
  by (induction little ip rule: kernelIP.induct) (auto simp: upper_hexN)

declare hexN.simps [simp del]

lemma length_kernelIP: "length (kernelIP little ip) = 8 * (length ip div 4)"
proof (induction little ip rule: kernelIP.induct)
  case (1 little a b c d ip)
  have "length (a # b # c # d # ip) div 4 = Suc (length ip div 4)" by simp
  with 1 show ?case by simp
qed auto

lemma code_inject: "code c = code d \<Longrightarrow> c = d"
  by (simp add: code_def)

lemma hexN_code_inject: "hexN 2 (code c) = hexN 2 (code d) \<longleftrightarrow> c = d"
  using hexN_inject [of "code c" 2 "code d"] code_inject code_lt_256 by auto

lemma kernelIP_inject:
  "length ip = length ip' \<Longrightarrow> length ip mod 4 = 0 \<Longrightarrow> kernelIP little ip = kernelIP little ip' \<Longrightarrow> ip = ip'"
proof (induction little ip arbitrary: ip' rule: kernelIP.induct)
  case (1 little a b c d ip)
  from 1(2) obtain a' b' c' d' ip'' where ip': "ip' = a' # b' # c' # d' # ip''"
    by (auto simp: length_Suc_conv Suc_length_conv eval_nat_numeral)
  have "length ip mod 4 = 0" using 1(3) by simp
  with 1 show ?case by (auto simp: ip' hexN_kernelWord hexN_code_inject split: if_splits)
qed (auto)

lemma same_column:
  assumes "length ip = length ip'" "length ip mod 4 = 0" "port < 65536" "port' < 65536"
  shows "equal_fold_ascii (localAddressColumn little ip (int port)) (kernelIP little ip' @ '':'' @ hexN 4 port') \<longleftrightarrow>
    ip = ip' \<and> port = port'"
  using assms kernelIP_inject [of ip ip' little] hexN_inject [of port 4 port']
  by (auto simp: equal_fold_ascii_def upper_localAddress upper_kernelIP upper_hexN upper_colon length_kernelIP)

subsection \<open>Reading the lines back\<close>

lemma split_on_clean: "newline \<notin> set l \<Longrightarrow> split_on newline (l @ newline # s) = l # split_on newline s"
  by (induction l) auto

lemma split_on_printLines:
  "list_all (\<lambda>l. newline \<notin> set l) ls \<Longrightarrow> split_on newline (printLines ls) = ls @ [[]]"
  by (induction ls) (auto simp: printLines_def split_on_clean)

lemma dropCR_clean: "CHR 0x0D \<notin> set l \<Longrightarrow> dropCR l = l"
  using last_in_set by (fastforce simp: dropCR_def)

lemma scanLines_printLines: "list_all cleanLine ls \<Longrightarrow> scanLines (printLines ls) = ls"
proof -
  assume clean: "list_all cleanLine ls"
  then have "\<forall>l \<in> set ls. length l < 65536" "map dropCR ls = ls"
    by (auto simp: list_all_iff cleanLine_def dropCR_clean intro!: map_idI)
  then have "takeWhile (\<lambda>l. length l < 65536) ls = ls" "map dropCR ls = ls"
    by (simp_all add: takeWhile_eq_all_conv)
  moreover have "split_on newline (printLines ls) = ls @ [[]]"
    using clean by (intro split_on_printLines) (auto simp: list_all_iff cleanLine_def)
  ultimately show ?thesis by (simp add: scanLines_def takeWhile_eq_all_conv [THEN iffD2])
qed

lemma cut_at_clean: "newline \<notin> set l \<Longrightarrow> cut_at newline (l @ newline # s) = (l, s, True)"
  by (induction l) auto

lemma readLine_printLines: "cleanLine l \<Longrightarrow> readLine (printLines (l # ls)) = Some l"
  by (simp add: readLine_def printLines_def cleanLine_def cut_at_clean dropCR_clean)

lemma heading_indices:
  assumes "fs ''/proc/net/tcp'' = Some (printLines (header # rest))" and "cleanLine header"
    and "words_by isSpace header = tcpHeadings"
  shows "netIndexOfLocal (readHeader fs) = 1" "netIndexOfUid (readHeader fs) = 7"
  using assms by (simp_all add: readHeader_def readLine_printLines tcpHeadings_def scanHeading_def initScan_def upt_rec)

subsection \<open>A table is searched like the list of its sockets\<close>

lemma scanRows_find:
  assumes "list_all2 (showsSocket little) rows socks" and "list_all (okSocket (length ip)) socks"
    and "length ip mod 4 = 0" and "port < 65536"
  shows "scanRows (localAddressColumn little ip (int port)) 1 7 rows =
    (case find (\<lambda>s. sk_ip s = ip \<and> sk_port s = port) socks of None \<Rightarrow> - 1 | Some s \<Rightarrow> int (sk_uid s))"
  using assms(1,2)
proof (induction rows socks rule: list_all2_induct)
  case (Cons row rows s socks)
  have ok: "length (sk_ip s) = length ip" "sk_port s < 65536" "int (sk_uid s) < 2 ^ 63"
    using Cons(4) by (auto simp: okSocket_def)
  have "column row 1 = Some (kernelIP little (sk_ip s) @ '':'' @ hexN 4 (sk_port s))"
    "column row 7 = Some (dec_digits (sk_uid s))"
    using Cons(1) by (auto simp: showsSocket_def column_is_word Let_def)
  moreover have "list_all (okSocket (length ip)) socks" using Cons(4) by simp
  ultimately show ?case
    using Cons(3) ok same_column [of ip "sk_ip s" port "sk_port s" little] assms(3,4)
    by (auto simp: atoi_dec_digits)
qed simp

lemma heading_no_match:
  assumes "port < 65536"
  shows "\<not> equal_fold_ascii (localAddressColumn little ip (int port)) ''local_address''"
proof
  assume "equal_fold_ascii (localAddressColumn little ip (int port)) ''local_address''"
  then have "kernelIP little ip @ '':'' @ hexN 4 port = map upper_byte ''local_address''"
    by (simp only: equal_fold_ascii_def upper_localAddress [OF assms])
  then have "CHR '':'' \<in> set (map upper_byte ''local_address'')"
    by (metis in_set_conv_decomp append_Cons append_Nil)
  moreover have "CHR '':'' \<notin> set (map upper_byte ''local_address'')" by code_simp
  ultimately show False by simp
qed

lemma doQuery_find:
  assumes "fs path = Some content" and "socketTable little (length ip) content socks"
    and "netIndexOfLocal h = 1" and "netIndexOfUid h = 7"
    and "length ip mod 4 = 0" and "port < 65536"
  shows "doQuery little h fs path ip (int port) =
    (case find (\<lambda>s. sk_ip s = ip \<and> sk_port s = port) socks of None \<Rightarrow> - 1 | Some s \<Rightarrow> int (sk_uid s))"
proof -
  obtain header rows where t: "content = printLines (header # rows)" "cleanLine header"
      "column header 1 = Some ''local_address''" "list_all2 (showsSocket little) rows socks"
      "list_all (okSocket (length ip)) socks"
    using assms(2) by (auto simp: socketTable_def)
  have "list_all cleanLine rows"
    using t(4) by (auto simp: list_all_length list_all2_conv_all_nth showsSocket_def)
  then have "scanLines content = header # rows" using t(1,2) by (simp add: scanLines_printLines)
  moreover have "scanRows (localAddressColumn little ip (int port)) 1 7 (header # rows) =
      scanRows (localAddressColumn little ip (int port)) 1 7 rows"
    using t(3) heading_no_match [OF assms(6)] by simp
  ultimately show ?thesis
    using scanRows_find [OF t(4,5) assms(5,6)] assms(1,3,4) by (simp add: doQuery_def)
qed

lemma to4_of_to16: "to16 ip = Some ip16 \<Longrightarrow> to4 ip16 = to4 ip"
  by (auto simp: to16_def to4_def v4InV6Prefix_def split: if_splits)

text \<open>
  \<^bold>\<open>C32.\<close> However the kernel spaces its tables, in whichever byte order, the query tells the owner of the first
  socket bound to the given address and port: it looks among the IPv6 sockets first, under the mapped address
  if the connection is IPv4, and then among the IPv4 sockets; it answers -1 exactly if neither table has one.
  What is found are the fields under the headings \<open>local_address\<close> and \<open>uid\<close>, although two of the columns
  stand under two headings each.
\<close>

theorem socket_owner_found:
  assumes "fs ''/proc/net/tcp'' = Some (printLines (header # rest))" and "cleanLine header"
    and "words_by isSpace header = tcpHeadings"
    and "(network, source) \<in> {(''tcp'', TCPAddr ip (int port)), (''udp'', UDPAddr ip (int port))}"
    and "length ip \<in> {4, 16}" and "port < 65536"
    and "fs (''/proc/net/'' @ network @ ''6'') = Some c6" and "socketTable little 16 c6 socks6"
    and "fs (''/proc/net/'' @ network) = Some c4" and "socketTable little 4 c4 socks4"
  shows "QuerySocketUidFromProcFs little (readHeader fs) fs source =
    (case find (\<lambda>s. Some (sk_ip s) = to16 ip \<and> sk_port s = port) socks6 of
       Some s \<Rightarrow> int (sk_uid s)
     | None \<Rightarrow>
         (case find (\<lambda>s. Some (sk_ip s) = to4 ip \<and> sk_port s = port) socks4 of
            Some s \<Rightarrow> int (sk_uid s)
          | None \<Rightarrow> - 1))"
proof -
  note idx = heading_indices [where fs = fs and header = header and rest = rest, OF assms(1-3)]
  obtain ip16 where ip16: "to16 ip = Some ip16" "length ip16 = 16"
    using assms(5) by (auto simp: to16_def v4InV6Prefix_def)
  have q6: "doQuery little (readHeader fs) fs (''/proc/net/'' @ network @ ''6'') ip16 (int port) =
      (case find (\<lambda>s. sk_ip s = ip16 \<and> sk_port s = port) socks6 of None \<Rightarrow> - 1 | Some s \<Rightarrow> int (sk_uid s))"
    using assms(7,8) ip16(2) by (intro doQuery_find [where fs = fs and content = c6, OF _ _ idx _ assms(6)]) simp_all
  have q4: "doQuery little (readHeader fs) fs (''/proc/net/'' @ network) ip4 (int port) =
      (case find (\<lambda>s. sk_ip s = ip4 \<and> sk_port s = port) socks4 of None \<Rightarrow> - 1 | Some s \<Rightarrow> int (sk_uid s))"
    if "to4 ip = Some ip4" for ip4
  proof -
    have "length ip4 = 4" using that by (auto simp: to4_def split: if_splits)
    then show ?thesis using assms(9,10) by (intro doQuery_find [where fs = fs and content = c4, OF _ _ idx _ assms(6)]) simp_all
  qed
  have none: "find (\<lambda>s. Some (sk_ip s) = None \<and> sk_port s = port) socks4 = None"
    by (simp add: find_None_iff)
  have run: "QuerySocketUidFromProcFs little (readHeader fs) fs source =
      (let uid = doQuery little (readHeader fs) fs (''/proc/net/'' @ network @ ''6'') ip16 (int port)
       in if uid = - 1
          then (case to4 ip of None \<Rightarrow> - 1
                | Some ip4 \<Rightarrow> doQuery little (readHeader fs) fs (''/proc/net/'' @ network) ip4 (int port))
          else uid)"
    using assms(4) ip16 to4_of_to16 [OF ip16(1)]
    by (cases "to4 ip") (auto simp: QuerySocketUidFromProcFs_def idx Let_def)
  show ?thesis
    unfolding run using q6 q4 none ip16(1) by (auto simp: Let_def split: option.splits)
qed

text \<open>The tables of a little-endian machine on which user 1000 listens on port 53 of the loopback address.\<close>

definition sampleHeading :: string where
  "sampleHeading = ''  sl  local_address rem_address   st tx_queue rx_queue tr tm->when retrnsmt   uid  timeout inode''"

definition sampleRow :: string where
  "sampleRow = ''   0: 0100007F:0035 00000000:0000 0A 00000000:00000000 00:00000000 00000000  1000        0 4711''"

definition sampleProc :: "string \<Rightarrow> string option" where
  "sampleProc path =
     (if path = ''/proc/net/tcp'' then Some (printLines [sampleHeading, sampleRow])
      else if path = ''/proc/net/tcp6'' then Some (printLines [sampleHeading])
      else None)"

definition loopback :: string where
  "loopback = map char_of [127, 0, 0, 1 :: nat]"

lemma sample_facts:
  "cleanLine sampleHeading" "words_by isSpace sampleHeading = tcpHeadings"
  "column sampleHeading 1 = Some ''local_address''"
  "cleanLine sampleRow" "words_by isBlank sampleRow ! 1 = ''0100007F:0035''"
  "words_by isBlank sampleRow ! 7 = ''1000''" "7 < length (words_by isBlank sampleRow)"
  by code_simp+

lemma hexN_numeral:
  "hexN (numeral k) v = hexN (pred_numeral k) (v div 16) @ [upper_byte (hex_digit (v mod 16))]"
  using hexN.simps(2) [of "pred_numeral k" v] unfolding numeral_eq_Suc [symmetric] .

lemma sample_hex:
  "kernelIP True loopback @ '':'' @ hexN 4 53 = ''0100007F:0035''" "dec_digits 1000 = ''1000''"
proof -
  show "dec_digits 1000 = ''1000''" by (simp add: dec_digits.simps, code_simp)
  show "kernelIP True loopback @ '':'' @ hexN 4 53 = ''0100007F:0035''"
    by (simp add: loopback_def kernelWord_def code_def hexN.simps hexN_numeral hex_digit_def upper_byte_def, code_simp)
qed

lemma sample_tables:
  "socketTable True 4 (printLines [sampleHeading, sampleRow]) [\<lparr>sk_ip = loopback, sk_port = 53, sk_uid = 1000\<rparr>]"
  "socketTable True 16 (printLines [sampleHeading]) []"
proof -
  have "showsSocket True sampleRow \<lparr>sk_ip = loopback, sk_port = 53, sk_uid = 1000\<rparr>"
    using sample_facts sample_hex by (simp add: showsSocket_def)
  then show "socketTable True 4 (printLines [sampleHeading, sampleRow]) [\<lparr>sk_ip = loopback, sk_port = 53, sk_uid = 1000\<rparr>]"
    unfolding socketTable_def using sample_facts(1,3)
    by (intro exI [of _ sampleHeading] exI [of _ "[sampleRow]"]) (simp add: okSocket_def loopback_def)
  show "socketTable True 16 (printLines [sampleHeading]) []"
    unfolding socketTable_def using sample_facts(1,3) by (intro exI [of _ sampleHeading] exI [of _ "[]"]) simp
qed

lemma socket_owner_found_witness:
  "QuerySocketUidFromProcFs True (readHeader sampleProc) sampleProc (TCPAddr loopback 53) = 1000"
  using socket_owner_found [where fs = sampleProc and header = sampleHeading and rest = "[sampleRow]"
      and network = "''tcp''" and ip = loopback and port = 53 and source = "TCPAddr loopback (int 53)" and little = True
      and ?c6.0 = "printLines [sampleHeading]" and ?socks6.0 = "[]"
      and ?c4.0 = "printLines [sampleHeading, sampleRow]" and ?socks4.0 = "[\<lparr>sk_ip = loopback, sk_port = 53, sk_uid = 1000\<rparr>]"]
    sample_facts sample_tables
  by (simp add: sampleProc_def to4_def loopback_def)

end
