(* ===== verification/FdLimit.thy ===== *)
theory FdLimit
  imports Prelude
begin

section \<open>Running out of descriptors (\<open>core/platform/limit.go\<close>)\<close>

text \<open>
  On Android every dial first asks whether the process is about to run out of file descriptors. What the
  system answers during one call is the environment \<open>fdEnv\<close>; a call is one step, its shared variables being
  atomic and its result not depending on a call that runs beside it except through them.
\<close>

datatype errno = EMFILE | ENFILE | OtherErrno

record fdEnv =
  now :: int                            \<comment> \<open>nanoseconds\<close>
  dupAnswer :: "(errno, nat) result"    \<comment> \<open>\<open>dup\<close> of the null device\<close>
  rlimitCur :: "nat option"             \<comment> \<open>\<open>getrlimit(RLIMIT_NOFILE)\<close>, if it succeeds\<close>
  openFdCount :: int                    \<comment> \<open>entries of \<open>/proc/self/fd\<close> less one, or -1\<close>

record fdGate =
  probeArmed :: bool
  fdCeiling :: nat
  lastProbeAt :: int
  lastProbeBlocked :: bool

definition fdPressureWindow :: int where
  "fdPressureWindow = 10000000"

definition fallbackFdLimit :: nat where
  "fallbackFdLimit = 1024"

definition maxFdLimit :: nat where
  "maxFdLimit = 2 ^ 20"

text \<open>The load of the library: without the null device the gate stays open for good.\<close>

definition initGate :: "bool \<Rightarrow> fdGate" where
  "initGate opened = \<lparr>probeArmed = opened, fdCeiling = 0, lastProbeAt = 0, lastProbeBlocked = False\<rparr>"

definition refreshFdCeiling :: "fdEnv \<Rightarrow> fdGate \<Rightarrow> nat \<times> fdGate" where
  "refreshFdCeiling e s =
     (let limit = (case rlimitCur e of
                     None \<Rightarrow> fallbackFdLimit
                   | Some cur \<Rightarrow> let current = (if cur > maxFdLimit then maxFdLimit else cur)
                                 in if current > 0 then current else fallbackFdLimit);
          ceiling = limit div 4 * 3
      in (ceiling, s\<lparr>fdCeiling := ceiling\<rparr>))"

definition fdCeilingValue :: "fdEnv \<Rightarrow> fdGate \<Rightarrow> nat \<times> fdGate" where
  "fdCeilingValue e s = (if fdCeiling s \<noteq> 0 then (fdCeiling s, s) else refreshFdCeiling e s)"

definition disarmProbe :: "fdGate \<Rightarrow> fdGate" where
  "disarmProbe s = (if \<not> probeArmed s then s else s\<lparr>probeArmed := False, lastProbeBlocked := False\<rparr>)"

definition probeFdPressure :: "fdEnv \<Rightarrow> fdGate \<Rightarrow> bool \<times> fdGate" where
  "probeFdPressure e s =
     (case dupAnswer e of
        Inl err \<Rightarrow> if err = EMFILE \<or> err = ENFILE then (True, s) else (False, disarmProbe s)
      | Inr lowestFree \<Rightarrow>
          (case fdCeilingValue e s of
             (ceiling, s) \<Rightarrow>
               if lowestFree \<le> ceiling then (False, s)
               else (case refreshFdCeiling e s of
                       (_, s) \<Rightarrow>
                         if openFdCount e < 0 then (False, s)
                         else (case fdCeilingValue e s of (ceiling, s) \<Rightarrow> (int ceiling < openFdCount e, s)))))"

definition ShouldBlockConnection :: "fdEnv \<Rightarrow> fdGate \<Rightarrow> bool \<times> fdGate" where
  "ShouldBlockConnection e s =
     (if \<not> probeArmed s then (False, s)
      else if \<not> lastProbeBlocked s \<and> lastProbeAt s \<noteq> 0 \<and> now e - lastProbeAt s < fdPressureWindow then (False, s)
      else (case probeFdPressure e s of
              (blocked, s) \<Rightarrow> (blocked, s\<lparr>lastProbeBlocked := blocked, lastProbeAt := now e\<rparr>)))"

fun gateRun :: "fdEnv list \<Rightarrow> fdGate \<Rightarrow> bool list \<times> fdGate" where
  "gateRun [] s = ([], s)"
| "gateRun (e # es) s =
     (case ShouldBlockConnection e s of
        (b, s) \<Rightarrow> (case gateRun es s of (bs, s) \<Rightarrow> (b # bs, s)))"

subsection \<open>What the answers mean\<close>

text \<open>
  A system as POSIX has it: the descriptors \<open>fds\<close> are open, \<open>dup\<close> answers the least one that is free unless
  that reaches the limit, and the listing counts them.
\<close>

definition leastFree :: "nat set \<Rightarrow> nat \<Rightarrow> bool" where
  "leastFree fds n \<longleftrightarrow> n \<notin> fds \<and> (\<forall>m < n. m \<in> fds)"

definition posix :: "nat \<Rightarrow> nat set \<Rightarrow> fdEnv \<Rightarrow> bool" where
  "posix limit fds e \<longleftrightarrow> finite fds \<and> rlimitCur e = Some limit \<and> openFdCount e = int (card fds) \<and>
     (case dupAnswer e of
        Inl err \<Rightarrow> err \<noteq> OtherErrno
      | Inr n \<Rightarrow> leastFree fds n \<and> n < limit)"

text \<open>A free descriptor is no less than the number of the open ones below it: the count never falls behind it.\<close>

lemma leastFree_count: "finite fds \<Longrightarrow> leastFree fds n \<Longrightarrow> n \<le> card fds"
  using card_mono [of fds "{..<n}"] by (auto simp: leastFree_def)

definition crowded :: "nat \<Rightarrow> fdEnv \<Rightarrow> bool" where
  "crowded limit e \<longleftrightarrow> (case dupAnswer e of Inl _ \<Rightarrow> True | Inr n \<Rightarrow> n > limit div 4 * 3)"

text \<open>What holds between two calls while the limit stays the same and no probe breaks.\<close>

definition gateOk :: "nat \<Rightarrow> int \<Rightarrow> bool list \<Rightarrow> fdGate \<Rightarrow> bool" where
  "gateOk limit t bs s \<longleftrightarrow> probeArmed s \<and> fdCeiling s \<in> {0, limit div 4 * 3} \<and> lastProbeAt s \<le> t \<and>
     (bs \<noteq> [] \<longrightarrow> lastProbeBlocked s = last bs) \<and> (bs = [] \<longrightarrow> \<not> lastProbeBlocked s)"

lemma ceiling_limit:
  assumes "rlimitCur e = Some limit" "4 \<le> limit" "limit \<le> maxFdLimit"
  shows "refreshFdCeiling e s = (limit div 4 * 3, s\<lparr>fdCeiling := limit div 4 * 3\<rparr>)"
  using assms by (simp add: refreshFdCeiling_def Let_def)

lemma probe_crowded:
  assumes "posix limit fds e" "4 \<le> limit" "limit \<le> maxFdLimit" "gateOk limit t bs s"
  obtains c where "c \<in> {0, limit div 4 * 3}" "probeFdPressure e s = (crowded limit e, s\<lparr>fdCeiling := c\<rparr>)"
proof (cases "dupAnswer e")
  case (Inl err)
  then have "err \<noteq> OtherErrno" using assms(1) by (simp add: posix_def)
  then have "probeFdPressure e s = (crowded limit e, s\<lparr>fdCeiling := fdCeiling s\<rparr>)"
    using Inl by (cases err) (auto simp: probeFdPressure_def crowded_def)
  moreover have "fdCeiling s \<in> {0, limit div 4 * 3}" using assms(4) by (simp add: gateOk_def)
  ultimately show ?thesis using that by blast
next
  case (Inr n)
  have "int n \<le> openFdCount e" "rlimitCur e = Some limit"
    using assms(1) Inr leastFree_count by (auto simp: posix_def)
  then have "probeFdPressure e s = (crowded limit e, s\<lparr>fdCeiling := limit div 4 * 3\<rparr>)"
    using Inr assms(2,3,4)
    by (auto simp: probeFdPressure_def fdCeilingValue_def ceiling_limit crowded_def gateOk_def)
  then show ?thesis using that by blast
qed

lemma gate_call:
  assumes "posix limit fds e" "4 \<le> limit" "limit \<le> maxFdLimit" "gateOk limit t bs s" "t \<le> now e"
    and "ShouldBlockConnection e s = (b, s')"
  shows "gateOk limit (now e) (bs @ [b]) s'" "b \<Longrightarrow> crowded limit e"
    "lastProbeBlocked s \<or> lastProbeAt s = 0 \<or> fdPressureWindow \<le> now e - lastProbeAt s \<Longrightarrow> b = crowded limit e"
proof -
  obtain c where c: "c \<in> {0, limit div 4 * 3}" "probeFdPressure e s = (crowded limit e, s\<lparr>fdCeiling := c\<rparr>)"
    using probe_crowded [OF assms(1-4)] .
  with assms(4-6) show "gateOk limit (now e) (bs @ [b]) s'" "b \<Longrightarrow> crowded limit e"
    "lastProbeBlocked s \<or> lastProbeAt s = 0 \<or> fdPressureWindow \<le> now e - lastProbeAt s \<Longrightarrow> b = crowded limit e"
    by (auto simp: ShouldBlockConnection_def gateOk_def split: if_splits)
qed

fun timesRise :: "int \<Rightarrow> fdEnv list \<Rightarrow> bool" where
  "timesRise t [] = True"
| "timesRise t (e # es) \<longleftrightarrow> t \<le> now e \<and> timesRise (now e) es"

lemma timesRise_snoc: "timesRise t (es @ [e]) \<longleftrightarrow> timesRise t es \<and> last (t # map now es) \<le> now e"
  by (induction es arbitrary: t) auto

lemma gateRun_ok:
  assumes "gateOk limit t bs0 s" "timesRise t es" "\<And>e. e \<in> set es \<Longrightarrow> \<exists>fds. posix limit fds e"
    and "4 \<le> limit" "limit \<le> maxFdLimit" "gateRun es s = (bs, s')"
  shows "gateOk limit (last (t # map now es)) (bs0 @ bs) s'"
  using assms(1-3,6)
proof (induction es arbitrary: t bs0 s bs)
  case (Cons e es)
  obtain b u where u: "ShouldBlockConnection e s = (b, u)" by (meson surj_pair)
  obtain bs1 where bs1: "gateRun es u = (bs1, s')" "bs = b # bs1"
    using Cons(5) u by (auto split: prod.splits)
  obtain fds where "posix limit fds e" using Cons(4) by auto
  then have "gateOk limit (now e) (bs0 @ [b]) u"
    using gate_call(1) [OF _ assms(4,5) Cons(2) _ u] Cons(3) by simp
  then show ?case using Cons(1) [of "now e" "bs0 @ [b]" u bs1] Cons(3,4) bs1 by simp
qed simp

text \<open>A probe that broke is never asked again.\<close>

lemma disarmed_never_blocks: "\<not> probeArmed s \<Longrightarrow> gateRun es s = (map (\<lambda>_. False) es, s)"
  by (induction es) (auto simp: ShouldBlockConnection_def)

lemma broken_probe_disarms:
  assumes "dupAnswer e = Inl OtherErrno" and "ShouldBlockConnection e s = (b, s')"
  shows "\<not> b"
  using assms by (auto simp: ShouldBlockConnection_def probeFdPressure_def split: if_splits)

text \<open>
  \<^bold>\<open>C33.\<close> As long as the limit stays the same, the clock does not go back and \<open>dup\<close> fails only for want of
  descriptors: a connection is refused only while the process is crowded, that is, while \<open>dup\<close> fails or the
  least free descriptor lies above three quarters of the limit, and then more than that many are open. After a
  refusal the very next call tells how it is then, so the first one after the pressure has gone is let
  through; and a call ten milliseconds after the last one always tells how it is.
\<close>

theorem refuses_only_when_crowded:
  assumes "gateRun es (initGate True) = (bs, s)" and "timesRise 0 (es @ [e])"
    and "\<And>e'. e' \<in> set es \<Longrightarrow> \<exists>fds. posix limit fds e'" and "posix limit fds e"
    and "4 \<le> limit" and "limit \<le> maxFdLimit"
  shows "(fst (ShouldBlockConnection e s) \<longrightarrow> crowded limit e) \<and>
    (crowded limit e \<and> is_ok (dupAnswer e) \<longrightarrow> limit div 4 * 3 < card fds) \<and>
    (bs \<noteq> [] \<and> last bs \<or> last (0 # map now es) + fdPressureWindow \<le> now e \<longrightarrow>
      fst (ShouldBlockConnection e s) = crowded limit e)"
proof -
  have rise: "timesRise 0 es" "last (0 # map now es) \<le> now e"
    using assms(2) timesRise_snoc by blast+
  have "gateOk limit 0 [] (initGate True)" by (simp add: gateOk_def initGate_def)
  then have ok: "gateOk limit (last (0 # map now es)) bs s"
    using gateRun_ok [OF _ rise(1) assms(3,5,6,1), of "[]"] by (simp del: last.simps)
  obtain b s' where b: "ShouldBlockConnection e s = (b, s')" by (meson surj_pair)
  have "lastProbeBlocked s \<or> lastProbeAt s = 0 \<or> fdPressureWindow \<le> now e - lastProbeAt s"
    if "bs \<noteq> [] \<and> last bs \<or> last (0 # map now es) + fdPressureWindow \<le> now e"
    using that ok by (auto simp: gateOk_def)
  moreover have "limit div 4 * 3 < card fds" if "crowded limit e" "is_ok (dupAnswer e)"
    using that assms(4) leastFree_count by (force simp: crowded_def posix_def is_ok_iff)
  ultimately show ?thesis
    using gate_call(2,3) [OF assms(4-6) ok rise(2) b] b by auto
qed

text \<open>A limit of 8 descriptors: six open ones do not crowd the process, seven do, and closing two helps at once.\<close>

definition fdSample :: "int \<Rightarrow> nat \<Rightarrow> fdEnv" where
  "fdSample t n = \<lparr>now = t, dupAnswer = Inr n, rlimitCur = Some 8, openFdCount = int n\<rparr>"

lemma fdSample_posix: "n < 8 \<Longrightarrow> posix 8 {..<n} (fdSample t n)"
  by (simp add: posix_def fdSample_def leastFree_def)

lemma fdSample_run:
  "fst (gateRun [fdSample 1 6, fdSample 2 7, fdSample 10000001 7] (initGate True)) = [False, False, True]"
  by (simp add: fdSample_def ShouldBlockConnection_def probeFdPressure_def initGate_def fdCeilingValue_def
      refreshFdCeiling_def maxFdLimit_def fdPressureWindow_def)

lemma refuses_only_when_crowded_witness:
  "\<exists>s. gateRun [fdSample 1 6, fdSample 2 7, fdSample 10000001 7] (initGate True) = ([False, False, True], s) \<and>
     \<not> fst (ShouldBlockConnection (fdSample 10000002 5) s)"
proof -
  obtain s where s: "gateRun [fdSample 1 6, fdSample 2 7, fdSample 10000001 7] (initGate True) = ([False, False, True], s)"
    using fdSample_run by (metis fst_conv surj_pair)
  have "timesRise 0 ([fdSample 1 6, fdSample 2 7, fdSample 10000001 7] @ [fdSample 10000002 5])"
    by (simp add: fdSample_def)
  from refuses_only_when_crowded [OF s this _ fdSample_posix [of 5]]
  have "fst (ShouldBlockConnection (fdSample 10000002 5) s) \<longrightarrow> crowded 8 (fdSample 10000002 5)"
    using fdSample_posix [of 6] fdSample_posix [of 7] by (fastforce simp: maxFdLimit_def)
  moreover have "\<not> crowded 8 (fdSample 10000002 5)" by (simp add: crowded_def fdSample_def)
  ultimately show ?thesis using s by blast
qed

end
