(* ===== verification/TunStart.thy ===== *)
theory TunStart
  imports Netip ShareLink
begin

section \<open>Opening the tunnel (\<open>core/tun/tun.go\<close>)\<close>

text \<open>
  \<open>Start\<close> is handed the descriptor of the VPN by Android and owns it. The JSON and address parsers, mihomo's
  table of stacks, \<open>dup\<close> and mihomo's constructor \<open>sing_tun.New\<close> are what \<open>tunEnv\<close> holds; the descriptors that
  \<open>Start\<close> itself closes are returned in the order it closes them.
\<close>

record startOptions =
  MTU :: nat
  CongestionController :: string

record 'st tunOptions =
  OptEnable :: bool
  OptDevice :: string
  OptStack :: 'st
  OptDNSHijack :: "string list"
  OptAutoRoute :: bool
  OptAutoDetectInterface :: bool
  OptInet4Address :: "prefix list"
  OptInet6Address :: "prefix list"
  OptMTU :: nat
  OptCongestionController :: string
  OptFileDescriptor :: int

record ('st, 'l) tunEnv =
  parseOptions :: "string \<Rightarrow> startOptions option"
  stackTypes :: "string \<Rightarrow> 'st option"          \<comment> \<open>\<open>constant.StackTypeMapping\<close>\<close>
  tunMips :: 'st
  parsePrefix :: "string \<Rightarrow> prefix option"       \<comment> \<open>\<open>netip.ParsePrefix\<close>\<close>
  addrPortOk :: "string \<Rightarrow> bool"                 \<comment> \<open>\<open>netip.ParseAddrPort\<close> succeeds\<close>
  dupOf :: "int \<Rightarrow> int option"
  newListener :: "'st tunOptions \<Rightarrow> 'l option"    \<comment> \<open>owns the descriptor in its options, also if it fails\<close>

fun isV4 :: "prefix \<Rightarrow> bool" where
  "isV4 p = (case prefixAddr p of Addr4 _ \<Rightarrow> True | Addr6 _ \<Rightarrow> False)"

fun splitPrefixes ::
  "(string \<Rightarrow> prefix option) \<Rightarrow> string list \<Rightarrow> prefix list \<Rightarrow> prefix list \<Rightarrow> (prefix list \<times> prefix list) option" where
  "splitPrefixes parse [] prefix4 prefix6 = Some (prefix4, prefix6)"
| "splitPrefixes parse (a # as) prefix4 prefix6 =
     (let a = trim_space a
      in if a = [] then splitPrefixes parse as prefix4 prefix6
         else (case parse a of
                 None \<Rightarrow> None
               | Some p \<Rightarrow>
                   if isV4 p then splitPrefixes parse as (prefix4 @ [p]) prefix6
                   else splitPrefixes parse as prefix4 (prefix6 @ [p])))"

fun hijacks :: "(string \<Rightarrow> bool) \<Rightarrow> string list \<Rightarrow> string list \<Rightarrow> string list option" where
  "hijacks ok [] dnsHijack = Some dnsHijack"
| "hijacks ok (d # ds) dnsHijack =
     (let d = trim_space d
      in if d = [] then hijacks ok ds dnsHijack
         else (let hijack = joinHostPort d ''53''
               in if \<not> ok hijack then None else hijacks ok ds (dnsHijack @ [hijack])))"

text \<open>The listener, the descriptors closed and the options mihomo was handed.\<close>

definition Start ::
  "('st, 'l) tunEnv \<Rightarrow> int \<Rightarrow> string \<Rightarrow> string \<Rightarrow> string \<Rightarrow> string \<Rightarrow> 'l option \<times> int list \<times> 'st tunOptions option" where
  "Start env fd stack address dns rawOptions =
     (case parseOptions env rawOptions of
        None \<Rightarrow> (None, [fd], None)
      | Some settings \<Rightarrow>
          let tunStack = (case stackTypes env (to_lower stack) of None \<Rightarrow> tunMips env | Some st \<Rightarrow> st)
          in (case splitPrefixes (parsePrefix env) (split_on (CHR '','') address) [] [] of
                None \<Rightarrow> (None, [fd], None)
              | Some (prefix4, prefix6) \<Rightarrow>
                  (case hijacks (addrPortOk env) (split_on (CHR '','') dns) [] of
                     None \<Rightarrow> (None, [fd], None)
                   | Some dnsHijack \<Rightarrow>
                       (case dupOf env fd of
                          None \<Rightarrow> (None, [fd], None)
                        | Some dupFd \<Rightarrow>
                            let options = \<lparr>OptEnable = True, OptDevice = ''FlClash'', OptStack = tunStack,
                                  OptDNSHijack = dnsHijack, OptAutoRoute = False, OptAutoDetectInterface = False,
                                  OptInet4Address = prefix4, OptInet6Address = prefix6, OptMTU = MTU settings,
                                  OptCongestionController = CongestionController settings,
                                  OptFileDescriptor = dupFd\<rparr>
                            in (newListener env options, [fd], Some options)))))"

subsection \<open>What comes of the lists\<close>

definition parts :: "string \<Rightarrow> string list" where
  "parts s = filter (\<lambda>p. p \<noteq> []) (map trim_space (split_on (CHR '','') s))"

lemma splitPrefixes_parts:
  "splitPrefixes parse as p4 p6 =
     (let ps = map parse (filter (\<lambda>p. p \<noteq> []) (map trim_space as))
      in if None \<in> set ps then None
         else Some (p4 @ filter isV4 (map the ps), p6 @ filter (\<lambda>p. \<not> isV4 p) (map the ps)))"
  by (induction parse as p4 p6 rule: splitPrefixes.induct) (auto simp: Let_def split: option.split)

lemma hijacks_parts:
  "hijacks ok ds acc =
     (let hs = map (\<lambda>d. joinHostPort d ''53'') (filter (\<lambda>p. p \<noteq> []) (map trim_space ds))
      in if list_all ok hs then Some (acc @ hs) else None)"
  by (induction ok ds acc rule: hijacks.induct) (auto simp: Let_def)

text \<open>
  \<open>Start\<close> closes the descriptor it was handed exactly once on every path, and never the duplicate that
  mihomo owns. It returns a listener exactly if the options parse, every address and every server in the
  lists, blanks and empty parts left out, is well-formed, the duplicate can be made and mihomo accepts; and
  then mihomo was handed all the IPv4 and all the IPv6 prefixes in their order, every server at port 53, and
  none of the routing features that could fail before it owns the duplicate.
\<close>

lemma start_owns_descriptor:
  "case Start env fd stack address dns raw of (l, closed, handed) \<Rightarrow>
     closed = [fd] \<and>
     (handed = None \<longleftrightarrow> parseOptions env raw = None \<or> None \<in> set (map (parsePrefix env) (parts address)) \<or>
        \<not> list_all (\<lambda>d. addrPortOk env (joinHostPort d ''53'')) (parts dns) \<or> dupOf env fd = None) \<and>
     l = Option.bind handed (newListener env) \<and>
     (\<forall>opts. handed = Some opts \<longrightarrow>
        dupOf env fd = Some (OptFileDescriptor opts) \<and> \<not> OptAutoRoute opts \<and> \<not> OptAutoDetectInterface opts \<and>
        OptDNSHijack opts = map (\<lambda>d. joinHostPort d ''53'') (parts dns) \<and>
        OptInet4Address opts = filter isV4 (map (the \<circ> parsePrefix env) (parts address)) \<and>
        OptInet6Address opts = filter (\<lambda>p. \<not> isV4 p) (map (the \<circ> parsePrefix env) (parts address)))"
  by (auto simp: Start_def Let_def splitPrefixes_parts hijacks_parts parts_def [symmetric] list_all_iff
      split: option.split prod.split)

text \<open>An interface with one IPv4 address and one server; the lists have a blank and an empty part.\<close>

definition phone :: "(nat, nat) tunEnv" where
  "phone = \<lparr>parseOptions = (\<lambda>raw. Some \<lparr>MTU = 9000, CongestionController = []\<rparr>), stackTypes = (\<lambda>s. None), tunMips = 3,
     parsePrefix = (\<lambda>s. if s = ''172.19.0.1/30'' then Some \<lparr>prefixAddr = Addr4 0xAC130001, prefixBits = 30\<rparr> else None),
     addrPortOk = (\<lambda>s. s = ''172.19.0.2:53''), dupOf = (\<lambda>fd. Some (fd + 1)), newListener = (\<lambda>opts. Some 1)\<rparr>"

lemma phone_parts: "parts '' 172.19.0.1/30,'' = [''172.19.0.1/30'']" "parts ''172.19.0.2'' = [''172.19.0.2'']"
  "joinHostPort ''172.19.0.2'' ''53'' = ''172.19.0.2:53''"
  by code_simp+

end
