(* ===== verification/AndroidTun.thy ===== *)
theory AndroidTun
  imports Procfs FdLimit TunStart
begin

section \<open>The VPN's hooks on Android (\<open>core/lib.go\<close>)\<close>

text \<open>
  A \<open>TunHandler\<close> holds the listener of one VPN session and the callbacks into the Android service. The
  handlers made so far are a heap, a handler being its address in it. Starting and stopping hold \<open>tunLock\<close>;
  the hooks that mihomo calls on every dial do not, and a dial reads the active handler and asks it in two
  steps. \<open>Start\<close> runs without the handler's own lock, so hooks run while it does: between \<open>beginStart\<close> and
  \<open>finishStart\<close> any number of dials may happen. What happened is kept in a log.
\<close>

subsection \<open>State\<close>

record callbacks =
  ResolveUid :: "int \<Rightarrow> string \<Rightarrow> string \<Rightarrow> int"
  ResolvePackage :: "int \<Rightarrow> string"

record TunHandler =
  listener :: "nat option"
  th_callbacks :: "callbacks option"

datatype tunEvent =
    Asked nat int        \<comment> \<open>the handler's callbacks were asked to protect the socket\<close>
  | Up nat               \<comment> \<open>a listener was opened\<close>
  | Down nat             \<comment> \<open>and closed\<close>
  | Cleared nat          \<comment> \<open>the handler let go of its callbacks\<close>
  | Refused int          \<comment> \<open>a dial was refused for want of descriptors\<close>

record vpn =
  handlers :: "TunHandler list"
  activeTunHandler :: "nat option"
  tunHandler :: "nat option"
  starting :: bool
  dials :: "(nat \<times> int) list"
  gate :: fdGate
  happened :: "tunEvent list"

definition initVpn :: "bool \<Rightarrow> vpn" where
  "initVpn armed = \<lparr>handlers = [], activeTunHandler = None, tunHandler = None, starting = False, dials = [],
     gate = initGate armed, happened = []\<rparr>"

definition tell :: "tunEvent list \<Rightarrow> vpn \<Rightarrow> vpn" where
  "tell es s = s\<lparr>happened := happened s @ es\<rparr>"

subsection \<open>Starting and stopping\<close>

definition initHook :: "nat \<Rightarrow> vpn \<Rightarrow> vpn" where
  "initHook th s = s\<lparr>activeTunHandler := Some th\<rparr>"

definition removeHook :: "nat \<Rightarrow> vpn \<Rightarrow> vpn" where
  "removeHook th s = (if activeTunHandler s = Some th then s\<lparr>activeTunHandler := None\<rparr> else s)"

definition clear :: "nat \<Rightarrow> vpn \<Rightarrow> vpn" where
  "clear th s =
     (let s = removeHook th s;
          s = (case listener (handlers s ! th) of None \<Rightarrow> s | Some l \<Rightarrow> tell [Down l] s)
      in tell [Cleared th] (s\<lparr>handlers := (handlers s)[th := \<lparr>listener = None, th_callbacks = None\<rparr>]\<rparr>))"

definition closeHandler :: "nat \<Rightarrow> vpn \<Rightarrow> vpn" where
  "closeHandler th s = clear th s"

definition stopTunLocked :: "vpn \<Rightarrow> vpn" where
  "stopTunLocked s = (case tunHandler s of None \<Rightarrow> s | Some th \<Rightarrow> (closeHandler th s)\<lparr>tunHandler := None\<rparr>)"

definition handleStopTun :: "vpn \<Rightarrow> vpn" where
  "handleStopTun s = stopTunLocked s"

text \<open>\<open>handleStartTun\<close> up to the call of \<open>Start\<close>; without a descriptor it ends here.\<close>

definition beginStart :: "callbacks \<Rightarrow> int \<Rightarrow> vpn \<Rightarrow> vpn" where
  "beginStart cb fd s =
     (let s = stopTunLocked s
      in if fd = 0 then s
         else (let th = length (handlers s);
                   s = s\<lparr>handlers := handlers s @ [\<lparr>listener = None, th_callbacks = Some cb\<rparr>], tunHandler := Some th\<rparr>
               in (initHook th s)\<lparr>starting := True\<rparr>))"

text \<open>\<open>ProtectExistingSockets\<close>: the sockets among the process's descriptors, by a duplicate of each.\<close>

definition protectSocket :: "(int \<Rightarrow> int option) \<Rightarrow> (int \<Rightarrow> bool) \<Rightarrow> int \<Rightarrow> int option" where
  "protectSocket dup isInet fd =
     (case dup fd of None \<Rightarrow> None | Some duplicate \<Rightarrow> if isInet duplicate then Some duplicate else None)"

definition ProtectExistingSockets ::
  "(int \<Rightarrow> int option) \<Rightarrow> (int \<Rightarrow> bool) \<Rightarrow> string list option \<Rightarrow> int list" where
  "ProtectExistingSockets dup isInet entries =
     (case entries of
        None \<Rightarrow> []
      | Some names \<Rightarrow> List.map_filter (\<lambda>name. Option.bind (atoi name) (protectSocket dup isInet)) names)"

definition askExisting :: "int list \<Rightarrow> vpn \<Rightarrow> vpn" where
  "askExisting sockets s =
     (case tunHandler s of None \<Rightarrow> s | Some th \<Rightarrow> tell (map (Asked th) sockets) s)"

text \<open>The rest of \<open>handleStartTun\<close>, once \<open>Start\<close> has returned.\<close>

definition finishStart :: "nat option \<Rightarrow> vpn \<Rightarrow> vpn \<times> bool" where
  "finishStart tunListener s =
     (let s = s\<lparr>starting := False\<rparr>
      in case tunHandler s of
           None \<Rightarrow> (s, False)
         | Some th \<Rightarrow>
             (case tunListener of
                Some l \<Rightarrow> (tell [Up l] (s\<lparr>handlers := (handlers s)[th := (handlers s ! th)\<lparr>listener := Some l\<rparr>]\<rparr>), True)
              | None \<Rightarrow> ((clear th s)\<lparr>tunHandler := None\<rparr>, False)))"

text \<open>The whole of it when nothing else runs.\<close>

definition handleStartTun ::
  "('st, nat) tunEnv \<Rightarrow> int list \<Rightarrow> callbacks \<Rightarrow> int \<Rightarrow> string \<Rightarrow> string \<Rightarrow> string \<Rightarrow> string \<Rightarrow> vpn \<Rightarrow> vpn \<times> bool" where
  "handleStartTun env sockets cb fd stack address dns options s =
     (let s = beginStart cb fd s
      in if \<not> starting s then (s, False)
         else finishStart (fst (Start env fd stack address dns options)) (askExisting sockets s))"

subsection \<open>The hooks\<close>

definition handleProtect :: "nat \<Rightarrow> int \<Rightarrow> vpn \<Rightarrow> vpn" where
  "handleProtect th fd s =
     (case th_callbacks (handlers s ! th) of None \<Rightarrow> s | Some _ \<Rightarrow> tell [Asked th fd] s)"

text \<open>The socket hook: it refuses, lets the dial through, or has read the active handler and will ask it.\<close>

definition socketHook :: "fdEnv \<Rightarrow> int \<Rightarrow> vpn \<Rightarrow> vpn" where
  "socketHook e fd s =
     (case ShouldBlockConnection e (gate s) of
        (True, g) \<Rightarrow> tell [Refused fd] (s\<lparr>gate := g\<rparr>)
      | (False, g) \<Rightarrow>
          (case activeTunHandler s of
             None \<Rightarrow> s\<lparr>gate := g\<rparr>
           | Some th \<Rightarrow> s\<lparr>gate := g, dials := dials s @ [(th, fd)]\<rparr>))"

text \<open>The process hook: what the core knows of the owner of a connection.\<close>

definition protocolOf :: "string \<Rightarrow> int" where
  "protocolOf network =
     (if network \<in> {''udp'', ''udp4'', ''udp6''} then 17
      else if network \<in> {''tcp'', ''tcp4'', ''tcp6''} then 6 else 0)"

definition handleResolveProcess ::
  "int \<Rightarrow> (netAddr \<Rightarrow> int) \<Rightarrow> (netAddr \<Rightarrow> string) \<Rightarrow> netAddr \<Rightarrow> netAddr \<Rightarrow> TunHandler \<Rightarrow> int \<times> string" where
  "handleResolveProcess sdk querySocketUid addrString source target th =
     (case (listener th, th_callbacks th) of
        (Some _, Some cb) \<Rightarrow>
          let uid = (if sdk < 29 then querySocketUid source
                     else ResolveUid cb (protocolOf (networkOf source)) (addrString source) (addrString target))
          in if uid < 0 then (- 1, []) else (uid, ResolvePackage cb uid)
      | _ \<Rightarrow> (- 1, []))"

datatype processAnswer = ErrInvalidNetwork | Package string "int option"   \<comment> \<open>and the owner it notes\<close>

definition packageNameResolver ::
  "int \<Rightarrow> (netAddr \<Rightarrow> int) \<Rightarrow> (netAddr \<Rightarrow> string) \<Rightarrow> netAddr option \<Rightarrow> netAddr option \<Rightarrow> vpn \<Rightarrow> processAnswer" where
  "packageNameResolver sdk querySocketUid addrString src dst s =
     (case activeTunHandler s of
        None \<Rightarrow> ErrInvalidNetwork
      | Some th \<Rightarrow>
          (case (src, dst) of
             (Some src, Some dst) \<Rightarrow>
               (case handleResolveProcess sdk querySocketUid addrString src dst (handlers s ! th) of
                  (uid, packageName) \<Rightarrow>
                    Package packageName (if uid \<ge> 0 then Some (uid mod 2 ^ 32) else None))
           | _ \<Rightarrow> ErrInvalidNetwork))"

subsection \<open>Steps\<close>

inductive vpn_step :: "vpn \<Rightarrow> vpn \<Rightarrow> bool" where
  step_stop: "\<not> starting s \<Longrightarrow> vpn_step s (handleStopTun s)"
| step_begin: "\<not> starting s \<Longrightarrow> vpn_step s (beginStart cb fd s)"
| step_existing: "starting s \<Longrightarrow> vpn_step s (askExisting sockets s)"
| step_end: "starting s \<Longrightarrow> (\<And>l. tunListener = Some l \<Longrightarrow> Up l \<notin> set (happened s)) \<Longrightarrow>
    vpn_step s (fst (finishStart tunListener s))"
| step_dial: "vpn_step s (socketHook e fd s)"
| step_control: "dials s = as @ (th, fd) # bs \<Longrightarrow> vpn_step s (handleProtect th fd (s\<lparr>dials := as @ bs\<rparr>))"

inductive vpn_reachable :: "vpn \<Rightarrow> bool" where
  vpn_init: "vpn_reachable (initVpn armed)"
| vpn_next: "vpn_reachable s \<Longrightarrow> vpn_step s t \<Longrightarrow> vpn_reachable t"

subsection \<open>The invariant\<close>

definition ups :: "tunEvent list \<Rightarrow> nat list" where
  "ups es = List.map_filter (\<lambda>e. case e of Up l \<Rightarrow> Some l | _ \<Rightarrow> None) es"

definition downs :: "tunEvent list \<Rightarrow> nat list" where
  "downs es = List.map_filter (\<lambda>e. case e of Down l \<Rightarrow> Some l | _ \<Rightarrow> None) es"

text \<open>No handler is asked once it has let go of its callbacks.\<close>

fun asks_live :: "nat set \<Rightarrow> tunEvent list \<Rightarrow> bool" where
  "asks_live gone [] = True"
| "asks_live gone (Asked th fd # es) \<longleftrightarrow> th \<notin> gone \<and> asks_live gone es"
| "asks_live gone (Cleared th # es) \<longleftrightarrow> asks_live (insert th gone) es"
| "asks_live gone (_ # es) \<longleftrightarrow> asks_live gone es"

definition cleared :: "tunEvent list \<Rightarrow> nat set" where
  "cleared es = {th. Cleared th \<in> set es}"

lemma events_simps [simp]:
  "ups (es @ fs) = ups es @ ups fs" "downs (es @ fs) = downs es @ downs fs"
  "cleared (es @ fs) = cleared es \<union> cleared fs"
  "ups [] = []" "downs [] = []" "cleared [] = {}"
  "ups (Up l # es) = l # ups es" "ups (Down l # es) = ups es" "ups (Asked th fd # es) = ups es"
  "ups (Cleared th # es) = ups es" "ups (Refused fd # es) = ups es"
  "downs (Up l # es) = downs es" "downs (Down l # es) = l # downs es" "downs (Asked th fd # es) = downs es"
  "downs (Cleared th # es) = downs es" "downs (Refused fd # es) = downs es"
  "cleared (Up l # es) = cleared es" "cleared (Down l # es) = cleared es" "cleared (Asked th fd # es) = cleared es"
  "cleared (Cleared th # es) = insert th (cleared es)" "cleared (Refused fd # es) = cleared es"
  "ups (map (Asked th) fds) = []" "downs (map (Asked th) fds) = []" "cleared (map (Asked th) fds) = {}"
  by (auto simp: ups_def downs_def cleared_def map_filter_def filter_empty_conv)

lemma set_ups: "l \<in> set (ups es) \<longleftrightarrow> Up l \<in> set es"
  by (induction es) (auto simp: ups_def map_filter_def split: tunEvent.splits)

lemma asks_live_append: "asks_live gone (es @ fs) \<longleftrightarrow> asks_live gone es \<and> asks_live (gone \<union> cleared es) fs"
  by (induction gone es rule: asks_live.induct) (auto simp: insert_commute Un_commute)

lemma asks_live_asked [simp]: "asks_live gone (map (Asked th) fds) \<longleftrightarrow> fds = [] \<or> th \<notin> gone"
  by (induction fds) auto

text \<open>The listener of the session that runs.\<close>

definition current :: "vpn \<Rightarrow> nat list" where
  "current s = (case tunHandler s of None \<Rightarrow> [] | Some th \<Rightarrow> (case listener (handlers s ! th) of None \<Rightarrow> [] | Some l \<Rightarrow> [l]))"

definition vpn_inv :: "vpn \<Rightarrow> bool" where
  "vpn_inv s \<longleftrightarrow>
     activeTunHandler s = tunHandler s \<and>
     (\<forall>th. tunHandler s = Some th \<longrightarrow> th < length (handlers s) \<and> th_callbacks (handlers s ! th) \<noteq> None \<and>
        (listener (handlers s ! th) = None \<longleftrightarrow> starting s)) \<and>
     (starting s \<longrightarrow> tunHandler s \<noteq> None) \<and>
     (\<forall>th < length (handlers s). tunHandler s \<noteq> Some th \<longrightarrow> handlers s ! th = \<lparr>listener = None, th_callbacks = None\<rparr>) \<and>
     (\<forall>th. th \<in> cleared (happened s) \<longleftrightarrow> th < length (handlers s) \<and> tunHandler s \<noteq> Some th) \<and>
     (\<forall>d \<in> set (dials s). fst d < length (handlers s)) \<and>
     ups (happened s) = downs (happened s) @ current s \<and> distinct (ups (happened s)) \<and>
     asks_live {} (happened s)"

lemmas vpn_ops = tell_def initHook_def removeHook_def clear_def closeHandler_def stopTunLocked_def handleStopTun_def
  beginStart_def askExisting_def finishStart_def handleProtect_def socketHook_def

lemma inv_init: "vpn_inv (initVpn armed)"
  by (simp add: vpn_inv_def initVpn_def current_def)

lemma stop_idle: "vpn_inv s \<Longrightarrow> \<not> starting s \<Longrightarrow> vpn_inv (stopTunLocked s) \<and> tunHandler (stopTunLocked s) = None \<and>
    \<not> starting (stopTunLocked s)"
proof (cases "tunHandler s")
  case None
  then show "vpn_inv s \<Longrightarrow> \<not> starting s \<Longrightarrow> ?thesis" by (simp add: stopTunLocked_def)
next
  case (Some th)
  assume inv: "vpn_inv s" and "\<not> starting s"
  with Some obtain l where "listener (handlers s ! th) = Some l" by (auto simp: vpn_inv_def)
  with inv \<open>\<not> starting s\<close> Some show ?thesis
    by (auto simp: vpn_inv_def vpn_ops Let_def current_def nth_list_update asks_live_append)
qed

lemma inv_step: "vpn_step s t \<Longrightarrow> vpn_inv s \<Longrightarrow> vpn_inv t"
proof (induction rule: vpn_step.induct)
  case (step_stop s)
  then show ?case by (simp add: handleStopTun_def stop_idle)
next
  case (step_begin s cb fd)
  note idle = stop_idle [OF step_begin(2,1)]
  then show ?case
    by (auto simp: beginStart_def Let_def initHook_def vpn_inv_def current_def nth_append)
next
  case (step_existing s sockets)
  then show ?case
    by (auto simp: vpn_inv_def askExisting_def tell_def current_def asks_live_append split: option.splits)
next
  case (step_end s tunListener)
  then obtain th where th: "tunHandler s = Some th" by (auto simp: vpn_inv_def)
  with step_end have "listener (handlers s ! th) = None" by (auto simp: vpn_inv_def)
  then show ?case
    using step_end th
    by (cases tunListener)
      (auto simp: vpn_inv_def vpn_ops Let_def current_def nth_list_update asks_live_append set_ups [symmetric])
next
  case (step_dial s e fd)
  then show ?case
    by (auto simp: vpn_inv_def socketHook_def tell_def current_def asks_live_append split: prod.splits bool.splits option.splits)
next
  case (step_control s as th fd bs)
  then show ?case
    by (auto simp: vpn_inv_def handleProtect_def tell_def current_def asks_live_append split: option.splits)
qed

lemma vpn_reachable_inv: "vpn_reachable s \<Longrightarrow> vpn_inv s"
  by (induction rule: vpn_reachable.induct) (auto simp: inv_init inv_step)

text \<open>
  \<^bold>\<open>C34.\<close> However starts, stops, dials and their second halves interleave: the hooks lead to the session that
  runs and to none after it; every listener that was opened is closed exactly once, except the one of the
  running session, and that is missing exactly while the session starts; no service is asked to protect a
  socket once its session has been cleared, though dials that read its handler before may come late; and from
  its first moment, before there is a listener, a session protects every socket it is asked for.
\<close>

theorem vpn_sessions_safe:
  assumes "vpn_reachable s"
  shows "activeTunHandler s = tunHandler s \<and> ups (happened s) = downs (happened s) @ current s \<and>
    distinct (ups (happened s)) \<and> asks_live {} (happened s) \<and>
    (case tunHandler s of
       None \<Rightarrow> current s = [] \<and> \<not> starting s
     | Some th \<Rightarrow> (current s = [] \<longleftrightarrow> starting s) \<and> happened (handleProtect th fd s) = happened s @ [Asked th fd])"
proof -
  have inv: "vpn_inv s" using assms by (rule vpn_reachable_inv)
  moreover have "case tunHandler s of
       None \<Rightarrow> current s = [] \<and> \<not> starting s
     | Some th \<Rightarrow> (current s = [] \<longleftrightarrow> starting s) \<and> happened (handleProtect th fd s) = happened s @ [Asked th fd]"
    using inv by (auto simp: vpn_inv_def current_def handleProtect_def tell_def split: option.split)
  ultimately show ?thesis unfolding vpn_inv_def by blast
qed

text \<open>A dial in the middle of a start, whose second half comes when the session is over.\<close>

definition mute :: callbacks where
  "mute = \<lparr>ResolveUid = (\<lambda>_ _ _. - 1), ResolvePackage = (\<lambda>_. [])\<rparr>"

definition calm :: fdEnv where
  "calm = \<lparr>now = 1, dupAnswer = Inr 4, rlimitCur = None, openFdCount = 4\<rparr>"

definition lateDial :: vpn where
  "lateDial = handleProtect 0 9
     ((handleStopTun (fst (finishStart (Some 1) (socketHook calm 9 (beginStart mute 5 (initVpn True))))))\<lparr>dials := []\<rparr>)"

lemmas vpn_run = beginStart_def stopTunLocked_def initVpn_def initHook_def socketHook_def finishStart_def handleStopTun_def
  closeHandler_def clear_def removeHook_def tell_def handleProtect_def calm_def ShouldBlockConnection_def initGate_def
  probeFdPressure_def fdCeilingValue_def refreshFdCeiling_def fallbackFdLimit_def Let_def

lemma lateDial_reachable: "vpn_reachable lateDial"
proof -
  let ?a = "beginStart mute 5 (initVpn True)"
  let ?b = "socketHook calm 9 ?a"
  let ?c = "fst (finishStart (Some 1) ?b)"
  have "vpn_reachable ?a" by (rule vpn_next [OF vpn_init step_begin]) (simp add: initVpn_def)
  then have "vpn_reachable ?b" by (rule vpn_next [OF _ step_dial])
  then have "vpn_reachable ?c" by (rule vpn_next [OF _ step_end]) (simp_all add: vpn_run)
  then have "vpn_reachable (handleStopTun ?c)" by (rule vpn_next [OF _ step_stop]) (simp add: vpn_run)
  then show ?thesis
    unfolding lateDial_def
    using vpn_next [OF _ step_control [of "handleStopTun ?c" "[]" 0 9 "[]"]] by (simp add: vpn_run)
qed

lemma vpn_sessions_safe_witness:
  "happened lateDial = [Up 1, Down 1, Cleared 0] \<and> activeTunHandler lateDial = None \<and> asks_live {} (happened lateDial)"
  using vpn_sessions_safe [OF lateDial_reachable] by (simp add: lateDial_def vpn_run)

text \<open>A start that failed leaves nothing behind.\<close>

lemma failed_start_clears:
  assumes "vpn_reachable s" and "\<not> starting s" and "handleStartTun env sockets cb fd stack address dns options s = (t, False)"
  shows "activeTunHandler t = None \<and> current t = []"
proof -
  have "vpn_inv s" using assms(1) by (rule vpn_reachable_inv)
  then have a: "vpn_inv (beginStart cb fd s)" using inv_step [OF step_begin [OF assms(2)]] by blast
  have b: "vpn_inv (askExisting sockets (beginStart cb fd s))" if "starting (beginStart cb fd s)"
    using inv_step [OF step_existing [OF that]] a by blast
  show ?thesis
  proof (cases "starting (beginStart cb fd s)")
    case False
    with a assms(3) show ?thesis
      using stop_idle [OF \<open>vpn_inv s\<close> assms(2)]
      by (auto simp: handleStartTun_def Let_def beginStart_def vpn_inv_def current_def split: if_splits)
  next
    case True
    then have "starting (askExisting sockets (beginStart cb fd s))"
      by (simp add: askExisting_def tell_def split: option.split)
    with b [OF True] assms(3) True show ?thesis
      by (auto simp: handleStartTun_def Let_def finishStart_def clear_def removeHook_def tell_def vpn_inv_def current_def
          split: option.splits)
  qed
qed

end
