(* ===== verification/AndroidLib.thy ===== *)
theory AndroidLib
  imports AndroidTun LifecycleProofs Dispatch
begin

section \<open>The exports of the Android library (\<open>core/lib.go\<close>, \<open>core/mobile/mobile.go\<close>)\<close>

text \<open>
  What the Android service calls: the VPN of \<open>AndroidTun\<close> together with the core of \<open>Lifecycle\<close>, the updates
  of the system's name servers, the forced collections, and the listener to which events go. An export is a
  function to the next state; \<open>None\<close> would be a panic, which \<open>recoverExport\<close> only logs. A goroutine that an
  export spawns is a pending entry of the state, taken up by a step of its own.
\<close>

subsection \<open>The Java side (\<open>mobile.go\<close>)\<close>

text \<open>Every callback can throw; an exception is an error here, and numbers are 32 bits wide.\<close>

record javaHandler =
  jProtect :: "int \<Rightarrow> (string, bool) result"
  jResolveUid :: "int \<Rightarrow> string \<Rightarrow> string \<Rightarrow> (string, int) result"
  jResolvePackage :: "int \<Rightarrow> (string, string) result"

definition int32 :: "int \<Rightarrow> int" where
  "int32 n = signed_take_bit 31 n"

definition javaProtect :: "javaHandler \<Rightarrow> int \<Rightarrow> bool" where
  "javaProtect h fd = (case jProtect h (int32 fd) of Inl _ \<Rightarrow> False | Inr protected \<Rightarrow> protected)"

definition javaResolveUid :: "javaHandler \<Rightarrow> int \<Rightarrow> string \<Rightarrow> string \<Rightarrow> int" where
  "javaResolveUid h protocol source target =
     (case jResolveUid h (int32 protocol) source target of Inl _ \<Rightarrow> - 1 | Inr uid \<Rightarrow> uid)"

definition javaResolvePackage :: "javaHandler \<Rightarrow> int \<Rightarrow> string" where
  "javaResolvePackage h uid = (case jResolvePackage h (int32 uid) of Inl _ \<Rightarrow> [] | Inr name \<Rightarrow> name)"

definition tunCallbacks :: "javaHandler \<Rightarrow> callbacks" where
  "tunCallbacks h = \<lparr>ResolveUid = javaResolveUid h, ResolvePackage = javaResolvePackage h\<rparr>"

subsection \<open>State\<close>

record ('x, 's, 'g) app =
  vpn :: vpn
  core :: "('x, 's, 'g) core"
  dnsUpdateSeq :: u64
  dnsPending :: "(u64 \<times> string) list"      \<comment> \<open>the goroutines of \<open>handleUpdateDns\<close>\<close>
  systemDns :: "string list list"          \<comment> \<open>the updates mihomo was told, newest last\<close>
  forceGCPending :: bool
  collecting :: nat                        \<comment> \<open>the goroutines of \<open>ForceGC\<close>\<close>
  eventListener :: "nat option"
  listening :: bool
  delivered :: "(nat \<times> bytes) list"

subsection \<open>The VPN and the core\<close>

definition StartTun ::
  "('x, 's, 'g) outside \<Rightarrow> ('st, nat) tunEnv \<Rightarrow> int list \<Rightarrow> callbacks \<Rightarrow> int \<Rightarrow> string \<Rightarrow> string \<Rightarrow> string \<Rightarrow> string \<Rightarrow>
     ('x, 's, 'g) app \<Rightarrow> (('x, 's, 'g) app \<times> bool) option" where
  "StartTun env tenv sockets cb fd stack address dns options a =
     (case handleStartTun tenv sockets cb fd stack address dns options (vpn a) of
        (v, started) \<Rightarrow>
          (let a = a\<lparr>vpn := v\<rparr>
           in if \<not> started then Some (a, False)
              else if \<not> isRunning (core a)
              then map_option (\<lambda>c. (a\<lparr>core := c\<rparr>, True)) (handleStartListener env (core a))
              else Some (a\<lparr>core := moveRoute env RouteReset (handleResetConnections (core a))\<rparr>, True)))"

definition StopTun :: "('x, 's, 'g) outside \<Rightarrow> ('x, 's, 'g) app \<Rightarrow> ('x, 's, 'g) app option" where
  "StopTun env a =
     (let a = a\<lparr>vpn := handleStopTun (vpn a)\<rparr>
      in if isRunning (core a) then map_option (\<lambda>c. a\<lparr>core := c\<rparr>) (handleStopListener env (core a)) else Some a)"

definition StartListener :: "('x, 's, 'g) outside \<Rightarrow> ('x, 's, 'g) app \<Rightarrow> ('x, 's, 'g) app option" where
  "StartListener env a =
     (if \<not> isRunning (core a) then map_option (\<lambda>c. a\<lparr>core := c\<rparr>) (handleStartListener env (core a)) else Some a)"

definition StopListener :: "('x, 's, 'g) outside \<Rightarrow> ('x, 's, 'g) app \<Rightarrow> ('x, 's, 'g) app option" where
  "StopListener env a =
     (if isRunning (core a) then map_option (\<lambda>c. a\<lparr>core := c\<rparr>) (handleStopListener env (core a)) else Some a)"

definition ResetNetwork :: "('x, 's, 'g) app \<Rightarrow> ('x, 's, 'g) app" where
  "ResetNetwork a = a\<lparr>core := handleResetNetwork (core a)\<rparr>"

subsection \<open>Name servers\<close>

definition serversOf :: "string \<Rightarrow> string list" where
  "serversOf value = (if value \<noteq> [] then split_on (CHR '','') value else [])"

definition handleUpdateDns :: "string \<Rightarrow> ('x, 's, 'g) app \<Rightarrow> ('x, 's, 'g) app" where
  "handleUpdateDns value a =
     (let seq = dnsUpdateSeq a + 1 in a\<lparr>dnsUpdateSeq := seq, dnsPending := dnsPending a @ [(seq, value)]\<rparr>)"

text \<open>The goroutine, once it holds the mutex.\<close>

definition runDnsUpdate :: "u64 \<Rightarrow> string \<Rightarrow> ('x, 's, 'g) app \<Rightarrow> ('x, 's, 'g) app" where
  "runDnsUpdate seq value a =
     (if seq \<noteq> dnsUpdateSeq a then a else a\<lparr>systemDns := systemDns a @ [serversOf value]\<rparr>)"

subsection \<open>Collections\<close>

definition ForceGC :: "('x, 's, 'g) app \<Rightarrow> ('x, 's, 'g) app" where
  "ForceGC a = (if forceGCPending a then a else a\<lparr>forceGCPending := True, collecting := collecting a + 1\<rparr>)"

definition collected :: "('x, 's, 'g) app \<Rightarrow> ('x, 's, 'g) app" where
  "collected a = a\<lparr>forceGCPending := False, collecting := collecting a - 1\<rparr>"

subsection \<open>Events\<close>

definition SetEventListener :: "nat option \<Rightarrow> ('x, 's, 'g) app \<Rightarrow> ('x, 's, 'g) app" where
  "SetEventListener l a =
     (let a = a\<lparr>eventListener := l, listening := (l \<noteq> None)\<rparr>
      in if l = None
         then (case stopRouteWatch (callSeq (core a)) (tracker (core a)) of
                 (t, seq) \<Rightarrow> a\<lparr>core := (core a)\<lparr>tracker := t, callSeq := seq\<rparr>\<rparr>)
         else a)"

definition hasEventListener :: "('x, 's, 'g) app \<Rightarrow> bool" where
  "hasEventListener a = listening a"

definition deliverEvent :: "bytes \<Rightarrow> ('x, 's, 'g) app \<Rightarrow> ('x, 's, 'g) app" where
  "deliverEvent data a =
     (case eventListener a of None \<Rightarrow> a | Some l \<Rightarrow> a\<lparr>delivered := delivered a @ [(l, data)]\<rparr>)"

subsection \<open>Calls and the quick setup\<close>

definition InvokeMethod ::
  "(string \<Rightarrow> (string, methodCall) result) \<Rightarrow> string \<Rightarrow> u64 \<Rightarrow> ('r methodResponse + dispatched) \<times> u64" where
  "InvokeMethod unmarshal data methodCallSeq =
     (case unmarshal data of
        Inl msg \<Rightarrow>
          (Inl \<lparr>mr_id = [], mr_result = None,
             mr_error = Some \<lparr>me_code = ''invalid_method_call'', me_message = msg, me_details = []\<rparr>, mr_file = []\<rparr>,
           methodCallSeq)
      | Inr call \<Rightarrow> (case dispatchMethodCall call methodCallSeq of (d, seq) \<Rightarrow> (Inr d, seq)))"

text \<open>The goroutine of \<open>QuickSetup\<close>: what it answers, and the core it leaves.\<close>

definition QuickSetup ::
  "('x, 's, 'g) outside \<Rightarrow> (string \<Rightarrow> InitParams option) \<Rightarrow> (string \<Rightarrow> (string, SetupParams) result) \<Rightarrow>
     (SetupParams \<Rightarrow> (string, 'x config) result) \<Rightarrow> 'x config option \<Rightarrow> (setupError \<Rightarrow> string) \<Rightarrow>
     string \<Rightarrow> string \<Rightarrow> string \<Rightarrow> ('x, 's, 'g) core \<Rightarrow> string list \<times> ('x, 's, 'g) core" where
  "QuickSetup env parseInit parseSetup load fallback errorText panicText initParamsString setupParamsString c =
     (case parseInit initParamsString of
        None \<Rightarrow> ([''init failed''], c)
      | Some initParams \<Rightarrow>
          (let c = handleInit initParams c
           in case parseSetup setupParamsString of
                Inl e \<Rightarrow> ([e], c)
              | Inr setupParams \<Rightarrow>
                  (let c = setRunning True c
                   in case handleSetupConfig env setupParams (load setupParams) fallback c of
                        None \<Rightarrow> ([''internal panic: '' @ panicText], c)
                      | Some (c, Some e) \<Rightarrow> ([errorText e], c)
                      | Some (c, None) \<Rightarrow> ([[]], c))))"

subsection \<open>Steps\<close>

text \<open>
  One export, one goroutine, one step of the VPN's hooks or one call of the core at a time. The index is the
  history of the name servers the service reported.
\<close>

inductive app_step :: "('x, 's, 'g) outside \<Rightarrow> string list \<Rightarrow> ('x, 's, 'g) app \<Rightarrow> string list \<Rightarrow> ('x, 's, 'g) app \<Rightarrow> bool"
  for env :: "('x, 's, 'g) outside" where
  app_vpn: "vpn_step (vpn a) v \<Longrightarrow> app_step env asked a asked (a\<lparr>vpn := v\<rparr>)"
| app_core: "runCall env hostCall (core a) = Some c \<Longrightarrow> app_step env asked a asked (a\<lparr>core := c\<rparr>)"
| app_start: "\<not> starting (vpn a) \<Longrightarrow>
    (\<And>l. fst (TunStart.Start (tenv :: (nat, nat) tunEnv) fd stack address dns options) = Some l \<Longrightarrow>
       Up l \<notin> set (happened (vpn a))) \<Longrightarrow>
    StartTun env tenv sockets cb fd stack address dns options a = Some (b, started) \<Longrightarrow>
    app_step env asked a asked b"
| app_stop: "\<not> starting (vpn a) \<Longrightarrow> StopTun env a = Some b \<Longrightarrow> app_step env asked a asked b"
| app_startListener: "StartListener env a = Some b \<Longrightarrow> app_step env asked a asked b"
| app_stopListener: "StopListener env a = Some b \<Longrightarrow> app_step env asked a asked b"
| app_resetNetwork: "app_step env asked a asked (ResetNetwork a)"
| app_updateDns: "app_step env asked a (asked @ [value]) (handleUpdateDns value a)"
| app_runDns: "dnsPending a = as @ (seq, value) # bs \<Longrightarrow>
    app_step env asked a asked (runDnsUpdate seq value (a\<lparr>dnsPending := as @ bs\<rparr>))"
| app_forceGC: "app_step env asked a asked (ForceGC a)"
| app_collected: "0 < collecting a \<Longrightarrow> app_step env asked a asked (collected a)"
| app_setListener: "app_step env asked a asked (SetEventListener l a)"
| app_deliver: "app_step env asked a asked (deliverEvent data a)"

definition initApp :: "bool \<Rightarrow> ('x, 's, 'g) core \<Rightarrow> ('x, 's, 'g) app" where
  "initApp armed c = \<lparr>vpn = initVpn armed, core = c, dnsUpdateSeq = 0, dnsPending = [], systemDns = [],
     forceGCPending = False, collecting = 0, eventListener = None, listening = False, delivered = []\<rparr>"

inductive app_reachable :: "('x, 's, 'g) outside \<Rightarrow> string list \<Rightarrow> ('x, 's, 'g) app \<Rightarrow> bool"
  for env :: "('x, 's, 'g) outside" where
  app_init: "core_reachable env c \<Longrightarrow> app_reachable env [] (initApp armed c)"
| app_next: "app_reachable env asked a \<Longrightarrow> app_step env asked a asked' b \<Longrightarrow> app_reachable env asked' b"

subsection \<open>The invariant\<close>

definition dns_inv :: "string list \<Rightarrow> ('x, 's, 'g) app \<Rightarrow> bool" where
  "dns_inv asked a \<longleftrightarrow>
     dnsUpdateSeq a = of_nat (length asked) \<and>
     (\<forall>(seq, value) \<in> set (dnsPending a). \<exists>i < length asked. seq = of_nat (Suc i) \<and> value = asked ! i) \<and>
     (asked \<noteq> [] \<longrightarrow> (of_nat (length asked), last asked) \<in> set (dnsPending a) \<or>
        systemDns a \<noteq> [] \<and> last (systemDns a) = serversOf (last asked))"

definition app_inv :: "('x, 's, 'g) outside \<Rightarrow> string list \<Rightarrow> ('x, 's, 'g) app \<Rightarrow> bool" where
  "app_inv env asked a \<longleftrightarrow>
     vpn_inv (vpn a) \<and> core_inv env (core a) \<and> collecting a = (if forceGCPending a then 1 else 0) \<and>
     listening a = (eventListener a \<noteq> None) \<and> (length asked < 2 ^ 64 \<longrightarrow> dns_inv asked a)"

lemma start_core: "core_inv env c \<Longrightarrow> \<exists>c'. handleStartListener env c = Some c' \<and> core_inv env c'"
  using runCall_inv [of env c LifecycleProofs.Start] by (auto simp: runCall_def)

lemma stop_core: "core_inv env c \<Longrightarrow>
    \<exists>c'. handleStopListener env c = Some c' \<and> core_inv env c' \<and> \<not> isRunning c'"
proof -
  assume inv: "core_inv env c"
  then obtain c' where c': "handleStopListener env c = Some c'" "\<not> isRunning c'"
    by (auto simp: core_inv_def elim: handleStop_ok)
  then show ?thesis using runCall_inv [OF inv, of Stop] by (auto simp: runCall_def)
qed

lemma core_inv_frame [simp]:
  "core_inv env (say ms c) = core_inv env c" "core_inv env (moveRoute env ch c) = core_inv env c"
  by (simp_all add: core_inv_def tunOnOf_def)

lemma ups_begin: "ups (happened (beginStart cb fd v)) = ups (happened v)"
  by (auto simp: beginStart_def Let_def stopTunLocked_def closeHandler_def clear_def removeHook_def tell_def initHook_def
      split: option.split)

lemma start_vpn_inv:
  assumes "vpn_inv v" and "\<not> starting v"
    and fresh: "\<And>l. fst (TunStart.Start tenv fd stack address dns options) = Some l \<Longrightarrow> Up l \<notin> set (happened v)"
  shows "vpn_inv (fst (handleStartTun tenv sockets cb fd stack address dns options v))"
proof -
  let ?b = "beginStart cb fd v"
  have b: "vpn_inv ?b" using inv_step [OF step_begin [OF assms(2)] assms(1)] .
  show ?thesis
  proof (cases "starting ?b")
    case True
    let ?e = "askExisting sockets ?b"
    have e: "vpn_inv ?e" using inv_step [OF step_existing [OF True] b] .
    have "starting ?e" "ups (happened ?e) = ups (happened v)"
      using True ups_begin [of cb fd v] by (simp_all add: askExisting_def tell_def split: option.split)
    then have "vpn_step ?e (fst (finishStart (fst (TunStart.Start tenv fd stack address dns options)) ?e))"
      using fresh set_ups by (metis step_end)
    then show ?thesis using inv_step [OF _ e] True by (simp add: handleStartTun_def Let_def)
  qed (use b in \<open>simp add: handleStartTun_def Let_def\<close>)
qed

lemma dns_inv_frame:
  assumes "dnsUpdateSeq b = dnsUpdateSeq a" "dnsPending b = dnsPending a" "systemDns b = systemDns a"
  shows "dns_inv asked b = dns_inv asked a"
  using assms by (simp add: dns_inv_def)

lemma nat_word_eq: "n < 2 ^ 64 \<Longrightarrow> m < 2 ^ 64 \<Longrightarrow> (of_nat n = (of_nat m :: u64)) = (n = m)"
  by (simp add: word_of_nat_eq_iff take_bit_nat_eq_self)

lemma dns_update: "dns_inv asked a \<Longrightarrow> dns_inv (asked @ [value]) (handleUpdateDns value a)"
  by (fastforce simp: dns_inv_def handleUpdateDns_def Let_def nth_append less_Suc_eq)

lemma dns_run:
  assumes "dns_inv asked a" and "dnsPending a = as @ (seq, value) # bs" and "length asked < 2 ^ 64"
  shows "dns_inv asked (runDnsUpdate seq value (a\<lparr>dnsPending := as @ bs\<rparr>))"
proof -
  from assms(1,2) obtain i where i: "i < length asked" "seq = of_nat (Suc i)" "value = asked ! i"
    by (auto simp: dns_inv_def)
  have "seq = of_nat (length asked) \<longleftrightarrow> Suc i = length asked"
    unfolding i(2) using i(1) assms(3) by (intro nat_word_eq) auto
  moreover have "Suc i = length asked \<Longrightarrow> value = last asked"
    using i by (metis diff_Suc_1 last_conv_nth length_greater_0_conv less_nat_zero_code zero_less_Suc)
  ultimately show ?thesis
    using assms(1,2) by (auto simp: dns_inv_def runDnsUpdate_def)
qed

lemma app_inv_init: "core_reachable env c \<Longrightarrow> app_inv env [] (initApp armed c)"
  by (simp add: app_inv_def initApp_def inv_init reachable_inv dns_inv_def)

lemma app_same: "a\<lparr>core := core a\<rparr> = a" "a\<lparr>vpn := v, core := core a\<rparr> = a\<lparr>vpn := v\<rparr>"
  by (cases a, simp)+

lemma startTun_ok:
  assumes "core_inv env (core a)"
  obtains c started where
    "StartTun env tenv sockets cb fd stack address dns options a =
       Some (a\<lparr>vpn := fst (handleStartTun tenv sockets cb fd stack address dns options (vpn a)), core := c\<rparr>, started)"
    "core_inv env c"
proof -
  obtain v started where v: "handleStartTun tenv sockets cb fd stack address dns options (vpn a) = (v, started)"
    by (meson surj_pair)
  show ?thesis
  proof (cases "started \<and> \<not> isRunning (core a)")
    case True
    then show ?thesis
      using start_core [OF assms] that v by (auto simp: StartTun_def Let_def)
  next
    case False
    then show ?thesis
      using that [of "if started then moveRoute env RouteReset (handleResetConnections (core a)) else core a"] v assms
      by (cases started) (simp_all add: StartTun_def Let_def handleResetConnections_def app_same)
  qed
qed

lemma stopTun_ok:
  assumes "core_inv env (core a)"
  obtains c where "StopTun env a = Some (a\<lparr>vpn := handleStopTun (vpn a), core := c\<rparr>)" "core_inv env c" "\<not> isRunning c"
proof (cases "isRunning (core a)")
  case True
  then show ?thesis using stop_core [OF assms] that by (auto simp: StopTun_def Let_def)
next
  case False
  then show ?thesis using that [of "core a"] assms by (simp add: StopTun_def Let_def app_same)
qed

lemma startListener_ok:
  assumes "core_inv env (core a)"
  obtains c where "StartListener env a = Some (a\<lparr>core := c\<rparr>)" "core_inv env c"
proof (cases "isRunning (core a)")
  case True
  then show ?thesis using that [of "core a"] assms by (simp add: StartListener_def app_same)
next
  case False
  then show ?thesis using start_core [OF assms] that by (auto simp: StartListener_def)
qed

lemma stopListener_ok:
  assumes "core_inv env (core a)"
  obtains c where "StopListener env a = Some (a\<lparr>core := c\<rparr>)" "core_inv env c"
proof (cases "isRunning (core a)")
  case True
  then show ?thesis using stop_core [OF assms] that by (auto simp: StopListener_def)
next
  case False
  then show ?thesis using that [of "core a"] assms by (simp add: StopListener_def app_same)
qed

lemma app_inv_core: "app_inv env asked a \<Longrightarrow> core_inv env c \<Longrightarrow> vpn_inv v \<Longrightarrow> app_inv env asked (a\<lparr>vpn := v, core := c\<rparr>)"
  by (simp add: app_inv_def dns_inv_def)

lemma app_inv_step: "app_step env asked a asked' b \<Longrightarrow> app_inv env asked a \<Longrightarrow> app_inv env asked' b"
proof (induction rule: app_step.induct)
  case (app_vpn a v asked)
  then show ?case using app_inv_core [of env asked a "core a" v] by (simp add: app_inv_def inv_step)
next
  case (app_core hostCall a c asked)
  then show ?case
    using app_inv_core [of env asked a c "vpn a"] runCall_inv [of env "core a" hostCall] by (auto simp: app_inv_def)
next
  case (app_start a tenv fd stack address dns options sockets cb b started asked)
  then have inv: "vpn_inv (vpn a)" "core_inv env (core a)" by (simp_all add: app_inv_def)
  obtain c started' where c: "StartTun env tenv sockets cb fd stack address dns options a =
       Some (a\<lparr>vpn := fst (handleStartTun tenv sockets cb fd stack address dns options (vpn a)), core := c\<rparr>, started')"
    "core_inv env c"
    using startTun_ok [OF inv(2)] .
  moreover have "vpn_inv (fst (handleStartTun tenv sockets cb fd stack address dns options (vpn a)))"
    by (rule start_vpn_inv [OF inv(1) app_start(1)]) (rule app_start(2))
  ultimately show ?case using app_inv_core [OF app_start(4) c(2)] app_start(3) by simp
next
  case (app_stop a b asked)
  then have inv: "vpn_inv (vpn a)" "core_inv env (core a)" by (simp_all add: app_inv_def)
  obtain c where c: "StopTun env a = Some (a\<lparr>vpn := handleStopTun (vpn a), core := c\<rparr>)" "core_inv env c"
    using stopTun_ok [OF inv(2)] .
  with app_stop(2) show ?case
    using app_inv_core [OF app_stop(3) c(2) inv_step [OF step_stop [OF app_stop(1)] inv(1)]] by simp
next
  case (app_startListener a b asked)
  then have "core_inv env (core a)" by (simp add: app_inv_def)
  then obtain c where "StartListener env a = Some (a\<lparr>core := c\<rparr>)" "core_inv env c" using startListener_ok by blast
  with app_startListener show ?case using app_inv_core [of env asked a c "vpn a"] by (simp add: app_inv_def)
next
  case (app_stopListener a b asked)
  then have "core_inv env (core a)" by (simp add: app_inv_def)
  then obtain c where "StopListener env a = Some (a\<lparr>core := c\<rparr>)" "core_inv env c" using stopListener_ok by blast
  with app_stopListener show ?case using app_inv_core [of env asked a c "vpn a"] by (simp add: app_inv_def)
next
  case (app_resetNetwork asked a)
  then show ?case
    using app_inv_core [of env asked a "handleResetNetwork (core a)" "vpn a"]
    by (simp add: app_inv_def ResetNetwork_def handleResetNetwork_def resetNetworkState_def)
next
  case (app_updateDns asked a v)
  then show ?case using dns_update [of asked a v] by (auto simp: app_inv_def handleUpdateDns_def Let_def)
next
  case (app_runDns a as seq v bs asked)
  then show ?case using dns_run [of asked a as seq v bs] by (auto simp: app_inv_def runDnsUpdate_def)
next
  case (app_forceGC asked a)
  then show ?case by (auto simp: app_inv_def ForceGC_def dns_inv_def split: if_splits)
next
  case (app_collected a asked)
  then show ?case by (auto simp: app_inv_def collected_def dns_inv_def split: if_splits)
next
  case (app_setListener asked a l)
  then show ?case
    by (auto simp: app_inv_def SetEventListener_def Let_def dns_inv_def core_inv_def tunOnOf_def split: prod.split)
next
  case (app_deliver asked a data)
  then show ?case by (auto simp: app_inv_def deliverEvent_def dns_inv_def split: option.split)
qed

lemma app_reachable_inv: "app_reachable env asked a \<Longrightarrow> app_inv env asked a"
  by (induction rule: app_reachable.induct) (auto simp: app_inv_init app_inv_step)


text \<open>Two reports of the name servers, whose goroutines run in the other order.\<close>

definition twoReports :: "(unit, unit, unit) app" where
  "twoReports =
     runDnsUpdate 1 ''1.1.1.1'' ((runDnsUpdate 2 ''8.8.8.8,8.8.4.4''
       ((handleUpdateDns ''8.8.8.8,8.8.4.4'' (handleUpdateDns ''1.1.1.1'' (initApp True bootCore)))
         \<lparr>dnsPending := [(1, ''1.1.1.1'')]\<rparr>))\<lparr>dnsPending := []\<rparr>)"

lemma twoReports_reachable: "app_reachable (desk (\<lambda>_. [])) [''1.1.1.1'', ''8.8.8.8,8.8.4.4''] twoReports"
proof -
  let ?env = "desk (\<lambda>_. [])"
  let ?a = "handleUpdateDns ''8.8.8.8,8.8.4.4'' (handleUpdateDns ''1.1.1.1'' (initApp True bootCore))"
  let ?b = "runDnsUpdate 2 ''8.8.8.8,8.8.4.4'' (?a\<lparr>dnsPending := [(1, ''1.1.1.1'')]\<rparr>)"
  have "app_reachable ?env ([] @ [''1.1.1.1'']) (handleUpdateDns ''1.1.1.1'' (initApp True bootCore))"
    by (rule app_next [OF app_init [OF bootCore_reachable] app_updateDns])
  then have "app_reachable ?env (([] @ [''1.1.1.1'']) @ [''8.8.8.8,8.8.4.4'']) ?a"
    by (rule app_next [OF _ app_updateDns])
  then have a: "app_reachable ?env [''1.1.1.1'', ''8.8.8.8,8.8.4.4''] ?a" by simp
  have "dnsPending ?a = [(1, ''1.1.1.1'')] @ (2, ''8.8.8.8,8.8.4.4'') # []"
    by (simp add: handleUpdateDns_def initApp_def)
  from app_next [OF a app_runDns [OF this]]
  have b: "app_reachable ?env [''1.1.1.1'', ''8.8.8.8,8.8.4.4''] ?b" by simp
  have "dnsPending ?b = [] @ (1, ''1.1.1.1'') # []" by (simp add: runDnsUpdate_def)
  from app_next [OF b app_runDns [OF this]]
  show ?thesis by (simp add: twoReports_def)
qed


end
