(* ===== verification/Delivery.thy ===== *)
theory Delivery
  imports Batcher Ipc "HOL-Library.Sublist"
begin

section \<open>From an event to the host (\<open>core/message.go\<close> over \<open>core/server.go\<close>)\<close>

text \<open>
  The batcher of \<open>Batcher\<close> put over the connection of \<open>Ipc\<close>: each batch it flushes is encoded and written by
  \<open>sendMessageBatch\<close> before its loop goes on, and the replies to the host's calls are written in between by
  other goroutines. \<open>json.Marshal\<close> of a batch is the argument.
\<close>

subsection \<open>One batch\<close>

type_synonym 'd batchMarshal = "'d message list \<Rightarrow> (string, bytes) result"

text \<open>A batch that cannot be encoded is only logged. The desktop's \<open>deliverEvent\<close> is \<open>send\<close>.\<close>

definition deliverToHost :: "bytes \<Rightarrow> ipcState \<Rightarrow> ipcState option" where
  "deliverToHost data st = send data st"

definition sendMessageBatch :: "'d batchMarshal \<Rightarrow> 'd message list \<Rightarrow> ipcState \<Rightarrow> ipcState option" where
  "sendMessageBatch marshal ms st =
     (case marshal ms of
        Inl err \<Rightarrow> Some st
      | Inr data \<Rightarrow> deliverToHost data st)"

text \<open>Did the batch get through?\<close>

definition batchOk :: "'d batchMarshal \<Rightarrow> 'd message list \<Rightarrow> ipcState \<Rightarrow> bool" where
  "batchOk marshal ms st = (case marshal ms of Inl err \<Rightarrow> False | Inr data \<Rightarrow> sentOk data st)"

fun sendBatches ::
  "'d batchMarshal \<Rightarrow> 'd message list list \<Rightarrow> ipcState \<Rightarrow> (ipcState \<times> 'd message list list) option" where
  "sendBatches marshal [] st = Some (st, [])"
| "sendBatches marshal (b # bs) st =
     (case sendMessageBatch marshal b st of
        None \<Rightarrow> None
      | Some u \<Rightarrow>
          map_option (\<lambda>(v, oks). (v, if batchOk marshal b st then b # oks else oks)) (sendBatches marshal bs u))"

subsection \<open>The system\<close>

text \<open>\<open>through\<close> keeps what was written in full, a batch or a reply.\<close>

record 'd delivery =
  events :: "'d message batcher"
  link :: ipcState
  through :: "('d message list + bytes) list"

text \<open>The queue \<open>sendMessage\<close> picks.\<close>

definition queueOf :: "'d message \<Rightarrow> source" where
  "queueOf m =
     (case classOfMessage m of
        StateClass \<Rightarrow> StateQ | PriorityClass \<Rightarrow> PriorityQ | BulkClass \<Rightarrow> BulkQ | YieldingBulkClass \<Rightarrow> BulkQ)"

inductive delivery_step :: "'d batchMarshal \<Rightarrow> (bytes \<Rightarrow> bool) \<Rightarrow> 'd delivery \<Rightarrow> 'd delivery \<Rightarrow> bool"
  for marshal :: "'d batchMarshal" and isReply :: "bytes \<Rightarrow> bool" where
  deliver_run: "batcherStep choice (events s) = Some b \<Longrightarrow>
    sendBatches marshal (map (map snd) (drop (length (sent (events s))) (sent b))) (link s) = Some (l, oks) \<Longrightarrow>
    delivery_step marshal isReply s \<lparr>events = b, link = l, through = through s @ map Inl oks\<rparr>"
| deliver_arrive: "length (waiting (events s) (queueOf m)) < messageQueueSize \<Longrightarrow>
    \<not> closed (events s) (queueOf m) \<Longrightarrow>
    delivery_step marshal isReply s (s\<lparr>events := (events s)
      \<lparr>waiting := (waiting (events s))(queueOf m := waiting (events s) (queueOf m) @ [m]),
       accepted := (accepted (events s))(queueOf m := accepted (events s) (queueOf m) @ [m])\<rparr>\<rparr>)"
| deliver_evict: "x \<noteq> StateQ \<Longrightarrow> waiting (events s) x = m # ms \<Longrightarrow>
    delivery_step marshal isReply s (s\<lparr>events := (events s)
      \<lparr>waiting := (waiting (events s))(x := ms),
       accepted := (accepted (events s))(x := taken (events s) x @ ms),
       bulkWait := (if x = BulkQ \<and> ms = [] then 0 else bulkWait (events s))\<rparr>\<rparr>)"
| deliver_reply: "isReply data \<Longrightarrow> send data (link s) = Some l \<Longrightarrow>
    delivery_step marshal isReply s
      (s\<lparr>link := l, through := (if sentOk data (link s) then through s @ [Inr data] else through s)\<rparr>)"

text \<open>\<open>serve\<close> has set the connection, on which nothing was written.\<close>

definition initDelivery :: "conn \<Rightarrow> 'd delivery" where
  "initDelivery c = \<lparr>events = initBatcher,
     link = \<lparr>ipc_conn = Some c, deliveryFailureReported = False, stderrLog = [], closedConns = []\<rparr>, through = []\<rparr>"

inductive delivery_reachable :: "'d batchMarshal \<Rightarrow> (bytes \<Rightarrow> bool) \<Rightarrow> 'd delivery \<Rightarrow> bool"
  for marshal :: "'d batchMarshal" and isReply :: "bytes \<Rightarrow> bool" where
  delivery_init: "wire c = [] \<Longrightarrow> delivery_reachable marshal isReply (initDelivery c)"
| delivery_next: "delivery_reachable marshal isReply s \<Longrightarrow> delivery_step marshal isReply s t \<Longrightarrow>
    delivery_reachable marshal isReply t"

subsection \<open>The invariant\<close>

definition frameText :: "'d batchMarshal \<Rightarrow> 'd message list + bytes \<Rightarrow> bytes" where
  "frameText marshal f =
     (case f of Inl b \<Rightarrow> (case marshal b of Inl err \<Rightarrow> [] | Inr data \<Rightarrow> data) | Inr data \<Rightarrow> data)"

definition batchesOf :: "('a + 'b) list \<Rightarrow> 'a list" where
  "batchesOf fs = List.map_filter (\<lambda>f. case f of Inl b \<Rightarrow> Some b | Inr _ \<Rightarrow> None) fs"

lemma batchesOf_simps [simp]:
  "batchesOf [] = []" "batchesOf (fs @ gs) = batchesOf fs @ batchesOf gs" "batchesOf (map Inl bs) = bs"
  "batchesOf [Inr r] = []"
  by (simp_all add: batchesOf_def List.map_filter_def comp_def)

definition frames_ok :: "'d batchMarshal \<Rightarrow> (bytes \<Rightarrow> bool) \<Rightarrow> ('d message list + bytes) list \<Rightarrow> bool" where
  "frames_ok marshal isReply fs \<longleftrightarrow>
     (\<forall>f \<in> set fs. length (frameText marshal f) \<le> maxIPCFrameSize \<and>
        (case f of Inl b \<Rightarrow> \<exists>data. marshal b = Inr data | Inr data \<Rightarrow> isReply data))"

definition delivery_inv :: "'d batchMarshal \<Rightarrow> (bytes \<Rightarrow> bool) \<Rightarrow> 'd delivery \<Rightarrow> bool" where
  "delivery_inv marshal isReply s \<longleftrightarrow>
     batcher_reachable (events s) \<and>
     (\<forall>x. \<forall>m \<in> set (accepted (events s) x). queueOf m = x) \<and>
     stream_of (map (frameText marshal) (through s)) (link s) \<and>
     frames_ok marshal isReply (through s) \<and>
     subseq (batchesOf (through s)) (map (map snd) (sent (events s)))"

lemma sendBatches_stream:
  assumes "sendBatches marshal bs l = Some (l', oks)"
    and "stream_of (map (frameText marshal) fs) l" and "frames_ok marshal isReply fs"
  shows "stream_of (map (frameText marshal) (fs @ map Inl oks)) l' \<and> frames_ok marshal isReply (fs @ map Inl oks) \<and>
    subseq oks bs"
  using assms
proof (induction bs arbitrary: l fs oks)
  case Nil
  then show ?case by simp
next
  case (Cons b bs)
  show ?case
  proof (cases "marshal b")
    case (Inl err)
    with Cons.prems(1) obtain more where "sendBatches marshal bs l = Some (l', oks)"
      by (auto simp: sendMessageBatch_def batchOk_def)
    with Cons.IH [OF this Cons.prems(2,3)] show ?thesis by auto
  next
    case (Inr data)
    with Cons.prems(1) obtain u rest where u: "send data l = Some u" "sendBatches marshal bs u = Some (l', rest)"
      "oks = (if sentOk data l then b # rest else rest)"
      by (auto simp: sendMessageBatch_def batchOk_def deliverToHost_def split: option.splits)
    let ?fs = "if sentOk data l then fs @ [Inl b] else fs"
    have ft: "frameText marshal (Inl b) = data" using Inr by (simp add: frameText_def)
    have "stream_of (map (frameText marshal) ?fs) u"
      using send_stream [OF u(1) Cons.prems(2)] ft by (simp split: if_splits)
    moreover have "frames_ok marshal isReply ?fs"
      using Cons.prems(3) Inr ft sentOk_fits [of data l] by (auto simp: frames_ok_def)
    ultimately show ?thesis
      using Cons.IH [OF u(2), of ?fs] u(3) by (auto split: if_splits)
  qed
qed

lemma batcherStep_sent: "batcherStep choice s = Some t \<Longrightarrow> \<exists>bs. sent t = sent s @ bs"
  by (auto simp: batcherStep_def flush_def takeFrom_def takePriority_def takeBulk_def Let_def
      split: point.splits if_splits option.splits source.splits list.splits)

lemma batcherStep_accepted: "batcherStep choice s = Some t \<Longrightarrow> accepted t = accepted s"
  by (auto simp: batcherStep_def flush_def takeFrom_def takePriority_def takeBulk_def Let_def
      split: point.splits if_splits option.splits source.splits list.splits)

lemma batcher_accepted: "batcher_reachable b \<Longrightarrow> accepted b x = taken b x @ waiting b x"
  using batcher_reachable_inv by (auto simp: batcher_inv_def fifo_inv_def)

lemma delivery_inv_step:
  assumes step: "delivery_step marshal isReply s t" and inv: "delivery_inv marshal isReply s"
  shows "delivery_inv marshal isReply t"
proof -
  have parts: "batcher_reachable (events s)" "\<And>x. \<forall>m \<in> set (accepted (events s) x). queueOf m = x"
    "stream_of (map (frameText marshal) (through s)) (link s)" "frames_ok marshal isReply (through s)"
    "subseq (batchesOf (through s)) (map (map snd) (sent (events s)))"
    using inv by (simp_all add: delivery_inv_def)
  from step show ?thesis
  proof cases
    case (deliver_run choice b l oks)
    obtain bs where bs: "sent b = sent (events s) @ bs"
      using batcherStep_sent [OF deliver_run(2)] by blast
    have "batcher_reachable b"
      using batcher_reachable.step [OF parts(1) batcher_step.run [OF deliver_run(2)]] .
    moreover have "stream_of (map (frameText marshal) (through s @ map Inl oks)) l \<and>
        frames_ok marshal isReply (through s @ map Inl oks) \<and> subseq oks (map (map snd) bs)"
      using sendBatches_stream [OF _ parts(3,4)] deliver_run(3) bs by simp
    ultimately show ?thesis
      using deliver_run(1) parts(2,5) batcherStep_accepted [OF deliver_run(2)] bs
      by (simp add: delivery_inv_def list_emb_append_mono)
  next
    case (deliver_arrive m)
    with parts show ?thesis
      using batcher_reachable.step [OF parts(1) batcher_step.arrive [OF deliver_arrive(3,2), of m]]
      by (auto simp: delivery_inv_def)
  next
    case (deliver_evict x m ms)
    have "set (taken (events s) x @ ms) \<subseteq> set (accepted (events s) x)"
      using batcher_accepted [OF parts(1), of x] deliver_evict(3) by auto
    with deliver_evict parts show ?thesis
      using batcher_reachable.step [OF parts(1) batcher_step.evict [OF deliver_evict(2,3)]]
      by (auto simp: delivery_inv_def)
  next
    case (deliver_reply data l)
    have ft: "frameText marshal (Inr data) = data" by (simp add: frameText_def)
    have "stream_of (map (frameText marshal) (through t)) l"
      using send_stream [OF deliver_reply(3) parts(3)] deliver_reply(1) ft by (simp split: if_splits)
    moreover have "frames_ok marshal isReply (through t)"
      using parts(4) deliver_reply(1,2) ft sentOk_fits [of data "link s"] by (auto simp: frames_ok_def)
    ultimately show ?thesis
      using deliver_reply(1) parts by (simp add: delivery_inv_def)
  qed
qed

lemma delivery_reachable_inv: "delivery_reachable marshal isReply s \<Longrightarrow> delivery_inv marshal isReply s"
proof (induction rule: delivery_reachable.induct)
  case (delivery_init c)
  then show ?case
    by (simp add: delivery_inv_def initDelivery_def start stream_of_def frames_ok_def)
      (simp add: initBatcher_def)
next
  case (delivery_next s t)
  then show ?case using delivery_inv_step by blast
qed

lemma subseq_append_right: "subseq xs ys \<Longrightarrow> subseq xs (ys @ zs)"
  using list_emb_append_mono [of "(=)" xs ys "[]" zs] by simp

subsection \<open>What the host gets\<close>

text \<open>The events of a queue among the frames the host read; \<open>unmarshal\<close> knows a batch from a reply.\<close>

definition hostEvents :: "(bytes \<Rightarrow> 'd message list option) \<Rightarrow> source \<Rightarrow> bytes list \<Rightarrow> 'd message list" where
  "hostEvents unmarshal x frames = filter (\<lambda>m. queueOf m = x) (concat (List.map_filter unmarshal frames))"

lemma subseq_concat: "subseq xs ys \<Longrightarrow> subseq (concat xs) (concat ys)"
  by (induction rule: list_emb.induct) (auto intro: list_emb_append_mono list_emb_append2)

lemma frames_events:
  assumes "frames_ok marshal isReply fs" and "\<And>b data. marshal b = Inr data \<Longrightarrow> unmarshal data = Some b"
    and "\<And>data. isReply data \<Longrightarrow> unmarshal data = None"
  shows "List.map_filter unmarshal (map (frameText marshal) fs) = batchesOf fs"
  using assms(1)
proof (induction fs)
  case (Cons f fs)
  then have "unmarshal (frameText marshal f) = (case f of Inl b \<Rightarrow> Some b | Inr _ \<Rightarrow> None)"
    using assms(2,3) by (auto simp: frames_ok_def frameText_def split: sum.splits)
  with Cons show ?case
    by (simp add: batchesOf_def map_filter_simps frames_ok_def split: option.split)
qed (simp add: map_filter_simps)

lemma filter_tagged:
  "\<forall>(y, m) \<in> set ps. queueOf m = y \<Longrightarrow>
     filter (\<lambda>m. queueOf m = x) (map snd ps) = map snd (filter (\<lambda>(y, _). y = x) ps)"
  by (induction ps) auto

lemma events_of_sent:
  assumes "delivery_inv marshal isReply s"
  shows "filter (\<lambda>m. queueOf m = x) (concat (map (map snd) (sent (events s)))) @
      filter (\<lambda>m. queueOf m = x) (map snd (batch (events s))) @ waiting (events s) x = accepted (events s) x"
proof -
  let ?ps = "concat (sent (events s)) @ batch (events s)"
  have acc: "accepted (events s) y = map snd (filter (\<lambda>(z, _). z = y) ?ps) @ waiting (events s) y" for y
    using assms batcher_accepted [of "events s" y] by (simp add: delivery_inv_def taken_def)
  have "\<forall>(y, m) \<in> set ?ps. queueOf m = y"
  proof clarify
    fix y m
    assume "(y, m) \<in> set ?ps"
    then have "m \<in> set (accepted (events s) y)" by (force simp: acc)
    then show "queueOf m = y" using assms by (simp add: delivery_inv_def)
  qed
  from filter_tagged [OF this, of x] acc [of x] show ?thesis
    by (simp add: map_concat)
qed

text \<open>
  \<^bold>\<open>C3.\<close> However senders, batcher, replies and the connection interleave, and whichever writes fail:
  among the frames that got through the host reads, for every queue, the accepted events in the order they
  were sent, none twice and none made up; after a frame that broke off it reads at most one more. And if every
  batch got through, the host has all that was accepted but the events still in the batch and in the queue.
\<close>

theorem events_reach_host:
  assumes "delivery_reachable marshal isReply s"
    and "\<And>b data. marshal b = Inr data \<Longrightarrow> unmarshal data = Some b"
    and "\<And>data. isReply data \<Longrightarrow> unmarshal data = None"
  shows "\<exists>frames.
    (case ipc_conn (link s) of
       Some c \<Rightarrow> delivers readFrame (wire c) frames IoEOF
     | None \<Rightarrow> \<exists>c extra e. closedConns (link s) = [c] \<and> length extra \<le> 1 \<and>
         delivers readFrame (wire c) (frames @ extra) e) \<and>
    subseq (hostEvents unmarshal x frames) (accepted (events s) x) \<and>
    (if batchesOf (through s) = map (map snd) (sent (events s))
     then hostEvents unmarshal x frames @ filter (\<lambda>m. queueOf m = x) (map snd (batch (events s)))
       @ waiting (events s) x = accepted (events s) x
     else True)"
proof -
  have inv: "delivery_inv marshal isReply s" using assms(1) by (rule delivery_reachable_inv)
  let ?frames = "map (frameText marshal) (through s)" and ?sent = "map (map snd) (sent (events s))"
  have fr: "frames_ok marshal isReply (through s)" using inv by (simp add: delivery_inv_def)
  have got: "hostEvents unmarshal x ?frames = filter (\<lambda>m. queueOf m = x) (concat (batchesOf (through s)))"
    using frames_events [OF fr assms(2,3)] by (simp add: hostEvents_def)
  have "subseq (filter (\<lambda>m. queueOf m = x) (concat (batchesOf (through s)))) (filter (\<lambda>m. queueOf m = x) (concat ?sent))"
    using inv by (intro subseq_filter subseq_concat) (simp add: delivery_inv_def)
  then have "subseq (hostEvents unmarshal x ?frames) (accepted (events s) x)"
    unfolding got events_of_sent [OF inv, of x, symmetric] by (rule subseq_append_right)
  moreover have "case ipc_conn (link s) of
       Some c \<Rightarrow> delivers readFrame (wire c) ?frames IoEOF
     | None \<Rightarrow> \<exists>c extra e. closedConns (link s) = [c] \<and> length extra \<le> 1 \<and>
         delivers readFrame (wire c) (?frames @ extra) e"
    using inv by (intro stream_of_delivers) (auto simp: delivery_inv_def frames_ok_def)
  moreover have "hostEvents unmarshal x ?frames @ filter (\<lambda>m. queueOf m = x) (map snd (batch (events s)))
       @ waiting (events s) x = accepted (events s) x"
    if "batchesOf (through s) = ?sent"
    using events_of_sent [OF inv, of x] got that by simp
  ultimately show ?thesis by auto
qed

text \<open>One event, taken into a batch that the timer flushes, over a connection that accepts everything.\<close>

definition routeEvent :: "unit message" where
  "routeEvent = \<lparr>msg_type = RouteChangedMessage, msg_data = ()\<rparr>"

definition oneBatch :: "unit batchMarshal" where
  "oneBatch b = (if b = [routeEvent] then Inr ''ev'' else Inl ''unknown'')"

definition openConn :: conn where
  "openConn = \<lparr>wire = [], outcomes = [(4, None), (2, None)], deadlineOk = []\<rparr>"

definition arrived :: "unit message batcher" where
  "arrived = initBatcher\<lparr>waiting := (\<lambda>_. [])(StateQ := [routeEvent]), accepted := (\<lambda>_. [])(StateQ := [routeEvent])\<rparr>"

definition batched :: "unit message batcher" where
  "batched = arrived\<lparr>waiting := (\<lambda>_. []), batch := [(StateQ, routeEvent)], deadline := True\<rparr>"

definition flushed :: "unit message batcher" where
  "flushed = batched\<lparr>batch := [], deadline := False, sent := [[(StateQ, routeEvent)]]\<rparr>"

definition eventLink :: ipcState where
  "eventLink = \<lparr>ipc_conn = Some \<lparr>wire = frame ''ev'', outcomes = [], deadlineOk = []\<rparr>,
     deliveryFailureReported = False, stderrLog = [], closedConns = []\<rparr>"

definition eventDelivered :: "unit delivery" where
  "eventDelivered = \<lparr>events = flushed, link = eventLink, through = [Inl [routeEvent]]\<rparr>"

lemma queueOf_routeEvent: "queueOf routeEvent = StateQ"
  by (simp add: queueOf_def routeEvent_def classOfMessage_def)

lemma quiet_run:
  assumes "delivery_reachable marshal isReply s" and "batcherStep choice (events s) = Some b"
    and "sent b = sent (events s)"
  shows "delivery_reachable marshal isReply (s\<lparr>events := b\<rparr>)"
proof -
  have "delivery_step marshal isReply s \<lparr>events = b, link = link s, through = through s @ map Inl []\<rparr>"
    using assms(2,3) by (intro delivery_step.deliver_run) simp_all
  with assms(1) show ?thesis by (cases s) (auto intro: delivery_next)
qed

lemma eventDelivered_reachable: "delivery_reachable oneBatch (\<lambda>data. data = ''re'') eventDelivered"
proof -
  let ?R = "delivery_reachable oneBatch (\<lambda>data. data = ''re'')"
  let ?s = "initDelivery openConn :: unit delivery"
  note batcher_defs = initBatcher_def arrived_def batched_def flushed_def batcherStep_def ready_def takeFrom_def
    flush_def Let_def messageBatchSize_def messagePriorityBurst_def
  have "?R ?s" by (rule delivery_init) (simp add: openConn_def)
  moreover have "delivery_step oneBatch (\<lambda>data. data = ''re'') ?s (?s\<lparr>events := arrived\<rparr>)"
    using deliver_arrive [of ?s routeEvent]
    by (simp add: queueOf_routeEvent initDelivery_def initBatcher_def arrived_def messageQueueSize_def)
  ultimately have "?R (?s\<lparr>events := arrived\<rparr>)" by (rule delivery_next)
  from quiet_run [OF this, of None batched] have "?R (?s\<lparr>events := batched\<rparr>)"
    by (simp add: batcher_defs fun_eq_iff)
  from quiet_run [OF this, of None "batched\<lparr>pc := AtBurst\<rparr>"] have "?R (?s\<lparr>events := batched\<lparr>pc := AtBurst\<rparr>\<rparr>)"
    by (simp add: batcher_defs)
  from quiet_run [OF this, of None "batched\<lparr>pc := AtPriority\<rparr>"]
  have "?R (?s\<lparr>events := batched\<lparr>pc := AtPriority\<rparr>\<rparr>)"
    by (simp add: batcher_defs)
  from quiet_run [OF this, of None "batched\<lparr>pc := AtSelect\<rparr>"]
  have "?R (?s\<lparr>events := batched\<lparr>pc := AtSelect\<rparr>\<rparr>)"
    by (simp add: batcher_defs)
  moreover have "batcherStep None (batched\<lparr>pc := AtSelect\<rparr>) = Some flushed"
    by (simp add: batcher_defs)
  moreover have "sendBatches oneBatch [[routeEvent]] (link ?s) = Some (eventLink, [[routeEvent]])"
    by (simp add: sendMessageBatch_def deliverToHost_def batchOk_def oneBatch_def send_def sentOk_def
        setWriteDeadline_def initDelivery_def openConn_def eventLink_def frame_def write_run)
  ultimately show ?thesis
    using deliver_run [of None "?s\<lparr>events := batched\<lparr>pc := AtSelect\<rparr>\<rparr>" flushed oneBatch eventLink "[[routeEvent]]"
        "\<lambda>data. data = ''re''"]
    by (auto simp: eventDelivered_def initDelivery_def flushed_def batched_def arrived_def initBatcher_def
        intro: delivery_next)
qed

lemma events_reach_host_witness:
  "\<exists>frames. delivers readFrame (frame ''ev'') frames IoEOF \<and>
     hostEvents (\<lambda>data. if data = ''ev'' then Some [routeEvent] else None) StateQ frames = [routeEvent]"
proof -
  have "\<exists>frames. (case ipc_conn (link eventDelivered) of
       Some c \<Rightarrow> delivers readFrame (wire c) frames IoEOF
     | None \<Rightarrow> \<exists>c extra e. closedConns (link eventDelivered) = [c] \<and> length extra \<le> 1 \<and>
         delivers readFrame (wire c) (frames @ extra) e) \<and>
    subseq (hostEvents (\<lambda>data. if data = ''ev'' then Some [routeEvent] else None) StateQ frames)
      (accepted (events eventDelivered) StateQ) \<and>
    (if batchesOf (through eventDelivered) = map (map snd) (sent (events eventDelivered))
     then hostEvents (\<lambda>data. if data = ''ev'' then Some [routeEvent] else None) StateQ frames
       @ filter (\<lambda>m. queueOf m = StateQ) (map snd (batch (events eventDelivered)))
       @ waiting (events eventDelivered) StateQ = accepted (events eventDelivered) StateQ
     else True)"
    by (rule events_reach_host [OF eventDelivered_reachable]) (auto simp: oneBatch_def split: if_splits)
  then show ?thesis
    by (auto simp: eventDelivered_def eventLink_def flushed_def batched_def arrived_def initBatcher_def
        batchesOf_def map_filter_simps)
qed

end
