(* ===== verification/Conversation.thy ===== *)
theory Conversation
  imports Dispatch Ipc "HOL-Library.Multiset" "HOL-Library.Sublist"
begin

section \<open>A conversation with the host (\<open>core/server.go\<close> and \<open>core/method.go\<close> together)\<close>

text \<open>
  The host's frames are read and dispatched one after the other, each call on a goroutine of its own, whose
  reply is written when its handler is done. A handler runs as one step of the shared state \<open>'st\<close>, the steps of
  the goroutines and of the serve loop come in any order, and the connection behaves as in \<open>Ipc\<close>.
\<close>

subsection \<open>The system\<close>

text \<open>
  \<open>incoming\<close> are the payloads of the host's frames that were not read yet (\<open>serve_dispatches_in_order\<close> reads
  them off the stream), \<open>consumed\<close> those that were; \<open>arrived\<close> the calls dispatched, \<open>answered\<close> each call with the
  state its handler found and the reply, and \<open>gone\<close> the replies that were written in full.
\<close>

record ('r, 'st) conversation =
  incoming :: "bytes list"
  consumed :: "bytes list"
  dispatchSeq :: u64
  arrived :: "methodCall list"
  pendingCalls :: "methodCall list"
  answered :: "(methodCall \<times> 'st \<times> bytes) list"
  gone :: "bytes list"
  coreState :: 'st
  disk :: files
  hostLink :: ipcState
  crashed :: bool

text \<open>A temporary file has a name of its own.\<close>

definition fresh_spill :: "spillEnv \<Rightarrow> files \<Rightarrow> bool" where
  "fresh_spill env fs \<longleftrightarrow> (case sp_create env of Inl _ \<Rightarrow> True | Inr path \<Rightarrow> path \<noteq> [] \<and> fs path = None)"

inductive talk_step ::
  "'r marshal \<Rightarrow> (bytes \<Rightarrow> methodCall option) \<Rightarrow> (coreMethod \<Rightarrow> ('r, 'st) handler) \<Rightarrow>
     ('r, 'st) conversation \<Rightarrow> ('r, 'st) conversation \<Rightarrow> bool"
  for marshal :: "'r marshal" and unmarshal :: "bytes \<Rightarrow> methodCall option"
    and handlers :: "coreMethod \<Rightarrow> ('r, 'st) handler" where
  talk_send: "\<not> crashed s \<Longrightarrow> talk_step marshal unmarshal handlers s (s\<lparr>incoming := incoming s @ [d]\<rparr>)"
| talk_skip: "\<not> crashed s \<Longrightarrow> incoming s = d # ds \<Longrightarrow> unmarshal d = None \<Longrightarrow>
    talk_step marshal unmarshal handlers s (s\<lparr>incoming := ds, consumed := consumed s @ [d]\<rparr>)"
| talk_call: "\<not> crashed s \<Longrightarrow> incoming s = d # ds \<Longrightarrow> unmarshal d = Some call \<Longrightarrow>
    dispatchMethodCall call (dispatchSeq s) = (Spawns c, seq) \<Longrightarrow>
    talk_step marshal unmarshal handlers s
      (s\<lparr>incoming := ds, consumed := consumed s @ [d], dispatchSeq := seq, arrived := arrived s @ [c],
         pendingCalls := pendingCalls s @ [c]\<rparr>)"
| talk_crash: "\<not> crashed s \<Longrightarrow> incoming s = d # ds \<Longrightarrow> unmarshal d = Some call \<Longrightarrow>
    dispatchMethodCall call (dispatchSeq s) = (CrashesProcess, seq) \<Longrightarrow>
    talk_step marshal unmarshal handlers s (s\<lparr>crashed := True\<rparr>)"
| talk_answer: "\<not> crashed s \<Longrightarrow> pendingCalls s = cs @ c # cs' \<Longrightarrow> fresh_spill env (disk s) \<Longrightarrow>
    handleMethodCall marshal env handlers c (coreState s) (disk s) = (data, st, fs) \<Longrightarrow>
    send data (hostLink s) = Some l \<Longrightarrow>
    talk_step marshal unmarshal handlers s
      (s\<lparr>pendingCalls := cs @ cs', answered := answered s @ [(c, coreState s, data)],
         gone := (if sentOk data (hostLink s) then gone s @ [data] else gone s),
         coreState := st, disk := fs, hostLink := l\<rparr>)"

definition initTalk :: "conn \<Rightarrow> 'st \<Rightarrow> files \<Rightarrow> ('r, 'st) conversation" where
  "initTalk c st fs = \<lparr>incoming = [], consumed = [], dispatchSeq = 0, arrived = [], pendingCalls = [],
     answered = [], gone = [], coreState = st, disk = fs,
     hostLink = \<lparr>ipc_conn = Some c, deliveryFailureReported = False, stderrLog = [], closedConns = []\<rparr>,
     crashed = False\<rparr>"

inductive talk_reachable ::
  "'r marshal \<Rightarrow> (bytes \<Rightarrow> methodCall option) \<Rightarrow> (coreMethod \<Rightarrow> ('r, 'st) handler) \<Rightarrow>
     ('r, 'st) conversation \<Rightarrow> bool"
  for marshal :: "'r marshal" and unmarshal :: "bytes \<Rightarrow> methodCall option"
    and handlers :: "coreMethod \<Rightarrow> ('r, 'st) handler" where
  talk_init: "wire c = [] \<Longrightarrow> talk_reachable marshal unmarshal handlers (initTalk c st fs)"
| talk_next: "talk_reachable marshal unmarshal handlers s \<Longrightarrow> talk_step marshal unmarshal handlers s t \<Longrightarrow>
    talk_reachable marshal unmarshal handlers t"

subsection \<open>Calls and replies\<close>

text \<open>A call without its stamp.\<close>

definition unstamped :: "methodCall \<Rightarrow> methodCall" where
  "unstamped c = c\<lparr>mc_seq := 0\<rparr>"

definition calls_inv :: "(bytes \<Rightarrow> methodCall option) \<Rightarrow> ('r, 'st) conversation \<Rightarrow> bool" where
  "calls_inv unmarshal s \<longleftrightarrow>
     map unstamped (arrived s) = map unstamped (List.map_filter unmarshal (consumed s)) \<and>
     map mc_seq (arrived s) = map (\<lambda>i. of_nat (Suc i)) [0..<length (arrived s)] \<and>
     dispatchSeq s = of_nat (length (arrived s)) \<and>
     mset (arrived s) = mset (pendingCalls s) + mset (map fst (answered s))"

lemma map_filter_snoc: "List.map_filter f (xs @ [x]) = List.map_filter f xs @ (case f x of None \<Rightarrow> [] | Some y \<Rightarrow> [y])"
  by (induction xs) (auto simp: map_filter_simps split: option.split)

lemma calls_inv_step:
  assumes "talk_step marshal unmarshal handlers s t" and "calls_inv unmarshal s"
  shows "calls_inv unmarshal t"
  using assms(1)
proof cases
  case (talk_call d ds call c seq)
  then have "c = call\<lparr>mc_seq := dispatchSeq s + 1\<rparr>" "seq = dispatchSeq s + 1"
    by (auto simp: dispatchMethodCall_def Let_def split: if_splits)
  with talk_call assms(2) show ?thesis
    by (auto simp: calls_inv_def map_filter_snoc unstamped_def add.commute)
qed (use assms(2) in \<open>auto simp: calls_inv_def map_filter_snoc\<close>)

text \<open>What \<open>handleMethodCall\<close> does to the files: at most one new file appears.\<close>

lemma handle_files:
  assumes "handleMethodCall marshal env handlers c st fs = (data, st', fs')" and "fresh_spill env fs"
  shows "fs \<subseteq>\<^sub>m fs'"
proof -
  have spill: "fs \<subseteq>\<^sub>m fs'" if "spillResponse marshal env i d fs = (data', fs')" for i d data'
  proof -
    obtain w fs1 where w: "writeSpilledResponse env d fs = (w, fs1)" by fastforce
    have "fs1 = fs \<or> (\<exists>path v. fs path = None \<and> fs1 = fs(path := v))"
      using writeSpilled_ok [of env d fs _ fs1] writeSpilled_failed [of env d fs _ fs1] w assms(2)
      by (cases w; cases "sp_create env") (auto simp: fresh_spill_def)
    then have "fs \<subseteq>\<^sub>m fs1" by (auto simp: map_le_def)
    then show ?thesis using that w by (auto simp: spillResponse_def split: if_splits sum.splits)
  qed
  show ?thesis
    using assms(1) spill
    by (auto simp: handleMethodCall_def split: option.splits prod.splits handlerResult.splits)
qed

definition replies_inv :: "'r marshal \<Rightarrow> (coreMethod \<Rightarrow> ('r, 'st) handler) \<Rightarrow> ('r, 'st) conversation \<Rightarrow> bool" where
  "replies_inv marshal handlers s \<longleftrightarrow>
     (\<forall>(c, st, data) \<in> set (answered s). \<exists>env fs st' fs'. fresh_spill env fs \<and>
        handleMethodCall marshal env handlers c st fs = (data, st', fs') \<and> fs' \<subseteq>\<^sub>m disk s) \<and>
     stream_of (gone s) (hostLink s) \<and> (\<forall>d \<in> set (gone s). length d \<le> maxIPCFrameSize) \<and>
     subseq (gone s) (map (\<lambda>(c, st, data). data) (answered s))"

lemma replies_inv_step:
  assumes "talk_step marshal unmarshal handlers s t" and inv: "replies_inv marshal handlers s"
  shows "replies_inv marshal handlers t"
  using assms(1)
proof cases
  case (talk_answer cs c cs' env data st fs l)
  have le: "disk s \<subseteq>\<^sub>m fs" using handle_files [OF talk_answer(5,4)] .
  have "\<exists>env fs0 st' fs'. fresh_spill env fs0 \<and> handleMethodCall marshal env handlers c0 st0 fs0 = (d0, st', fs') \<and>
      fs' \<subseteq>\<^sub>m fs" if "(c0, st0, d0) \<in> set (answered t)" for c0 st0 d0
  proof (cases "(c0, st0, d0) \<in> set (answered s)")
    case True
    then show ?thesis using inv le map_le_trans unfolding replies_inv_def by fast
  next
    case False
    then have "c0 = c" "st0 = coreState s" "d0 = data" using that talk_answer(1) by auto
    then show ?thesis using talk_answer(4,5) map_le_refl by blast
  qed
  moreover have "stream_of (gone t) l"
    using send_stream [OF talk_answer(6), of "gone s"] inv talk_answer(1) by (simp add: replies_inv_def)
  moreover have "\<forall>d \<in> set (gone t). length d \<le> maxIPCFrameSize"
    using inv sentOk_fits [of data "hostLink s"] talk_answer(1) by (auto simp: replies_inv_def)
  moreover have "subseq (gone t) (map (\<lambda>(c, st, data). data) (answered t))"
    using inv talk_answer(1) list_emb_append_mono [of "(=)" "gone s" _ "[]" "[data]"]
    by (auto simp: replies_inv_def intro: list_emb_append_mono)
  ultimately show ?thesis
    using talk_answer(1) by (auto simp: replies_inv_def)
qed (use inv in \<open>auto simp: replies_inv_def\<close>)

lemma talk_invs:
  "talk_reachable marshal unmarshal handlers s \<Longrightarrow> calls_inv unmarshal s \<and> replies_inv marshal handlers s"
proof (induction rule: talk_reachable.induct)
  case (talk_init c st fs)
  then show ?case
    by (simp add: calls_inv_def replies_inv_def initTalk_def stream_of_def map_filter_simps)
next
  case (talk_next s t)
  then show ?case using calls_inv_step replies_inv_step by blast
qed

subsection \<open>What the host gets\<close>

text \<open>A reply that was right when it was written stays right while other replies are moved to files of their own.\<close>

lemma receive_later:
  assumes "receive decode fs data = r" and "mr_file r = []" and "fs \<subseteq>\<^sub>m fs'"
  shows "receive decode fs' data = r"
proof (cases "mr_file (decode data) = []")
  case True
  with assms(1) show ?thesis by (simp add: receive_def)
next
  case False
  with assms(1,2) obtain content where "fs (mr_file (decode data)) = Some content" "decode content = r"
    by (auto simp: receive_def Let_def split: option.splits)
  moreover from this assms(3) have "fs' (mr_file (decode data)) = Some content"
    by (metis domI map_le_def)
  ultimately show ?thesis using False by (simp add: receive_def)
qed


text \<open>A call for a listing that does not fit and goes through a file.\<close>

definition listFrame :: "bytes \<Rightarrow> methodCall option" where
  "listFrame d = (if d = ''list'' then Some (listCall\<lparr>mc_seq := 0\<rparr>) else None)"

definition talkConn :: conn where
  "talkConn = \<lparr>wire = [], outcomes = [(4, None), (2, None)], deadlineOk = []\<rparr>"

definition fileLink :: ipcState where
  "fileLink = \<lparr>ipc_conn = Some \<lparr>wire = frame ''Ff'', outcomes = [], deadlineOk = []\<rparr>,
     deliveryFailureReported = False, stderrLog = [], closedConns = []\<rparr>"

definition listed :: "(unit, nat) conversation" where
  "listed = \<lparr>incoming = [], consumed = [''list''], dispatchSeq = 1, arrived = [listCall], pendingCalls = [],
     answered = [(listCall, 0, ''Ff'')], gone = [''Ff''], coreState = 1,
     disk = (\<lambda>_. None)(''f'' \<mapsto> listEncode (resultResponse ''7'' (Some ()))), hostLink = fileLink, crashed = False\<rparr>"

lemma listCall_method: "lookupMethod (mc_method listCall) = Some ProxyListMethod"
  using lookupMethod_name [of ProxyListMethod] by (simp add: methodTable_def listCall_def)

lemma list_handled:
  "handleMethodCall (\<lambda>r. Inr (listEncode r)) diskEnv listHandlers listCall 0 (\<lambda>_. None) =
     (''Ff'', 1, (\<lambda>_. None)(''f'' \<mapsto> listEncode (resultResponse ''7'' (Some ()))))"
  by (simp add: handleMethodCall_def listCall_method listHandlers_def spillResponse_def encodeResponse_def
      responseSpillThreshold_def writeSpilledResponse_def makeSpilledResponseDir_def diskEnv_def fun_eq_iff)
    (simp add: listEncode_def fileResponse_def resultResponse_def listCall_def)

lemma listed_reachable: "talk_reachable (\<lambda>r. Inr (listEncode r)) listFrame listHandlers listed"
proof -
  let ?R = "talk_reachable (\<lambda>r. Inr (listEncode r)) listFrame listHandlers"
  let ?S = "talk_step (\<lambda>r. Inr (listEncode r)) listFrame listHandlers"
  let ?s = "initTalk talkConn 0 (\<lambda>_. None) :: (unit, nat) conversation"
  let ?t = "?s\<lparr>incoming := [''list'']\<rparr>"
  let ?u = "?t\<lparr>incoming := [], consumed := [''list''], dispatchSeq := 1, arrived := [listCall], pendingCalls := [listCall]\<rparr>"
  have "?R ?s" by (rule talk_init) (simp add: talkConn_def)
  moreover have "?S ?s ?t" using talk_send [where s = ?s and d = "''list''"] by (simp add: initTalk_def)
  moreover have "?S ?t ?u"
    using talk_call [where s = ?t and d = "''list''" and ds = "[]" and call = "listCall\<lparr>mc_seq := 0\<rparr>"
        and c = listCall and seq = 1 and unmarshal = listFrame]
    by (simp add: initTalk_def listFrame_def dispatchMethodCall_def listCall_def)
  moreover have "send ''Ff'' (hostLink ?u) = Some fileLink" "sentOk ''Ff'' (hostLink ?u)"
    by (simp_all add: send_def sentOk_def setWriteDeadline_def initTalk_def talkConn_def fileLink_def frame_def write_run)
  then have "?S ?u listed"
    using talk_answer [where s = ?u and cs = "[]" and c = listCall and cs' = "[]" and env = diskEnv and data = "''Ff''"
        and st = 1 and l = fileLink and marshal = "\<lambda>r. Inr (listEncode r)" and handlers = listHandlers] list_handled
    by (simp add: initTalk_def listed_def fresh_spill_def diskEnv_def)
  ultimately show ?thesis by (blast intro: talk_next)
qed

lemma list_codec:
  assumes "c \<in> set (arrived listed)"
    and "r = promisedReply listHandlers c st \<or> (\<exists>path. path \<noteq> [] \<and> r = fileResponse (mc_id c) path)"
  shows "Inr (listEncode r) = (Inr (listEncode r) :: (string, bytes) result) \<and> listDecode (listEncode r) = r"
proof -
  have "c = listCall" "mc_id listCall = ''7''" using assms(1) by (simp_all add: listed_def listCall_def)
  then have "r = resultResponse ''7'' (Some ()) \<or> (\<exists>path. path \<noteq> [] \<and> r = fileResponse ''7'' path)"
    using assms(2) list_reply by simp
  then show ?thesis
    by (auto simp: listEncode_def listDecode_def) (simp_all add: resultResponse_def fileResponse_def)
qed


end
