(* ===== verification/Upkeep.thy ===== *)
theory Upkeep
  imports Dispatch GoNumbers
begin

section \<open>Memory, leftovers and counters (\<open>core/lifecycle.go\<close>, \<open>core/spill.go\<close>, \<open>core/connection.go\<close>)\<close>

text \<open>
  What the core does on the side: it gives memory back once the loads went quiet, clears the responses a dead
  host left on disk, and answers the readings of memory, traffic and connections.
\<close>

subsection \<open>Giving memory back after the loads\<close>

text \<open>
  Times are in milliseconds. The timer is made by the first call and only reset by the others; it fires when its
  time has come, at once or late. The history keeps what happened and when, oldest first.
\<close>

definition loadReleaseDelay :: nat where "loadReleaseDelay = 2000"

datatype loadEvent = Scheduled nat | Released nat

record loadRelease =
  clock :: nat
  loadReleaseTimer :: "nat option option"   \<comment> \<open>no timer, a timer at rest, or one that is due then\<close>
  loadHistory :: "loadEvent list"

definition scheduleLoadMemoryRelease :: "loadRelease \<Rightarrow> loadRelease" where
  "scheduleLoadMemoryRelease s =
     (let s = s\<lparr>loadHistory := loadHistory s @ [Scheduled (clock s)]\<rparr>
      in case loadReleaseTimer s of
           None \<Rightarrow> s\<lparr>loadReleaseTimer := Some (Some (clock s + loadReleaseDelay))\<rparr>
         | Some _ \<Rightarrow> s\<lparr>loadReleaseTimer := Some (Some (clock s + loadReleaseDelay))\<rparr>)"

definition fireLoadRelease :: "loadRelease \<Rightarrow> loadRelease" where
  "fireLoadRelease s =
     (case loadReleaseTimer s of
        Some (Some due) \<Rightarrow>
          if due \<le> clock s
          then s\<lparr>loadReleaseTimer := Some None, loadHistory := loadHistory s @ [Released (clock s)]\<rparr>
          else s
      | _ \<Rightarrow> s)"

inductive load_step :: "loadRelease \<Rightarrow> loadRelease \<Rightarrow> bool" where
  load_schedule: "load_step s (scheduleLoadMemoryRelease s)"
| load_fire: "load_step s (fireLoadRelease s)"
| load_wait: "load_step s (s\<lparr>clock := clock s + d\<rparr>)"

definition initLoads :: loadRelease where
  "initLoads = \<lparr>clock = 0, loadReleaseTimer = None, loadHistory = []\<rparr>"

inductive load_reachable :: "loadRelease \<Rightarrow> bool" where
  load_init: "load_reachable initLoads"
| load_next: "load_reachable s \<Longrightarrow> load_step s t \<Longrightarrow> load_reachable t"

text \<open>
  What a history should look like, read from its end: a release comes right after a schedule that every one
  before it precedes by the delay, and the timer is due exactly while the last event is a schedule.
\<close>

fun quiet :: "loadEvent list \<Rightarrow> bool" where
  "quiet [] = True"
| "quiet (Scheduled t # es) = quiet es"
| "quiet (Released r # es) =
     ((\<exists>t fs. es = Scheduled t # fs) \<and> (\<forall>t. Scheduled t \<in> set es \<longrightarrow> t + loadReleaseDelay \<le> r) \<and> quiet es)"

definition load_inv :: "loadRelease \<Rightarrow> bool" where
  "load_inv s \<longleftrightarrow>
     quiet (rev (loadHistory s)) \<and>
     (\<forall>t. Scheduled t \<in> set (loadHistory s) \<longrightarrow> t \<le> clock s) \<and>
     (case rev (loadHistory s) of
        [] \<Rightarrow> loadReleaseTimer s = None
      | Scheduled t # es \<Rightarrow> loadReleaseTimer s = Some (Some (t + loadReleaseDelay)) \<and>
          (\<forall>u. Scheduled u \<in> set es \<longrightarrow> u \<le> t)
      | Released r # es \<Rightarrow> loadReleaseTimer s = Some None)"

lemma load_inv_schedule: "load_inv s \<Longrightarrow> load_inv (scheduleLoadMemoryRelease s)"
  by (cases "loadReleaseTimer s") (auto simp: load_inv_def scheduleLoadMemoryRelease_def Let_def)

lemma load_inv_fire:
  assumes "load_inv s"
  shows "load_inv (fireLoadRelease s)"
proof (cases "\<exists>due. loadReleaseTimer s = Some (Some due) \<and> due \<le> clock s")
  case True
  then obtain due where due: "loadReleaseTimer s = Some (Some due)" "due \<le> clock s" by blast
  with assms obtain t es where h: "rev (loadHistory s) = Scheduled t # es"
    by (auto simp: load_inv_def split: list.splits loadEvent.splits)
  have "set (loadHistory s) = set (Scheduled t # es)" using h by (metis set_rev)
  with assms due h show ?thesis
    by (fastforce simp: load_inv_def fireLoadRelease_def)
next
  case False
  with assms show ?thesis
    by (auto simp: fireLoadRelease_def split: option.splits)
qed

lemma load_inv_step: "load_step s t \<Longrightarrow> load_inv s \<Longrightarrow> load_inv t"
  by (induction rule: load_step.induct)
    (simp_all add: load_inv_schedule load_inv_fire, auto simp: load_inv_def intro: trans_le_add1 split: list.split loadEvent.split)

lemma load_inv_reachable: "load_reachable s \<Longrightarrow> load_inv s"
  by (induction rule: load_reachable.induct)
    (auto simp: load_inv_step, simp add: load_inv_def initLoads_def)

lemma quiet_append: "quiet (es @ fs) \<Longrightarrow> quiet fs"
  by (induction es rule: quiet.induct) auto

lemma memory_released_when_quiet:
  assumes "load_reachable s"
  shows "loadHistory s = es @ Released r # fs \<Longrightarrow> Scheduled t \<in> set es \<Longrightarrow> t + loadReleaseDelay \<le> r"
    and "loadHistory s = es @ Released r # fs \<Longrightarrow> \<exists>gs t. es = gs @ [Scheduled t]"
    and "loadHistory s = es @ [Scheduled t] \<Longrightarrow> t + loadReleaseDelay \<le> clock s \<Longrightarrow>
      loadHistory (fireLoadRelease s) = loadHistory s @ [Released (clock s)]"
proof -
  have inv: "load_inv s" by (rule load_inv_reachable [OF assms])
  show "t + loadReleaseDelay \<le> r" if "loadHistory s = es @ Released r # fs" "Scheduled t \<in> set es"
    using that inv quiet_append [of "rev fs" "Released r # rev es"] by (simp add: load_inv_def)
  show "\<exists>gs t. es = gs @ [Scheduled t]" if "loadHistory s = es @ Released r # fs"
    using that inv quiet_append [of "rev fs" "Released r # rev es"]
    by (auto simp: load_inv_def)
  show "loadHistory (fireLoadRelease s) = loadHistory s @ [Released (clock s)]"
    if "loadHistory s = es @ [Scheduled t]" "t + loadReleaseDelay \<le> clock s"
    using that inv by (simp add: load_inv_def fireLoadRelease_def)
qed

subsection \<open>The readings of memory\<close>

text \<open>What \<open>runtime.ReadMemStats\<close> fills in, as far as it is read; the resident size is mihomo's.\<close>

record memStats =
  ms_HeapInuse :: u64
  ms_HeapIdle :: u64
  ms_HeapReleased :: u64
  ms_StackInuse :: u64
  ms_MSpanInuse :: u64
  ms_MCacheInuse :: u64
  ms_BuckHashSys :: u64
  ms_GCSys :: u64
  ms_OtherSys :: u64

record MemoryStats =
  Rss :: u64
  HeapInuse :: u64
  HeapIdle :: u64
  StackInuse :: u64
  RuntimeOther :: u64

definition handleGetMemoryStats :: "u64 \<Rightarrow> memStats \<Rightarrow> MemoryStats" where
  "handleGetMemoryStats rss stats =
     \<lparr>Rss = rss,
      HeapInuse = ms_HeapInuse stats,
      HeapIdle = ms_HeapIdle stats - ms_HeapReleased stats,
      StackInuse = ms_StackInuse stats,
      RuntimeOther = ms_MSpanInuse stats + ms_MCacheInuse stats + ms_BuckHashSys stats + ms_GCSys stats
        + ms_OtherSys stats\<rparr>"

text \<open>
  The runtime never releases more than is idle, and its accounts of one process fit 64 bits: then no reading
  wraps around, and the parts add up to what the process holds.
\<close>

lemma memory_readings_add_up:
  assumes "ms_HeapReleased stats \<le> ms_HeapIdle stats"
    and m: "m = handleGetMemoryStats rss stats"
    and bound: "unat (ms_HeapInuse stats) + unat (ms_HeapIdle stats) + unat (ms_StackInuse stats) + unat (ms_MSpanInuse stats)
      + unat (ms_MCacheInuse stats) + unat (ms_BuckHashSys stats) + unat (ms_GCSys stats) + unat (ms_OtherSys stats) < 2 ^ 64"
  shows "unat (HeapInuse m) + unat (HeapIdle m) + unat (StackInuse m) + unat (RuntimeOther m)
      + unat (ms_HeapReleased stats) =
    unat (ms_HeapInuse stats) + unat (ms_HeapIdle stats) + unat (ms_StackInuse stats) + unat (ms_MSpanInuse stats)
      + unat (ms_MCacheInuse stats) + unat (ms_BuckHashSys stats) + unat (ms_GCSys stats) + unat (ms_OtherSys stats)"
proof -
  have add: "unat (x + y) = unat x + unat y" if "unat x + unat y < 2 ^ 64" for x y :: u64
    using that by (simp add: unat_add_lem [THEN iffD1])
  let ?a = "ms_MSpanInuse stats" and ?b = "ms_MCacheInuse stats" and ?c = "ms_BuckHashSys stats"
    and ?d = "ms_GCSys stats" and ?e = "ms_OtherSys stats"
  have "unat (?a + ?b) = unat ?a + unat ?b" using bound by (intro add) simp
  moreover from this have "unat (?a + ?b + ?c) = unat ?a + unat ?b + unat ?c"
    using bound by (subst add) simp_all
  moreover from this have "unat (?a + ?b + ?c + ?d) = unat ?a + unat ?b + unat ?c + unat ?d"
    using bound by (subst add) simp_all
  moreover from this have "unat (?a + ?b + ?c + ?d + ?e) = unat ?a + unat ?b + unat ?c + unat ?d + unat ?e"
    using bound by (subst add) simp_all
  moreover have "unat (ms_HeapIdle stats - ms_HeapReleased stats) = unat (ms_HeapIdle stats) - unat (ms_HeapReleased stats)"
    "unat (ms_HeapReleased stats) \<le> unat (ms_HeapIdle stats)"
    using assms(1) by (simp_all add: unat_sub word_le_nat_alt)
  ultimately show ?thesis using m by (simp add: handleGetMemoryStats_def)
qed

subsection \<open>Leftover responses\<close>

text \<open>
  \<open>path/filepath\<close> on a system with slashes: \<open>Clean\<close> drops empty elements and dots and takes back the element
  before two dots, and \<open>Join\<close> cleans the elements that are not empty, put together with slashes.
\<close>

fun cleanElements :: "bool \<Rightarrow> string list \<Rightarrow> string list \<Rightarrow> string list" where
  "cleanElements rooted out [] = rev out"
| "cleanElements rooted out (e # es) =
     (if e = [] \<or> e = ''.'' then cleanElements rooted out es
      else if e = ''..''
      then (if out \<noteq> [] \<and> hd out \<noteq> ''..'' then cleanElements rooted (tl out) es
            else if rooted then cleanElements rooted out es
            else cleanElements rooted (e # out) es)
      else cleanElements rooted (e # out) es)"

definition cleanPath :: "string \<Rightarrow> string" where
  "cleanPath p =
     (let rooted = (p \<noteq> [] \<and> hd p = CHR ''/'');
          cleaned = (if rooted then ''/'' else []) @ str_join ''/'' (cleanElements rooted [] (split_on (CHR ''/'') p))
      in if cleaned = [] then ''.'' else cleaned)"

definition joinPath :: "string list \<Rightarrow> string" where
  "joinPath es = (if filter (\<lambda>e. e \<noteq> []) es = [] then [] else cleanPath (str_join ''/'' (filter (\<lambda>e. e \<noteq> []) es)))"

definition spilledResponseDirName :: string where "spilledResponseDirName = ''responses''"

definition spilledResponseDir :: "string \<Rightarrow> string" where
  "spilledResponseDir homeDir = joinPath [homeDir, spilledResponseDirName]"

text \<open>
  \<open>entries\<close> is what \<open>os.ReadDir\<close> answers, \<open>None\<close> an error, and \<open>removable\<close> says of which paths \<open>os.Remove\<close>
  gets rid; its errors are not looked at.
\<close>

definition clearSpilledResponses ::
  "string \<Rightarrow> string list option \<Rightarrow> (string \<Rightarrow> bool) \<Rightarrow> files \<Rightarrow> files" where
  "clearSpilledResponses homeDir entries removable fs =
     (case entries of
        None \<Rightarrow> fs
      | Some names \<Rightarrow>
          fold (\<lambda>name fs. let path = joinPath [spilledResponseDir homeDir, name]
                          in if removable path then fs(path := None) else fs) names fs)"

lemma clearSpilledResponses_exact:
  "clearSpilledResponses homeDir (Some names) removable fs p =
     (if removable p \<and> p \<in> (\<lambda>name. joinPath [spilledResponseDir homeDir, name]) ` set names then None else fs p)"
proof -
  have "fold (\<lambda>name fs. let path = joinPath [spilledResponseDir homeDir, name]
                        in if removable path then fs(path := None) else fs) names fs p =
    (if removable p \<and> p \<in> (\<lambda>name. joinPath [spilledResponseDir homeDir, name]) ` set names then None else fs p)" for fs
    by (induction names arbitrary: fs) (auto simp: Let_def)
  then show ?thesis by (simp only: clearSpilledResponses_def option.case)
qed

text \<open>A response that was spilled before the start is gone after it, and what lies elsewhere stays.\<close>

lemma old_responses_cleared:
  assumes "writeSpilledResponse env data fs = (Inr path, fs')"
    and "path = joinPath [spilledResponseDir homeDir, name]" and "name \<in> set names" and "removable path"
  shows "clearSpilledResponses homeDir (Some names) removable fs' path = None"
    and "p \<notin> (\<lambda>name. joinPath [spilledResponseDir homeDir, name]) ` set names \<Longrightarrow>
      clearSpilledResponses homeDir (Some names) removable fs' p = fs p"
proof -
  show "clearSpilledResponses homeDir (Some names) removable fs' path = None"
    using assms by (auto simp: clearSpilledResponses_exact)
  assume "p \<notin> (\<lambda>name. joinPath [spilledResponseDir homeDir, name]) ` set names"
  moreover from this have "p \<noteq> path" using assms by blast
  ultimately show "clearSpilledResponses homeDir (Some names) removable fs' p = fs p"
    using writeSpilled_ok [OF assms(1)] by (simp add: clearSpilledResponses_exact)
qed

lemma joinPath_examples:
  "joinPath [spilledResponseDir ''/data/'', ''r.json''] = ''/data/responses/r.json''"
  "joinPath [''a'', ''../..'', ''b''] = ''../b''" "joinPath [''/'', ''..'', ''x''] = ''/x''" "joinPath [[], []] = []"
  by code_simp+

subsection \<open>Traffic and connections\<close>

text \<open>
  mihomo's table of connections: their identities in the order \<open>Range\<close> visits them, \<open>Get\<close>, \<open>Close\<close> and the
  counters. It is an argument.
\<close>

record 'm statistic =
  st_Range :: "'m \<Rightarrow> string list"
  st_Get :: "'m \<Rightarrow> string \<Rightarrow> bool"
  st_Close :: "string \<Rightarrow> 'm \<Rightarrow> 'm"
  st_NowTraffic :: "'m \<Rightarrow> bool \<Rightarrow> int \<times> int"
  st_TotalTraffic :: "'m \<Rightarrow> bool \<Rightarrow> int \<times> int"
  st_ResetStatistic :: "'m \<Rightarrow> 'm"

record Traffic =
  Up :: int
  Down :: int

text \<open>\<open>Range\<close> with a function that goes on while it answers \<open>true\<close>.\<close>

fun rangeOver :: "(string \<Rightarrow> 'a \<Rightarrow> 'a \<times> bool) \<Rightarrow> string list \<Rightarrow> 'a \<Rightarrow> 'a" where
  "rangeOver f [] a = a"
| "rangeOver f (c # cs) a = (case f c a of (a, True) \<Rightarrow> rangeOver f cs a | (a, False) \<Rightarrow> a)"

definition handleGetTraffic :: "'m statistic \<Rightarrow> bool \<Rightarrow> 'm \<Rightarrow> Traffic" where
  "handleGetTraffic st onlyProxy m = (case st_NowTraffic st m onlyProxy of (up, down) \<Rightarrow> \<lparr>Up = up, Down = down\<rparr>)"

definition handleGetTotalTraffic :: "'m statistic \<Rightarrow> bool \<Rightarrow> 'm \<Rightarrow> Traffic" where
  "handleGetTotalTraffic st onlyProxy m = (case st_TotalTraffic st m onlyProxy of (up, down) \<Rightarrow> \<lparr>Up = up, Down = down\<rparr>)"

definition handleResetTraffic :: "'m statistic \<Rightarrow> 'm \<Rightarrow> 'm" where
  "handleResetTraffic st m = st_ResetStatistic st m"

definition handleGetConnectionCount :: "'m statistic \<Rightarrow> 'm \<Rightarrow> nat" where
  "handleGetConnectionCount st m = rangeOver (\<lambda>_ count. (count + 1, True)) (st_Range st m) 0"

definition handleCloseConnections :: "'m statistic \<Rightarrow> 'm \<Rightarrow> 'm" where
  "handleCloseConnections st m = rangeOver (\<lambda>c m. (st_Close st c m, True)) (st_Range st m) m"

text \<open>The error is always \<open>nil\<close>.\<close>

definition handleCloseConnection :: "'m statistic \<Rightarrow> string \<Rightarrow> 'm \<Rightarrow> string option \<times> 'm" where
  "handleCloseConnection st ident m = (None, if st_Get st m ident then st_Close st ident m else m)"

text \<open>The JSON of a reading, which Android takes as a string: the fields of \<open>Traffic\<close> in order.\<close>

definition trafficJson :: "Traffic \<Rightarrow> string" where
  "trafficJson t = ''{'' @ CHR 0x22 # ''up'' @ CHR 0x22 # '':'' @ format_int (Up t) @ '','' @
     CHR 0x22 # ''down'' @ CHR 0x22 # '':'' @ format_int (Down t) @ ''}''"

text \<open>\<open>marshalResult\<close>: an encoding error gives the empty string.\<close>

definition marshalResult :: "('a \<Rightarrow> (string, bytes) result) \<Rightarrow> 'a \<Rightarrow> string" where
  "marshalResult marshal v = (case marshal v of Inl err \<Rightarrow> [] | Inr data \<Rightarrow> data)"

definition GetTraffic :: "'m statistic \<Rightarrow> bool \<Rightarrow> 'm \<Rightarrow> string" where
  "GetTraffic st onlyStatisticsProxy m = marshalResult (Inr \<circ> trafficJson) (handleGetTraffic st onlyStatisticsProxy m)"

definition GetTotalTraffic :: "'m statistic \<Rightarrow> bool \<Rightarrow> 'm \<Rightarrow> string" where
  "GetTotalTraffic st onlyStatisticsProxy m =
     marshalResult (Inr \<circ> trafficJson) (handleGetTotalTraffic st onlyStatisticsProxy m)"

text \<open>
  If a closed connection leaves the table and no other does, closing all of them leaves none, and closing one
  that is gone changes nothing.
\<close>

lemma rangeOver_count: "rangeOver (\<lambda>_ n. (n + 1, True)) cs (n :: nat) = n + length cs"
  by (induction cs arbitrary: n) simp_all

lemma connections_closed:
  assumes leaves: "\<And>c m. st_Range st (st_Close st c m) = filter (\<lambda>d. d \<noteq> c) (st_Range st m)"
    and get: "\<And>m c. st_Get st m c \<longleftrightarrow> c \<in> set (st_Range st m)"
  shows "st_Range st (handleCloseConnections st m) = []"
    and "handleGetConnectionCount st m = length (st_Range st m)"
    and "st_Range st (snd (handleCloseConnection st c m)) = filter (\<lambda>d. d \<noteq> c) (st_Range st m)"
proof -
  have "st_Range st (rangeOver (\<lambda>c m. (st_Close st c m, True)) cs m) = filter (\<lambda>d. d \<notin> set cs) (st_Range st m)" for cs m
    by (induction cs arbitrary: m) (auto simp: leaves intro: filter_cong)
  then show "st_Range st (handleCloseConnections st m) = []"
    by (simp add: handleCloseConnections_def)
  show "handleGetConnectionCount st m = length (st_Range st m)"
    using rangeOver_count [of "st_Range st m" 0] by (simp add: handleGetConnectionCount_def)
  have "c \<notin> set xs \<Longrightarrow> xs = filter (\<lambda>d. d \<noteq> c) xs" for xs :: "string list"
    by (metis (mono_tags, lifting) filter_True)
  then show "st_Range st (snd (handleCloseConnection st c m)) = filter (\<lambda>d. d \<noteq> c) (st_Range st m)"
    by (simp add: handleCloseConnection_def leaves get)
qed

text \<open>Two readings with the same JSON are the same.\<close>

lemma dec_digits_no: "\<not> isDecimal c \<Longrightarrow> c \<notin> set (dec_digits n)"
  using dec_digits_decimal [of n] by (auto simp: list_all_iff)

lemma format_int_no: "c \<noteq> CHR ''-'' \<Longrightarrow> \<not> isDecimal c \<Longrightarrow> c \<notin> set (format_int i)"
  by (simp add: format_int_def dec_digits_no)

lemma dec_digits_inject: "dec_digits m = dec_digits n \<Longrightarrow> m = n"
  by (metis digitsValue_dec of_nat_eq_iff)

lemma dash_not_dec_digits: "dec_digits n \<noteq> CHR ''-'' # s"
  using dec_digits_no [OF isDecimal_sign(1), of n] by auto

lemma format_int_inject: "format_int i = format_int j \<Longrightarrow> i = j"
  using dash_not_dec_digits dash_not_dec_digits [symmetric]
  by (auto simp: format_int_def dest!: dec_digits_inject split: if_splits)

lemma append_sep_inject:
  assumes "s \<notin> set xs" and "s \<notin> set ys" and "xs @ s # us = ys @ s # vs"
  shows "xs = ys" and "us = vs"
proof -
  have "takeWhile (\<lambda>c. c \<noteq> s) (zs @ s # ws) = zs" if "s \<notin> set zs" for zs ws
    using that by (induction zs) auto
  from this [OF assms(1)] this [OF assms(2)] show "xs = ys" using assms(3) by metis
  then show "us = vs" using assms(3) by simp
qed

lemma trafficJson_inject: "trafficJson t = trafficJson u \<longleftrightarrow> t = u"
proof
  assume eq: "trafficJson t = trafficJson u"
  have comma: "CHR '','' \<notin> set (format_int i)" for i
    by (rule format_int_no) (simp_all add: isDecimal_def code_def)
  let ?rest = "\<lambda>t. CHR 0x22 # ''down'' @ CHR 0x22 # '':'' @ format_int (Down t) @ ''}''"
  have split: "format_int (Up t) @ CHR '','' # ?rest t = format_int (Up u) @ CHR '','' # ?rest u"
    using eq by (simp add: trafficJson_def)
  from append_sep_inject(1) [OF comma comma split] have "Up t = Up u" by (rule format_int_inject)
  moreover from append_sep_inject(2) [OF comma comma split] have "format_int (Down t) = format_int (Down u)" by simp
  then have "Down t = Down u" by (rule format_int_inject)
  ultimately show "t = u" by simp
qed simp

end
