(* ===== verification/Entry.thy ===== *)
theory Entry
  imports GoNumbers Hooks
begin

section \<open>Entry, time zone and certificates (\<open>core/cmd/core\<close>, \<open>dial_*.go\<close>, \<open>timezone\<close>, \<open>certificate.go\<close>)\<close>

text \<open>What runs once per process, and the check of a peer's certificates that decides about a warning.\<close>

subsection \<open>The desktop's main function\<close>

text \<open>Where the host listens: a named pipe, a socket of the file system, or a port of the loopback.\<close>

datatype hostAddr = PipeAddr string | UnixAddr string | TcpAddr string

definition dialHost :: "bool \<Rightarrow> string \<Rightarrow> hostAddr" where
  "dialHost windows arg =
     (if windows then PipeAddr arg
      else (case atoi arg of
              None \<Rightarrow> UnixAddr arg
            | Some _ \<Rightarrow> TcpAddr (''127.0.0.1:'' @ arg)))"

text \<open>\<open>os.Args\<close> begins with the program; without more it exits with 1, and a dial that fails panics.\<close>

datatype mainOutcome = ExitsWith int | PanicsWith string | Serves

definition StartServer :: "bool \<Rightarrow> (hostAddr \<Rightarrow> string option) \<Rightarrow> string \<Rightarrow> mainOutcome" where
  "StartServer windows dialError arg =
     (case dialError (dialHost windows arg) of
        Some e \<Rightarrow> PanicsWith e
      | None \<Rightarrow> Serves)"

definition mainFunction :: "bool \<Rightarrow> (hostAddr \<Rightarrow> string option) \<Rightarrow> string list \<Rightarrow> mainOutcome" where
  "mainFunction windows dialError args =
     (case args of
        program # arg # rest \<Rightarrow> StartServer windows dialError arg
      | _ \<Rightarrow> ExitsWith 1)"

text \<open>The goroutine that waits for a signal, once one came; \<open>None\<close> would be a panic of the shutdown.\<close>

definition ExitOnTermination ::
  "('x, 's, 'g) outside \<Rightarrow> bool \<Rightarrow> ('x, 's, 'g) core \<Rightarrow> (('x, 's, 'g) core \<times> mainOutcome) option" where
  "ExitOnTermination env inTime c = map_option (\<lambda>(c, notice). (c, ExitsWith 0)) (releaseOnExit env inTime c)"

text \<open>A number leads to the loopback: no second colon can make the rest of it the port.\<close>

lemma dialHost_stays_local:
  "dialHost False arg = TcpAddr a \<Longrightarrow> \<exists>p. a = ''127.0.0.1:'' @ p \<and> CHR '':'' \<notin> set p \<and> p \<noteq> []"
proof -
  assume d: "dialHost False arg = TcpAddr a"
  then obtain n where n: "atoi arg = Some n" "a = ''127.0.0.1:'' @ arg"
    by (auto simp: dialHost_def split: option.splits)
  have "\<not> isDecimal CHR '':''" by (simp add: isDecimal_def code_def)
  with n(1) have "CHR '':'' \<notin> set arg" "arg \<noteq> []"
    by (auto simp: atoi_def Let_def list_all_iff split: list.splits if_splits)
  with n(2) show ?thesis by blast
qed

subsection \<open>The zone of Android\<close>

text \<open>
  \<open>time.Local\<close> is set once, from the system's property: by its name if Go finds the zone, or by the offset that
  bionic's \<open>localtime_r\<close> tells. Without the property it stays as it is.
\<close>

datatype 'z location = Loaded 'z | FixedZone string int

definition gmtOffset :: "int option \<Rightarrow> int" where
  "gmtOffset localtime = (case localtime of None \<Rightarrow> 0 | Some offset \<Rightarrow> offset)"

definition initTimezone ::
  "(string \<Rightarrow> string option) \<Rightarrow> (string \<Rightarrow> 'z option) \<Rightarrow> int option \<Rightarrow> 'z location option" where
  "initTimezone property LoadLocation localtime =
     (case property ''persist.sys.timezone'' of
        None \<Rightarrow> None
      | Some name \<Rightarrow>
          if name = [] then None
          else (case LoadLocation name of
                  Some z \<Rightarrow> Some (Loaded z)
                | None \<Rightarrow> Some (FixedZone name (gmtOffset localtime))))"

subsection \<open>Certificates of a peer\<close>

text \<open>
  The options that \<open>verifyPeer\<close> gives to the verification of \<open>crypto/x509\<close>, which is the argument together with
  the clock of the configuration.
\<close>

record verifyOptions =
  Roots :: "string list option"
  DNSName :: string
  Intermediates :: "string list"
  CurrentTime :: "int option"

definition verifyPeer ::
  "(verifyOptions \<Rightarrow> string \<Rightarrow> bool) \<Rightarrow> string list option \<Rightarrow> int option \<Rightarrow> string \<Rightarrow> string list \<Rightarrow> bool" where
  "verifyPeer verify rootCAs time serverName certificates =
     verify \<lparr>Roots = rootCAs, DNSName = serverName, Intermediates = tl certificates, CurrentTime = time\<rparr>
       (hd certificates)"

text \<open>With the check off every connection is accepted, and a warning tells exactly of the untrusted ones.\<close>

lemma relaxed_accepts:
  assumes "VerifyConnection (relaxCertVerify True (verifyPeer verify roots time name) cfg) = Some f"
  shows "f certificates"
    and "snd (acceptLogged (verifyPeer verify roots time name) (leaf # others)) \<longleftrightarrow>
      \<not> verify \<lparr>Roots = roots, DNSName = name, Intermediates = others, CurrentTime = time\<rparr> leaf"
  using assms by (auto simp: relaxCertVerify_def acceptLogged_def verifyPeer_def)

end
