(* ===== verification/Spec2Isabelle.thy ===== *)
theory Spec2Isabelle
  imports Route Slots Batcher Ipc Dispatch RequestTraffic TunSettle Region Probe ServiceRules Sweep Providers Proxies LifecycleProofs ShareLink ConfigLoad RuleSets OutboundIp Hooks Ownership Procfs AndroidLib Delivery Conversation Upkeep Entry
begin

text \<open>
  The repository holds a proxy client: a Flutter application (\<open>lib/\<close>), its platform shells, and the core, a
  Go program under \<open>src/core\<close> built around the proxy engine mihomo. This development models the core.

  \<^bold>\<open>The parts and how they interact.\<close> The host sends method calls over a socket (\<open>server.go\<close>) or, on Android,
  through exported functions (\<open>lib.go\<close>, \<open>mobile/mobile.go\<close>). \<open>method.go\<close> finds the handler of a call by its
  name (\<open>protocol.go\<close>) and answers it under its id. Handlers that change the configuration run under one
  lock, \<open>configMu\<close>: they start and stop the listeners, apply profiles and move the route. Every answer that
  depends on the route is stamped by the route tracker (\<open>route.go\<close>) with an epoch and a version, which the
  host compares. Events go the other way, through three queues and one batcher (\<open>message.go\<close>). Checks that
  leave through the tunnel (\<open>probe.go\<close>, \<open>service_check.go\<close>, \<open>outbound_ip.go\<close>) wait until a TUN that is being
  toggled has settled (\<open>tun_settle.go\<close>).

  \<^bold>\<open>Conventions.\<close> \<open>Prelude\<close> says how Go's types are read: a string is a list of bytes, a counter a \<open>64 word\<close>,
  a Go map a list of pairs with distinct keys, a fallible function a sum. A panic is \<open>None\<close>. mihomo, the YAML
  and JSON libraries, the network, the file system and the operating system are not part of the repository's
  Go code: each is an argument of the definitions that call it, and what the code relies on is a hypothesis
  of the theorem that needs it. Definitions bear the names of the functions they model, in the order of the
  files; where a function was cut into several definitions, \<open>PROJECT.json\<close> names the lines of each.

  \<^bold>\<open>Go's library.\<close> \<open>GoStrings\<close>, \<open>GoNumbers\<close>, \<open>GoBase64\<close>, \<open>GoUrl\<close> and \<open>Netip\<close> define what the core calls of
  \<open>strings\<close>, \<open>strconv\<close>, \<open>encoding/base64\<close>, \<open>net/url\<close> and \<open>net/netip\<close>, with the round trips that the proofs
  above them use; \<open>Channel\<close> is a buffered channel behind the locale \<open>bounded_fifo\<close>; \<open>YamlNode\<close> the heap of
  nodes of \<open>yaml.Node\<close>; \<open>Patterns\<close> a matcher for the regular expressions of the service rules; \<open>Adapters\<close>
  mihomo's proxies and groups as the core reads them.

  \<^bold>\<open>Transport and calls.\<close>
  \<^item> \<open>Message\<close> and \<open>Batcher\<close> (\<open>message.go\<close>): the senders with their eviction, and the batcher as a machine whose
    program points are its \<open>select\<close> statements, among senders that run at any time. Nothing is lost, doubled
    or reordered once queued; bulk events wait for at most eight others; closed queues are drained and the
    batcher returns.
  \<^item> \<open>Ipc\<close> (\<open>server.go\<close>): frames, the writer that resumes after a timeout, the sender and the serve loop.
    However writes turn out, the host reads the frames that were sent.
  \<^item> \<open>Delivery\<close>: the batcher over the connection, among replies. The host reads the accepted events of each queue
    in order, and all of them if no batch was lost.
  \<^item> \<open>Dispatch\<close> (\<open>method.go\<close>, \<open>spill.go\<close>): the table, the decoding of arguments, answers, panics, and responses
    moved to a file. Every call is answered once.
  \<^item> \<open>Conversation\<close>: the serve loop, the goroutines of the calls and their replies over the connection. Each call is
    answered once, by the reply promised for it, and the host reads the replies in order.
  \<^item> \<open>Entry\<close> (\<open>cmd/core/main.go\<close>, \<open>dial_pipe.go\<close>, \<open>dial_socket.go\<close>, \<open>timezone/\<close>): the start of the process, which
    only dials the host on its own machine, and its end; the verification of a peer's certificates.

  \<^bold>\<open>The route.\<close>
  \<^item> \<open>Route\<close> (\<open>route.go\<close>): refreshing, stamping, watching and polling as interleaved critical sections; the
    check of many hosts against the reference that checks each alone.
  \<^item> \<open>TunSettle\<close> (\<open>tun_settle.go\<close>): two gates, their timers and the aftershock.
  \<^item> \<open>Proxies\<close> (\<open>proxy.go\<close>, \<open>delay.go\<close>) and \<open>Providers\<close> (\<open>provider.go\<close>, \<open>geo.go\<close>): selection, delay tests,
    claims of updates behind the locale \<open>claim_table\<close>.

  \<^bold>\<open>The configuration.\<close>
  \<^item> \<open>Config\<close>, \<open>Lifecycle\<close>, \<open>LifecycleProofs\<close> (\<open>config.go\<close>, \<open>lifecycle.go\<close>, \<open>egress.go\<close>, \<open>connection.go\<close>,
    \<open>default_interface.go\<close>): the state under \<open>configMu\<close>, one definition per handler, composed with the gates
    and the tracker; the invariant of every order of calls and timers; and two runs in which an egress pin
    outlives its window.
  \<^item> \<open>ProfileBase\<close>, \<open>ProfileProofs\<close>, \<open>ProfileMerge\<close>, \<open>ProfileInline\<close>, \<open>ProfileWrite\<close>, \<open>ProfileEncode\<close>
    (\<open>profile_base.go\<close>, \<open>short_id.go\<close>): the merge of a profile with the host's overlay on YAML nodes, and the
    writing of the result. Recursions over documents take fuel; the theorems give the amount (the number
    of nodes) that is enough on documents without a cycle, and show that a cycle has none.
  \<^item> \<open>ConfigLoad\<close> (\<open>config.go\<close>, \<open>quic.go\<close>): loading, defaults and the replacement of the file.
  \<^item> \<open>RuleSets\<close> (\<open>rule_set.go\<close>): names, files, and the recompilation of a list of rules into a set of domains or
    prefixes that matches the same.
  \<^item> \<open>ShareLink\<close> (\<open>share_link.go\<close>): every encoder, and what a reader finds in a link.

  \<^bold>\<open>Checks.\<close>
  \<^item> \<open>Slots\<close> (\<open>slots.go\<close>), \<open>Probe\<close> (\<open>probe.go\<close>), \<open>OutboundIp\<close> (\<open>outbound_ip.go\<close>), \<open>ServiceCheck\<close>,
    \<open>ServiceRules\<close>, \<open>Sweep\<close> (\<open>service_check.go\<close>, \<open>service_rules.go\<close>), \<open>Region\<close> (\<open>region.go\<close>): slots, one probe
    and its hits, the race of several sources, every rule with its requests, the goroutines of a sweep, and the
    packed table of regions.

  \<^bold>\<open>Events and the system.\<close>
  \<^item> \<open>RequestTraffic\<close> (\<open>request_traffic.go\<close>) and \<open>Hooks\<close> (\<open>hooks.go\<close>, \<open>log.go\<close>, \<open>dns_query.go\<close>,
    \<open>certificate.go\<close>, \<open>filter.go\<close>, \<open>exit.go\<close>): what mihomo reports and what becomes an event.
  \<^item> \<open>Ownership\<close> (\<open>ownership_unix.go\<close>): files handed back to the user, in a world that changes between two
    system calls.
  \<^item> \<open>Procfs\<close>, \<open>FdLimit\<close> (\<open>platform/\<close>), \<open>TunStart\<close> (\<open>tun/tun.go\<close>), \<open>AndroidTun\<close>, \<open>AndroidLib\<close> (\<open>lib.go\<close>,
    \<open>mobile/mobile.go\<close>): the owner of a socket, the gate on dials, the descriptor of the VPN, its sessions and
    hooks as interleaved steps, and the exports composed with the core of \<open>Lifecycle\<close>.
  \<^item> \<open>Upkeep\<close> (\<open>lifecycle.go\<close>, \<open>spill.go\<close>, \<open>connection.go\<close>): memory given back once the loads went quiet, the
    clearing of old responses, and the readings of memory, traffic and connections.

  \<^bold>\<open>Bounds and fuel.\<close> Counters wrap at 64 bits; where a theorem needs that a counter did not wrap, the bound is
  a hypothesis. Loops over timers and goroutines are step relations or runs of any length. \<open>drop_words\<close>, the
  scans of strings and the merge of documents take fuel; \<open>length s\<close>, respectively the number of nodes, is
  what their callers pass, and the lemmas beside them show it to be enough.

  \<^bold>\<open>Not modelled.\<close> JSON encoding and decoding, the HTTP client, TLS, regular expression syntax and mihomo's
  parsing, rules and proxies are arguments. The time between two events is a number, never a schedule: how
  fast a goroutine runs is left open. The exports of \<open>mobile/mobile.go\<close> that only hand
  a call on, and everything outside \<open>src/core\<close>, which is other programs in other languages, hold no logic of
  the core.
\<close>

end
